(* ===== verification/Prelude.thy ===== *)
theory Prelude
  imports Main
begin

text \<open>
  What every component shares.  An operation of the program that reads or writes state and
  may return a Go error is an \<open>act\<close>: it takes the state and gives the error or the value,
  together with the new state (a Go function keeps the effects it had before it returned an
  error, so the state comes back on both branches).  \<open>bindE\<close> is the code's
  \<open>x, err := f(); if err != nil { return err }\<close>, \<open>wrapE\<close> replaces the error on the way out
  (\<open>fmt.Errorf\<close> with \<open>%w\<close>), and \<open>attempt\<close> hands the error to the code as a value where the
  code inspects it.  \<open>keeps I m\<close> says that \<open>m\<close> preserves the invariant \<open>I\<close> on every branch,
  errors included; its rules are collected in \<open>keeps_intros\<close>.
\<close>

named_theorems keeps_intros \<open>rules that show that an action preserves an invariant\<close>
named_theorems act_simps \<open>how the combinators run\<close>

type_synonym ('w, 'e, 'a) act = "'w \<Rightarrow> ('e + 'a) \<times> 'w"

definition ret :: "'a \<Rightarrow> ('w, 'e, 'a) act" where
  "ret a = (\<lambda>w. (Inr a, w))"

definition fail :: "'e \<Rightarrow> ('w, 'e, 'a) act" where
  "fail e = (\<lambda>w. (Inl e, w))"

definition bindE :: "('w, 'e, 'a) act \<Rightarrow> ('a \<Rightarrow> ('w, 'e, 'b) act) \<Rightarrow> ('w, 'e, 'b) act" where
  "bindE m f = (\<lambda>w. case m w of (Inl e, w') \<Rightarrow> (Inl e, w') | (Inr a, w') \<Rightarrow> f a w')"

definition attempt :: "('w, 'e, 'a) act \<Rightarrow> ('w, 'e2, 'e + 'a) act" where
  "attempt m = (\<lambda>w. case m w of (r, w') \<Rightarrow> (Inr r, w'))"

definition wrapE :: "('e \<Rightarrow> 'e2) \<Rightarrow> ('w, 'e, 'a) act \<Rightarrow> ('w, 'e2, 'a) act" where
  "wrapE g m = (\<lambda>w. case m w of (Inl e, w') \<Rightarrow> (Inl (g e), w') | (Inr a, w') \<Rightarrow> (Inr a, w'))"

definition gets :: "('w \<Rightarrow> 'a) \<Rightarrow> ('w, 'e, 'a) act" where
  "gets f = (\<lambda>w. (Inr (f w), w))"

definition modify :: "('w \<Rightarrow> 'w) \<Rightarrow> ('w, 'e, unit) act" where
  "modify f = (\<lambda>w. (Inr (), f w))"

lemma ret_apply [simp, act_simps]: "ret a w = (Inr a, w)"
  by (simp add: ret_def)

lemma fail_apply [simp, act_simps]: "fail e w = (Inl e, w)"
  by (simp add: fail_def)

lemma gets_apply [simp, act_simps]: "gets f w = (Inr (f w), w)"
  by (simp add: gets_def)

lemma modify_apply [simp, act_simps]: "modify f w = (Inr (), f w)"
  by (simp add: modify_def)

lemma bindE_Inl [act_simps]: "m w = (Inl e, w') \<Longrightarrow> bindE m f w = (Inl e, w')"
  by (simp add: bindE_def)

lemma bindE_Inr [act_simps]: "m w = (Inr a, w') \<Longrightarrow> bindE m f w = f a w'"
  by (simp add: bindE_def)

lemma bindE_ret [simp]: "bindE (ret a) f = f a"
  by (rule ext) (simp add: bindE_def)

lemma bindE_fail [simp]: "bindE (fail e) f = fail e"
  by (rule ext) (simp add: bindE_def)

lemma bindE_gets [simp]: "bindE (gets g) f w = f (g w) w"
  by (simp add: bindE_def)

lemma bindE_modify [simp]: "bindE (modify g) f w = f () (g w)"
  by (simp add: bindE_def)

text \<open>Monad laws: the order in which the code's early returns nest does not matter.\<close>

lemma bindE_assoc: "bindE (bindE m f) g = bindE m (\<lambda>a. bindE (f a) g)"
  by (rule ext) (auto simp: bindE_def split: prod.splits sum.splits)

lemma bindE_ret_right [simp]: "bindE m ret = m"
  by (rule ext) (auto simp: bindE_def split: prod.splits sum.splits)

text \<open>Inversion: how a composed operation can have succeeded.\<close>

lemma bindE_eq_Inr:
  "bindE m f w = (Inr b, w') \<longleftrightarrow> (\<exists>a w1. m w = (Inr a, w1) \<and> f a w1 = (Inr b, w'))"
  by (auto simp: bindE_def split: prod.splits sum.splits)

lemma bindE_eq_Inl:
  "bindE m f w = (Inl e, w') \<longleftrightarrow>
     m w = (Inl e, w') \<or> (\<exists>a w1. m w = (Inr a, w1) \<and> f a w1 = (Inl e, w'))"
  by (auto simp: bindE_def split: prod.splits sum.splits)

lemma wrapE_eq_Inr [simp]: "wrapE g m w = (Inr a, w') \<longleftrightarrow> m w = (Inr a, w')"
  by (auto simp: wrapE_def split: prod.splits sum.splits)

lemma wrapE_eq_Inl: "wrapE g m w = (Inl e, w') \<longleftrightarrow> (\<exists>e0. m w = (Inl e0, w') \<and> e = g e0)"
  by (auto simp: wrapE_def split: prod.splits sum.splits)

lemma wrapE_Inl [act_simps]: "m w = (Inl e, w') \<Longrightarrow> wrapE g m w = (Inl (g e), w')"
  by (simp add: wrapE_def)

lemma wrapE_Inr [act_simps]: "m w = (Inr a, w') \<Longrightarrow> wrapE g m w = (Inr a, w')"
  by simp

lemma attempt_run [act_simps]: "m w = (r, w') \<Longrightarrow> attempt m w = (Inr r, w')"
  by (simp add: attempt_def)

lemma attempt_eq [simp]: "attempt m w = (Inr r, w') \<longleftrightarrow> m w = (r, w')"
  by (auto simp: attempt_def split: prod.splits)

lemma attempt_not_Inl [simp]: "attempt m w \<noteq> (Inl e, w')"
  by (auto simp: attempt_def split: prod.splits)

text \<open>Inversion where the code looks at the error: \<open>if errors.Is(err, ...) { ... }\<close>.\<close>

lemma bind_attempt_cases:
  "bindE (attempt m) (\<lambda>r. case r of Inl e \<Rightarrow> f e | Inr a \<Rightarrow> g a) w = x \<longleftrightarrow>
     (\<exists>e w1. m w = (Inl e, w1) \<and> f e w1 = x) \<or> (\<exists>a w1. m w = (Inr a, w1) \<and> g a w1 = x)"
proof -
  obtain r w1 where "m w = (r, w1)" by force
  then show ?thesis by (cases r) (auto simp: bindE_def attempt_def)
qed

lemma snd_wrapE [simp]: "snd (wrapE g m w) = snd (m w)"
  by (auto simp: wrapE_def split: prod.splits sum.splits)

lemma snd_attempt [simp]: "snd (attempt m w) = snd (m w)"
  by (auto simp: attempt_def split: prod.splits)

subsection \<open>Preserved invariants\<close>

definition keeps :: "('w \<Rightarrow> bool) \<Rightarrow> ('w, 'e, 'a) act \<Rightarrow> bool" where
  "keeps I m \<longleftrightarrow> (\<forall>w. I w \<longrightarrow> I (snd (m w)))"

lemma keepsI: "(\<And>w. I w \<Longrightarrow> I (snd (m w))) \<Longrightarrow> keeps I m"
  by (simp add: keeps_def)

lemma keepsD: "keeps I m \<Longrightarrow> I w \<Longrightarrow> I (snd (m w))"
  by (simp add: keeps_def)

lemma keeps_run: "keeps I m \<Longrightarrow> m w = (r, w') \<Longrightarrow> I w \<Longrightarrow> I w'"
  by (metis keepsD snd_conv)

lemma keeps_ret [keeps_intros]: "keeps I (ret a)"
  by (simp add: keeps_def)

lemma keeps_fail [keeps_intros]: "keeps I (fail e)"
  by (simp add: keeps_def)

lemma keeps_gets [keeps_intros]: "keeps I (gets f)"
  by (simp add: keeps_def)

lemma keeps_bindE [keeps_intros]:
  "keeps I m \<Longrightarrow> (\<And>a. keeps I (f a)) \<Longrightarrow> keeps I (bindE m f)"
  by (fastforce simp: keeps_def bindE_def split: prod.splits sum.splits)

lemma keeps_wrapE [keeps_intros]: "keeps I m \<Longrightarrow> keeps I (wrapE g m)"
  by (simp add: keeps_def)

lemma keeps_attempt [keeps_intros]: "keeps I m \<Longrightarrow> keeps I (attempt m)"
  by (simp add: keeps_def)

lemma keeps_if [keeps_intros]: "keeps I m \<Longrightarrow> keeps I n \<Longrightarrow> keeps I (if b then m else n)"
  by simp

lemma keeps_prod [keeps_intros]:
  "(\<And>a b. keeps I (f a b)) \<Longrightarrow> keeps I (case p of (a, b) \<Rightarrow> f a b)"
  by (cases p) simp

lemma keeps_sum [keeps_intros]:
  "(\<And>e. keeps I (f e)) \<Longrightarrow> (\<And>a. keeps I (g a)) \<Longrightarrow>
   keeps I (case r of Inl e \<Rightarrow> f e | Inr a \<Rightarrow> g a)"
  by (cases r) auto

lemma keeps_option [keeps_intros]:
  "keeps I f \<Longrightarrow> (\<And>a. keeps I (g a)) \<Longrightarrow> keeps I (case r of None \<Rightarrow> f | Some a \<Rightarrow> g a)"
  by (cases r) auto

text \<open>\<open>leads A m B\<close>: run from \<open>A\<close>, the action ends in \<open>B\<close>, whether it fails or not.\<close>

definition leads :: "('w \<Rightarrow> bool) \<Rightarrow> ('w, 'e, 'a) act \<Rightarrow> ('w \<Rightarrow> bool) \<Rightarrow> bool" where
  "leads A m B \<longleftrightarrow> (\<forall>w. A w \<longrightarrow> B (snd (m w)))"

lemma leads_keeps: "keeps A m \<Longrightarrow> (\<And>w. A w \<Longrightarrow> B w) \<Longrightarrow> leads A m B"
  by (simp add: leads_def keeps_def)

lemma leads_bindE:
  assumes "\<And>w e w'. A w \<Longrightarrow> m w = (Inl e, w') \<Longrightarrow> C w'" and "\<And>w a w'. A w \<Longrightarrow> m w = (Inr a, w') \<Longrightarrow> B a w'"
    and "\<And>a. leads (B a) (f a) C"
  shows "leads A (bindE m f) C"
  unfolding leads_def
proof (intro allI impI)
  fix w assume w: "A w"
  obtain r w' where r: "m w = (r, w')" by force
  show "C (snd (bindE m f w))"
  proof (cases r)
    case (Inl e)
    with assms(1)[OF w] r show ?thesis by (simp add: bindE_def)
  next
    case (Inr a)
    with assms(2)[OF w] assms(3)[of a] r show ?thesis by (simp add: bindE_def leads_def)
  qed
qed

lemma leads_before: "keeps A m \<Longrightarrow> (\<And>w. A w \<Longrightarrow> B w) \<Longrightarrow> (\<And>a. leads A (f a) B) \<Longrightarrow> leads A (bindE m f) B"
  by (fastforce simp: leads_def keeps_def bindE_def split: prod.splits sum.splits)

lemma leads_after: "leads A m B \<Longrightarrow> (\<And>a. keeps B (f a)) \<Longrightarrow> leads A (bindE m f) B"
  by (fastforce simp: leads_def keeps_def bindE_def split: prod.splits sum.splits)

lemma keeps_conj: "keeps I m \<Longrightarrow> keeps J m \<Longrightarrow> keeps (\<lambda>w. I w \<and> J w) m"
  by (simp add: keeps_def)

lemma leads_fail: "(\<And>w. A w \<Longrightarrow> B w) \<Longrightarrow> leads A (fail e) B"
  by (simp add: leads_def)

lemma leads_if: "leads A m B \<Longrightarrow> leads A n B \<Longrightarrow> leads A (if b then m else n) B"
  by simp

lemma leads_attempt: "leads A m B \<Longrightarrow> leads A (attempt m) B"
  "leads A m B \<Longrightarrow> leads A (wrapE g m) B"
  by (simp_all add: leads_def)

text \<open>A result type without state: the same early return, on plain values.\<close>

definition bindS :: "'e + 'a \<Rightarrow> ('a \<Rightarrow> 'e + 'b) \<Rightarrow> 'e + 'b" where
  "bindS r f = (case r of Inl e \<Rightarrow> Inl e | Inr a \<Rightarrow> f a)"

lemma bindS_simps [simp]: "bindS (Inl e) f = Inl e" "bindS (Inr a) f = f a"
  by (simp_all add: bindS_def)

lemma bindS_eq_Inr: "bindS r f = Inr b \<longleftrightarrow> (\<exists>a. r = Inr a \<and> f a = Inr b)"
  by (cases r) auto

subsection \<open>Lists and maps\<close>

lemma distinct_map_filter: "distinct (map f xs) \<Longrightarrow> distinct (map f (filter P xs))"
  by (induction xs) auto

text \<open>Under a key that is distinct along a list, selecting by the key finds one row.\<close>

lemma filter_unique_key:
  assumes "distinct (map f xs)" and "x \<in> set xs"
  shows "filter (\<lambda>y. f y = f x) xs = [x]"
  using assms
proof (induction xs)
  case Nil
  then show ?case by simp
next
  case (Cons y ys)
  show ?case
  proof (cases "y = x")
    case True
    with Cons.prems have "filter (\<lambda>z. f z = f x) ys = []"
      by (auto simp: filter_empty_conv) (metis imageI)
    with True show ?thesis by simp
  next
    case False
    with Cons.prems have "x \<in> set ys" "f y \<noteq> f x" by auto
    with Cons show ?thesis by simp
  qed
qed

lemma filter_key_cases:
  assumes "distinct (map f xs)"
  shows "filter (\<lambda>y. f y = k) xs = [] \<or> (\<exists>x \<in> set xs. f x = k \<and> filter (\<lambda>y. f y = k) xs = [x])"
proof (cases "\<exists>x \<in> set xs. f x = k")
  case True
  then obtain x where "x \<in> set xs" "f x = k" by blast
  with filter_unique_key[OF assms, of x] show ?thesis by auto
next
  case False
  then show ?thesis by (simp add: filter_empty_conv)
qed

lemma map_if_key_distinct:
  assumes "\<And>x. x \<in> set xs \<Longrightarrow> f (g x) = f x"
  shows "map f (map g xs) = map f xs"
  using assms by (induction xs) auto

end
