(* ===== verification/Go_Strings.thy ===== *)
theory Go_Strings
  imports Prelude
begin

text \<open>
  The functions of Go's \<open>strings\<close>, \<open>unicode/utf8\<close>, \<open>path\<close>, \<open>encoding/hex\<close> and
  \<open>encoding/base64\<close> packages that the program calls.  A Go string is a sequence of bytes, here
  a list of \<open>char\<close> (Isabelle's \<open>char\<close> is a byte); \<open>len\<close> is \<open>length\<close>.  Runes are natural
  numbers, decoded with Go's rules: a byte that starts no valid sequence is one
  \<open>RuneError\<close> of width 1.  The case tables of Go's \<open>unicode\<close> package beyond ASCII are a
  parameter (\<open>ul\<close>, \<open>uf\<close>), so every theorem about case folding holds for any of them.
\<close>

abbreviation byte :: "char \<Rightarrow> nat" where
  "byte c \<equiv> of_char c"

abbreviation chr :: "nat \<Rightarrow> char" where
  "chr n \<equiv> char_of n"

subsection \<open>Prefixes, suffixes, splitting\<close>

fun has_prefix :: "string \<Rightarrow> string \<Rightarrow> bool" where
  "has_prefix s [] = True"
| "has_prefix [] (p # ps) = False"
| "has_prefix (c # s) (p # ps) = (c = p \<and> has_prefix s ps)"

definition has_suffix :: "string \<Rightarrow> string \<Rightarrow> bool" where
  "has_suffix s p = has_prefix (rev s) (rev p)"

fun contains :: "string \<Rightarrow> string \<Rightarrow> bool" where
  "contains [] p = (p = [])"
| "contains (c # s) p = (has_prefix (c # s) p \<or> contains s p)"

definition trim_suffix :: "string \<Rightarrow> string \<Rightarrow> string" where
  "trim_suffix s p = (if has_suffix s p then take (length s - length p) s else s)"

fun index_byte :: "string \<Rightarrow> char \<Rightarrow> nat option" where
  "index_byte [] b = None"
| "index_byte (c # s) b = (if c = b then Some 0 else map_option Suc (index_byte s b))"

text \<open>\<open>strings.Split\<close> and \<open>strings.SplitSeq\<close> with a one-byte separator.\<close>

fun split_on :: "char \<Rightarrow> string \<Rightarrow> string list" where
  "split_on sep [] = [[]]"
| "split_on sep (c # s) =
     (if c = sep then [] # split_on sep s
      else case split_on sep s of [] \<Rightarrow> [[c]] | x # xs \<Rightarrow> (c # x) # xs)"

text \<open>\<open>strings.SplitN(s, sep, 2)\<close> with a one-byte separator.\<close>

fun split2 :: "char \<Rightarrow> string \<Rightarrow> string \<times> string option" where
  "split2 sep [] = ([], None)"
| "split2 sep (c # s) =
     (if c = sep then ([], Some s) else (case split2 sep s of (a, b) \<Rightarrow> (c # a, b)))"

fun join :: "string \<Rightarrow> string list \<Rightarrow> string" where
  "join sep [] = []"
| "join sep [x] = x"
| "join sep (x # y # xs) = x @ sep @ join sep (y # xs)"

lemma has_prefix_iff: "has_prefix s p \<longleftrightarrow> (\<exists>r. s = p @ r)"
  by (induction s p rule: has_prefix.induct) auto

lemma has_prefix_append [simp]: "has_prefix (p @ s) p"
  by (auto simp: has_prefix_iff)

lemma has_suffix_iff: "has_suffix s p \<longleftrightarrow> (\<exists>r. s = r @ p)"
proof
  assume "has_suffix s p"
  then obtain r where "rev s = rev p @ r" by (auto simp: has_suffix_def has_prefix_iff)
  then have "s = rev r @ p" by (metis rev_append rev_rev_ident)
  then show "\<exists>r. s = r @ p" by blast
next
  assume "\<exists>r. s = r @ p"
  then show "has_suffix s p" by (auto simp: has_suffix_def has_prefix_iff)
qed

lemma trim_suffix_append [simp]: "trim_suffix (s @ p) p = s"
  by (auto simp: trim_suffix_def has_suffix_iff)

lemma contains_prefix: "has_prefix s p \<Longrightarrow> contains s p"
  by (cases s) (auto simp: has_prefix_iff)

lemma contains_iff: "contains s p \<longleftrightarrow> (\<exists>a b. s = a @ p @ b)"
proof
  show "contains s p \<Longrightarrow> \<exists>a b. s = a @ p @ b"
  proof (induction s)
    case (Cons c s)
    show ?case
    proof (cases "has_prefix (c # s) p")
      case True
      then obtain r where "c # s = [] @ p @ r" by (auto simp: has_prefix_iff)
      then show ?thesis by blast
    next
      case False
      with Cons obtain a b where "c # s = (c # a) @ p @ b" by auto
      then show ?thesis by blast
    qed
  qed auto
next
  have "contains (a @ p @ b) p" for a b
    by (induction a) (auto intro: contains_prefix)
  then show "\<exists>a b. s = a @ p @ b \<Longrightarrow> contains s p" by blast
qed

lemma split_on_not_Nil [simp]: "split_on sep s \<noteq> []"
  by (cases s) (auto split: list.splits)

lemma join_split_on [simp]: "join [sep] (split_on sep s) = s"
proof (induction s)
  case (Cons c s)
  obtain x xs where xs: "split_on sep s = x # xs" by (cases "split_on sep s") auto
  with Cons show ?case by (cases xs) auto
qed simp

lemma split_on_pieces: "x \<in> set (split_on sep s) \<Longrightarrow> sep \<notin> set x"
proof (induction s arbitrary: x)
  case (Cons c s)
  obtain y ys where "split_on sep s = y # ys" by (cases "split_on sep s") auto
  with Cons show ?case by (auto split: if_splits)
qed simp

lemma split_on_no_sep: "sep \<notin> set s \<Longrightarrow> split_on sep s = [s]"
  by (induction s) auto

lemma split_on_append_sep:
  "sep \<notin> set x \<Longrightarrow> split_on sep (x @ sep # s) = x # split_on sep s"
  by (induction x) auto

lemma split_on_join:
  "xs \<noteq> [] \<Longrightarrow> \<forall>x \<in> set xs. sep \<notin> set x \<Longrightarrow> split_on sep (join [sep] xs) = xs"
  by (induction "[sep]" xs rule: join.induct) (auto simp: split_on_no_sep split_on_append_sep)

lemma split2_no_sep: "sep \<notin> set s \<Longrightarrow> split2 sep s = (s, None)"
  by (induction s) auto

lemma split2_sep: "sep \<notin> set x \<Longrightarrow> split2 sep (x @ sep # s) = (x, Some s)"
  by (induction x) auto

lemma index_byte_Some: "index_byte s b = Some i \<Longrightarrow> i < length s \<and> s ! i = b \<and> b \<notin> set (take i s)"
  by (induction s arbitrary: i) (auto split: if_splits)

lemma index_byte_None: "index_byte s b = None \<longleftrightarrow> b \<notin> set s"
  by (induction s) auto

end
