(* ===== verification/Utf8.thy ===== *)
theory Utf8
  imports Go_Strings
begin

text \<open>
  Runes: Go's UTF-8 decoder (\<open>utf8.DecodeRuneInString\<close> with its table of accepted second
  bytes), \<open>utf8.RuneCountInString\<close>, \<open>utf8.EncodeRune\<close>, and the functions of \<open>strings\<close> that
  work on runes: \<open>TrimSpace\<close>, \<open>ToLower\<close>, \<open>ToUpper\<close>, \<open>EqualFold\<close>.
\<close>

text \<open>Evaluates \<open>chr\<close> of a numeral to a character literal.\<close>

lemmas chr_eval = char_of_def bit_0

definition rune_error :: nat where
  "rune_error = 65533"

text \<open>The range of the second byte for each first byte, and the length of the sequence.\<close>

definition lead :: "nat \<Rightarrow> (nat \<times> nat \<times> nat) option" where
  "lead b =
     (if 194 \<le> b \<and> b \<le> 223 then Some (2, 128, 191)
      else if b = 224 then Some (3, 160, 191)
      else if 225 \<le> b \<and> b \<le> 236 then Some (3, 128, 191)
      else if b = 237 then Some (3, 128, 159)
      else if 238 \<le> b \<and> b \<le> 239 then Some (3, 128, 191)
      else if b = 240 then Some (4, 144, 191)
      else if 241 \<le> b \<and> b \<le> 243 then Some (4, 128, 191)
      else if b = 244 then Some (4, 128, 143)
      else None)"

definition cont :: "nat \<Rightarrow> bool" where
  "cont b \<longleftrightarrow> 128 \<le> b \<and> b \<le> 191"

fun decode_rune :: "string \<Rightarrow> nat \<times> nat" where
  "decode_rune [] = (rune_error, 0)"
| "decode_rune (c0 # s) =
     (let b0 = byte c0 in
      if b0 < 128 then (b0, 1)
      else case lead b0 of
        None \<Rightarrow> (rune_error, 1)
      | Some (n, lo, hi) \<Rightarrow>
          (case s of
             [] \<Rightarrow> (rune_error, 1)
           | c1 # s1 \<Rightarrow>
               if byte c1 < lo \<or> hi < byte c1 then (rune_error, 1)
               else if n = 2 then ((b0 - 192) * 64 + (byte c1 - 128), 2)
               else case s1 of
                 [] \<Rightarrow> (rune_error, 1)
               | c2 # s2 \<Rightarrow>
                   if \<not> cont (byte c2) then (rune_error, 1)
                   else if n = 3
                     then ((b0 - 224) * 4096 + (byte c1 - 128) * 64 + (byte c2 - 128), 3)
                   else case s2 of
                     [] \<Rightarrow> (rune_error, 1)
                   | c3 # s3 \<Rightarrow>
                       if \<not> cont (byte c3) then (rune_error, 1)
                       else ((b0 - 240) * 262144 + (byte c1 - 128) * 4096
                             + (byte c2 - 128) * 64 + (byte c3 - 128), 4)))"

lemma decode_rune_width: "s \<noteq> [] \<Longrightarrow> 1 \<le> snd (decode_rune s) \<and> snd (decode_rune s) \<le> 4
  \<and> snd (decode_rune s) \<le> length s"
  by (cases s) (auto simp: Let_def split: option.splits list.splits prod.splits)

text \<open>The loop of \<open>for _, r := range s\<close> and of \<open>RuneCountInString\<close>.\<close>

function runes :: "string \<Rightarrow> nat list" where
  "runes [] = []"
| "runes (c # s) =
     (case decode_rune (c # s) of (r, n) \<Rightarrow> r # runes (drop n (c # s)))"
  by pat_completeness auto
termination
proof (relation "measure length")
  fix c :: char and s r n
  assume "(r, n) = decode_rune (c # s)"
  then have "1 \<le> n" using decode_rune_width[of "c # s"] by (metis list.distinct(1) snd_conv)
  then show "(drop n (c # s), c # s) \<in> measure length" by (cases n) auto
qed simp

declare runes.simps(2) [simp del]

definition rune_count :: "string \<Rightarrow> nat" where
  "rune_count s = length (runes s)"

definition ascii :: "string \<Rightarrow> bool" where
  "ascii s \<longleftrightarrow> (\<forall>c \<in> set s. byte c < 128)"

lemma runes_ascii_Cons: "byte c < 128 \<Longrightarrow> runes (c # s) = byte c # runes s"
  by (subst runes.simps) simp

lemma runes_ascii: "ascii s \<Longrightarrow> runes s = map byte s"
  by (induction s) (auto simp: ascii_def runes_ascii_Cons)

text \<open>Every rune takes one to four bytes, so the count bounds the length both ways.\<close>

lemma rune_count_bounds: "rune_count s \<le> length s \<and> length s \<le> 4 * rune_count s"
  unfolding rune_count_def
proof (induction s rule: runes.induct)
  case (2 c s)
  obtain r n where rn: "decode_rune (c # s) = (r, n)" by force
  then have n: "1 \<le> n" "n \<le> 4" "n \<le> length (c # s)" using decode_rune_width[of "c # s"] by auto
  have IH: "length (runes (drop n (c # s))) \<le> length (drop n (c # s)) \<and>
        length (drop n (c # s)) \<le> 4 * length (runes (drop n (c # s)))"
    using "2.IH"[OF rn[symmetric]] .
  have "runes (c # s) = r # runes (drop n (c # s))" by (simp add: runes.simps rn del: decode_rune.simps)
  with IH n show ?case by (simp del: drop_Suc_Cons) linarith
qed simp

lemma rune_count_ascii: "ascii s \<Longrightarrow> rune_count s = length s"
  by (simp add: rune_count_def runes_ascii)

lemma rune_count_Nil [simp]: "rune_count [] = 0"
  by (simp add: rune_count_def)

subsection \<open>Encoding\<close>

definition valid_rune :: "nat \<Rightarrow> bool" where
  "valid_rune r \<longleftrightarrow> r < 55296 \<or> (57344 \<le> r \<and> r \<le> 1114111)"

definition encode_rune :: "nat \<Rightarrow> string" where
  "encode_rune r0 =
     (let r = (if valid_rune r0 then r0 else rune_error) in
      if r < 128 then [chr r]
      else if r < 2048 then [chr (192 + r div 64), chr (128 + r mod 64)]
      else if r < 65536
        then [chr (224 + r div 4096), chr (128 + r div 64 mod 64), chr (128 + r mod 64)]
      else [chr (240 + r div 262144), chr (128 + r div 4096 mod 64),
            chr (128 + r div 64 mod 64), chr (128 + r mod 64)])"

text \<open>The base-64 digits of a number: the payload bits of a continuation byte.\<close>

lemma digits64:
  fixes r :: nat
  obtains a b c d where "c = r mod 64" "c < 64" "b = r div 64 mod 64" "b < 64"
    "a = r div 4096 mod 64" "a < 64" "d = r div 262144"
    "r div 4096 = d * 64 + a" "r div 64 = (d * 64 + a) * 64 + b"
    "r = ((d * 64 + a) * 64 + b) * 64 + c"
proof -
  have q: "r div 4096 = r div 64 div 64" "r div 262144 = r div 64 div 64 div 64"
    by (simp_all add: div_mult2_eq[symmetric])
  show ?thesis
    by (rule that[OF refl _ refl _ refl _ refl]) (simp_all add: q)
qed

lemma decode_encode:
  assumes "valid_rune r"
  shows "decode_rune (encode_rune r @ s) = (r, length (encode_rune r))"
proof -
  obtain a b c d where dig: "c = r mod 64" "c < 64" "b = r div 64 mod 64" "b < 64"
    "a = r div 4096 mod 64" "a < 64" "d = r div 262144"
    "r div 4096 = d * 64 + a" "r div 64 = (d * 64 + a) * 64 + b"
    "r = ((d * 64 + a) * 64 + b) * 64 + c" by (rule digits64)
  have flat: "d * 262144 + a * 4096 + b * 64 + c = r" using dig(10) by simp
  have range: "r < 55296 \<or> 57344 \<le> r" "r \<le> 1114111" using assms by (auto simp: valid_rune_def)
  consider (1) "r < 128" | (2) "128 \<le> r" "r < 2048" | (3) "2048 \<le> r" "r < 65536"
    | (4) "65536 \<le> r" by linarith
  then show ?thesis
  proof cases
    case 1
    then show ?thesis using assms by (simp add: encode_rune_def)
  next
    case 2
    then have "d = 0" using flat by linarith
    moreover have "a = 0" using 2 flat by linarith
    ultimately have z: "d = 0" "a = 0" and r: "b * 64 + c = r" using flat by simp_all
    then have b: "2 \<le> b \<and> b < 32" using 2 dig(2) by (intro conjI; linarith)
    have e: "encode_rune r = [chr (192 + b), chr (128 + c)]"
      using 2 assms z dig(9) by (simp add: encode_rune_def flip: dig(1))
    show ?thesis unfolding e using dig(2) b r by (simp add: lead_def Let_def)
  next
    case 3
    then have "d = 0" using flat by linarith
    then have z: "d = 0" and r: "a * 4096 + b * 64 + c = r" using flat by simp_all
    then have b: "a < 16 \<and> (a = 0 \<longrightarrow> 32 \<le> b) \<and> (a = 13 \<longrightarrow> b < 32)"
      using 3 dig(2,4) range(1) by (intro conjI impI; linarith)
    have e: "encode_rune r = [chr (224 + a), chr (128 + b), chr (128 + c)]"
      using 3 assms z dig(8) by (simp add: encode_rune_def flip: dig(1,3))
    show ?thesis unfolding e using dig(2,4) b r by (simp add: lead_def cont_def Let_def) linarith
  next
    case 4
    then have b: "d \<le> 4 \<and> (d = 0 \<longrightarrow> 16 \<le> a) \<and> (d = 4 \<longrightarrow> a < 16)"
      using 4 flat dig(2,4,6) range by (intro conjI impI; linarith)
    have e: "encode_rune r = [chr (240 + d), chr (128 + a), chr (128 + b), chr (128 + c)]"
      using 4 assms by (simp add: encode_rune_def flip: dig(1,3,5,7))
    show ?thesis unfolding e using dig(2,4,6) b flat by (simp add: lead_def cont_def Let_def) linarith
  qed
qed

lemma encode_rune_not_Nil [simp]: "encode_rune r \<noteq> []"
  by (simp add: encode_rune_def Let_def)

text \<open>Encoding runes and reading them back gives the runes.\<close>

lemma runes_encode_append: "valid_rune r \<Longrightarrow> runes (encode_rune r @ s) = r # runes s"
proof -
  assume v: "valid_rune r"
  obtain c t where ct: "encode_rune r @ s = c # t" by (cases "encode_rune r") auto
  have "runes (c # t) = r # runes (drop (length (encode_rune r)) (c # t))"
    using decode_encode[OF v, of s] ct by (simp add: runes.simps del: decode_rune.simps)
  then show ?thesis by (simp flip: ct)
qed

lemma runes_encode: "\<forall>r \<in> set rs. valid_rune r \<Longrightarrow> runes (concat (map encode_rune rs)) = rs"
  by (induction rs) (auto simp: runes_encode_append)

lemma encode_ascii: "byte c < 128 \<Longrightarrow> encode_rune (byte c) = [c]"
  by (simp add: encode_rune_def valid_rune_def)

subsection \<open>Case mapping\<close>

definition ascii_lower :: "nat \<Rightarrow> nat" where
  "ascii_lower r = (if 65 \<le> r \<and> r \<le> 90 then r + 32 else r)"

definition ascii_upper :: "nat \<Rightarrow> nat" where
  "ascii_upper r = (if 97 \<le> r \<and> r \<le> 122 then r - 32 else r)"

definition lower_rune :: "(nat \<Rightarrow> nat) \<Rightarrow> nat \<Rightarrow> nat" where
  "lower_rune ul r = (if r < 128 then ascii_lower r else ul r)"

definition upper_rune :: "(nat \<Rightarrow> nat) \<Rightarrow> nat \<Rightarrow> nat" where
  "upper_rune uu r = (if r < 128 then ascii_upper r else uu r)"

text \<open>
  \<open>strings.ToLower\<close>: the ASCII fast path, otherwise \<open>strings.Map(unicode.ToLower, s)\<close>, which
  also replaces each invalid byte by the encoding of \<open>RuneError\<close>.
\<close>

definition to_lower :: "(nat \<Rightarrow> nat) \<Rightarrow> string \<Rightarrow> string" where
  "to_lower ul s =
     (if ascii s then map (\<lambda>c. chr (ascii_lower (byte c))) s
      else concat (map (\<lambda>r. encode_rune (lower_rune ul r)) (runes s)))"

definition to_upper :: "(nat \<Rightarrow> nat) \<Rightarrow> string \<Rightarrow> string" where
  "to_upper uu s =
     (if ascii s then map (\<lambda>c. chr (ascii_upper (byte c))) s
      else concat (map (\<lambda>r. encode_rune (upper_rune uu r)) (runes s)))"

text \<open>\<open>strings.EqualFold\<close>: \<open>uf\<close> picks the representative of a rune's folding orbit.\<close>

definition equal_fold :: "(nat \<Rightarrow> nat) \<Rightarrow> string \<Rightarrow> string \<Rightarrow> bool" where
  "equal_fold uf s t \<longleftrightarrow> map (lower_rune uf) (runes s) = map (lower_rune uf) (runes t)"

lemma ascii_lower_idem [simp]: "ascii_lower (ascii_lower r) = ascii_lower r"
  by (simp add: ascii_lower_def)

lemma ascii_lower_bound: "r < 128 \<Longrightarrow> ascii_lower r < 128"
  by (simp add: ascii_lower_def)

lemma ascii_to_lower: "ascii s \<Longrightarrow> ascii (to_lower ul s)"
  by (auto simp: to_lower_def ascii_def ascii_lower_def)

lemma to_lower_idem_ascii: "ascii s \<Longrightarrow> to_lower ul (to_lower ul s) = to_lower ul s"
  using ascii_to_lower[of s ul] by (auto simp: to_lower_def ascii_def ascii_lower_def)

lemma equal_fold_refl [simp]: "equal_fold uf s s"
  by (simp add: equal_fold_def)

lemma equal_fold_ascii:
  "ascii s \<Longrightarrow> ascii t \<Longrightarrow> equal_fold uf s t \<longleftrightarrow> to_lower ul s = to_lower ul t"
proof -
  assume a: "ascii s" "ascii t"
  have inj: "chr x = chr y \<longleftrightarrow> x = y" if "x < 128" "y < 128" for x y :: nat
    using that by (simp add: char_of_eq_iff take_bit_nat_eq_self)
  have "map (lower_rune uf) (map byte s) = map (lower_rune uf) (map byte t) \<longleftrightarrow>
        map (\<lambda>c. chr (ascii_lower (byte c))) s = map (\<lambda>c. chr (ascii_lower (byte c))) t"
    using a
  proof (induction s arbitrary: t)
    case (Cons c s)
    show ?case
    proof (cases t)
      case (Cons d u)
      with Cons.prems have "byte c < (128::nat)" "byte d < (128::nat)" by (auto simp: ascii_def)
      moreover have "ascii s" "ascii u" using Cons.prems Cons by (auto simp: ascii_def)
      ultimately show ?thesis
        using Cons Cons.IH[of u] inj[OF ascii_lower_bound ascii_lower_bound]
        by (auto simp: lower_rune_def)
    qed simp
  qed auto
  with a show ?thesis by (simp add: equal_fold_def to_lower_def runes_ascii)
qed

subsection \<open>Trimming white space\<close>

text \<open>
  The encodings of the runes for which \<open>unicode.IsSpace\<close> holds.  A string's first (last) rune
  is a space exactly when the string starts (ends) with one of them.
\<close>

definition space_runes :: "nat list" where
  "space_runes = [9, 10, 11, 12, 13, 32, 133, 160, 5760, 8192, 8193, 8194, 8195, 8196, 8197,
     8198, 8199, 8200, 8201, 8202, 8232, 8233, 8239, 8287, 12288]"

definition space_seqs :: "string list" where
  "space_seqs = map encode_rune space_runes"

function trim_seqs :: "string list \<Rightarrow> string \<Rightarrow> string" where
  "trim_seqs ps s =
     (case find (\<lambda>p. p \<noteq> [] \<and> has_prefix s p) ps of
        None \<Rightarrow> s
      | Some p \<Rightarrow> trim_seqs ps (drop (length p) s))"
  by pat_completeness auto
termination
proof (relation "measure (\<lambda>(ps, s). length s)")
  fix ps :: "string list" and s p
  assume "find (\<lambda>p. p \<noteq> [] \<and> has_prefix s p) ps = Some p"
  then have "p \<noteq> []" "has_prefix s p" by (auto simp: find_Some_iff)
  then show "((ps, drop (length p) s), (ps, s)) \<in> measure (\<lambda>(ps, s). length s)"
    by (auto simp: has_prefix_iff)
qed simp

declare trim_seqs.simps [simp del]

definition trim_space :: "string \<Rightarrow> string" where
  "trim_space s = rev (trim_seqs (map rev space_seqs) (rev (trim_seqs space_seqs s)))"

definition no_prefix :: "string list \<Rightarrow> string \<Rightarrow> bool" where
  "no_prefix ps s \<longleftrightarrow> (\<forall>p \<in> set ps. p \<noteq> [] \<longrightarrow> \<not> has_prefix s p)"

lemma trim_seqs_id: "no_prefix ps s \<Longrightarrow> trim_seqs ps s = s"
  by (subst trim_seqs.simps) (auto simp: no_prefix_def find_Some_iff split: option.split)

lemma trim_seqs_no_prefix: "no_prefix ps (trim_seqs ps s)"
proof (induction ps s rule: trim_seqs.induct)
  case (1 ps s)
  show ?case
    using "1.IH" by (subst trim_seqs.simps)
      (auto simp: no_prefix_def find_None_iff split: option.split)
qed

lemma trim_seqs_suffix: "\<exists>r. s = r @ trim_seqs ps s"
proof (induction ps s rule: trim_seqs.induct)
  case (1 ps s)
  show ?case
  proof (cases "find (\<lambda>p. p \<noteq> [] \<and> has_prefix s p) ps")
    case (Some p)
    then have "has_prefix s p" by (auto simp: find_Some_iff)
    then obtain t where t: "s = p @ t" by (auto simp: has_prefix_iff)
    obtain r where "drop (length p) s = r @ trim_seqs ps (drop (length p) s)"
      using "1.IH"[OF Some] by blast
    then show ?thesis
      using Some t by (subst trim_seqs.simps) (auto intro!: exI[of _ "p @ r"])
  qed (subst trim_seqs.simps, simp)
qed

lemma no_prefix_prefix: "no_prefix ps (a @ b) \<Longrightarrow> no_prefix ps a"
  by (auto simp: no_prefix_def has_prefix_iff)

lemma trim_space_infix: "\<exists>a b. s = a @ trim_space s @ b"
proof -
  obtain a where a: "s = a @ trim_seqs space_seqs s" using trim_seqs_suffix by blast
  obtain b where "rev (trim_seqs space_seqs s) =
      b @ trim_seqs (map rev space_seqs) (rev (trim_seqs space_seqs s))"
    using trim_seqs_suffix by blast
  then have "trim_seqs space_seqs s = trim_space s @ rev b"
    unfolding trim_space_def by (metis rev_append rev_rev_ident)
  with a show ?thesis by metis
qed

text \<open>The result neither starts nor ends with white space, so trimming again changes nothing.\<close>

lemma trim_space_trimmed:
  "no_prefix space_seqs (trim_space s) \<and> no_prefix (map rev space_seqs) (rev (trim_space s))"
proof -
  obtain b where "rev (trim_seqs space_seqs s) = b @ rev (trim_space s)"
    using trim_seqs_suffix unfolding trim_space_def by fastforce
  then have "trim_seqs space_seqs s = trim_space s @ rev b"
    by (metis rev_append rev_rev_ident)
  then have "no_prefix space_seqs (trim_space s)"
    using trim_seqs_no_prefix no_prefix_prefix by metis
  then show ?thesis by (simp add: trim_space_def trim_seqs_no_prefix)
qed

lemma trim_space_idem [simp]: "trim_space (trim_space s) = trim_space s"
proof -
  have "trim_seqs space_seqs (trim_space s) = trim_space s"
    using trim_space_trimmed trim_seqs_id by blast
  moreover have "trim_seqs (map rev space_seqs) (rev (trim_space s)) = rev (trim_space s)"
    using trim_space_trimmed trim_seqs_id by blast
  ultimately show ?thesis by (simp add: trim_space_def[of "trim_space s"])
qed

text \<open>A text whose first and last bytes are visible ASCII has nothing to trim.\<close>

definition visible :: "char \<Rightarrow> bool" where
  "visible c \<longleftrightarrow> 33 \<le> byte c \<and> byte c \<le> 126"

lemma space_seqs_visible:
  "\<forall>p \<in> set space_seqs. p \<noteq> [] \<and> \<not> visible (hd p) \<and> \<not> visible (last p)"
  by (simp add: space_seqs_def space_runes_def encode_rune_def valid_rune_def visible_def)

lemma trim_space_visible:
  assumes "s = [] \<or> (visible (hd s) \<and> visible (last s))"
  shows "trim_space s = s"
proof -
  have "no_prefix space_seqs s"
    unfolding no_prefix_def
  proof (intro ballI impI notI)
    fix p assume p: "p \<in> set space_seqs" and "has_prefix s p"
    then obtain r where s: "s = p @ r" by (auto simp: has_prefix_iff)
    have "p \<noteq> []" "\<not> visible (hd p)" using p space_seqs_visible by blast+
    then have "s \<noteq> []" "\<not> visible (hd s)" by (simp_all add: s)
    with assms show False by blast
  qed
  moreover have "no_prefix (map rev space_seqs) (rev s)"
    unfolding no_prefix_def
  proof (intro ballI impI notI)
    fix p assume "p \<in> set (map rev space_seqs)" and "has_prefix (rev s) p"
    then obtain q r where q: "q \<in> set space_seqs" "rev s = rev q @ r" by (auto simp: has_prefix_iff)
    then have s: "s = rev r @ q" by (metis rev_append rev_rev_ident)
    have "q \<noteq> []" "\<not> visible (last q)" using q(1) space_seqs_visible by blast+
    then have "s \<noteq> []" "\<not> visible (last s)" by (simp_all add: s)
    with assms show False by blast
  qed
  ultimately show ?thesis by (simp add: trim_space_def trim_seqs_id)
qed

end
