(* ===== verification/Go_Errors.thy ===== *)
theory Go_Errors
  imports Go_Strings
begin

text \<open>
  Go errors as values.  A \<open>sentinel\<close> is one of the program's package-level \<open>errors.New\<close>
  variables; \<open>Wrap pre e post\<close> is \<open>fmt.Errorf(pre + "%w" + post, e)\<close>; \<open>HTTPError\<close> is echo's
  error with a status (and the error it wraps); \<open>PgError\<close> is a Postgres error with its
  SQLSTATE and constraint; \<open>External\<close> is any other error of code outside the repository;
  \<open>UserError\<close> is an error whose type implements \<open>UserMessager\<close>.  \<open>errors_is\<close> and
  \<open>errors_as_pg\<close> walk the chain as \<open>errors.Is\<close> and \<open>errors.As\<close> do.
\<close>

datatype sentinel =
    ErrNotFound | ErrTooManyRows | ErrIncorrectMutation | ErrMutationScope
  | ErrEmailRequired | ErrPasswordRequired | ErrPasswordTooShort | ErrPasswordTooLong
  | ErrInvalidCredentials | ErrEmailTaken | ErrResetTokenInvalid
  | ErrBadAppEnv | ErrAppURLRequired | ErrMailFromRequired
  | ErrUnknownLevel | ErrMissingRole | ErrNotConfigured | ErrJobPanic | ErrUsage

definition em_dash :: string where
  "em_dash = [CHR 0xE2, CHR 0x80, CHR 0x94]"

fun sentinel_text :: "sentinel \<Rightarrow> string" where
  "sentinel_text ErrNotFound = ''not found''"
| "sentinel_text ErrTooManyRows = ''more than one row matched''"
| "sentinel_text ErrIncorrectMutation = ''incorrect mutation''"
| "sentinel_text ErrMutationScope = ''incorrect number of rows mutated''"
| "sentinel_text ErrEmailRequired = ''auth: email is required''"
| "sentinel_text ErrPasswordRequired = ''auth: password is required''"
| "sentinel_text ErrPasswordTooShort = ''auth: password is shorter than the minimum length''"
| "sentinel_text ErrPasswordTooLong = ''auth: password is longer than the maximum length''"
| "sentinel_text ErrInvalidCredentials = ''auth: invalid credentials''"
| "sentinel_text ErrEmailTaken = ''auth: email already in use''"
| "sentinel_text ErrResetTokenInvalid = ''auth: reset token invalid''"
| "sentinel_text ErrBadAppEnv = ''APP_ENV must be development, test, or production''"
| "sentinel_text ErrAppURLRequired =
     ''APP_URL is required in production (emailed links use it as their origin)''"
| "sentinel_text ErrMailFromRequired =
     ''MAIL_FROM is required in production (the SES sender address)''"
| "sentinel_text ErrUnknownLevel = ''unknown log level''"
| "sentinel_text ErrMissingRole = ''missing role''"
| "sentinel_text ErrNotConfigured =
     ''flows: Send before Configure '' @ em_dash @ '' call flows.Configure at boot''"
| "sentinel_text ErrJobPanic = ''job panic''"
| "sentinel_text ErrUsage =
     ''usage: migrate <up|up-by-one|down|redo|reset|status|version> | migrate create <name>''"

datatype gerr =
    Sentinel sentinel
  | PgError string string
  | External string
  | UserError string
  | HTTPError nat string "gerr option"
  | Wrap string gerr string

fun err_text :: "gerr \<Rightarrow> string" where
  "err_text (Sentinel s) = sentinel_text s"
| "err_text (PgError code constraint) = ''ERROR: '' @ constraint @ '' (SQLSTATE '' @ code @ '')''"
| "err_text (External m) = m"
| "err_text (UserError m) = m"
| "err_text (HTTPError status m cause) = m"
| "err_text (Wrap pre e post) = pre @ err_text e @ post"

fun errors_is :: "gerr \<Rightarrow> sentinel \<Rightarrow> bool" where
  "errors_is (Sentinel s) t = (s = t)"
| "errors_is (PgError code constraint) t = False"
| "errors_is (External m) t = False"
| "errors_is (UserError m) t = False"
| "errors_is (HTTPError status m cause) t =
     (case cause of None \<Rightarrow> False | Some e \<Rightarrow> errors_is e t)"
| "errors_is (Wrap pre e post) t = errors_is e t"

fun errors_as_pg :: "gerr \<Rightarrow> (string \<times> string) option" where
  "errors_as_pg (PgError code constraint) = Some (code, constraint)"
| "errors_as_pg (HTTPError status m cause) =
     (case cause of None \<Rightarrow> None | Some e \<Rightarrow> errors_as_pg e)"
| "errors_as_pg (Wrap pre e post) = errors_as_pg e"
| "errors_as_pg e = None"

fun errors_as_user :: "gerr \<Rightarrow> string option" where
  "errors_as_user (UserError m) = Some m"
| "errors_as_user (HTTPError status m cause) =
     (case cause of None \<Rightarrow> None | Some e \<Rightarrow> errors_as_user e)"
| "errors_as_user (Wrap pre e post) = errors_as_user e"
| "errors_as_user e = None"

text \<open>\<open>echo.StatusCode\<close>: the status of the first error in the chain that has one, or 0.\<close>

fun status_code :: "gerr \<Rightarrow> nat" where
  "status_code (HTTPError status m cause) = status"
| "status_code (Wrap pre e post) = status_code e"
| "status_code e = 0"

text \<open>\<open>fmt.Errorf("msg: %w", err)\<close>.\<close>

definition errorf :: "string \<Rightarrow> gerr \<Rightarrow> gerr" where
  "errorf pre e = Wrap pre e []"

lemma errors_is_errorf [simp]: "errors_is (errorf pre e) t = errors_is e t"
  by (simp add: errorf_def)

lemma errors_as_pg_errorf [simp]: "errors_as_pg (errorf pre e) = errors_as_pg e"
  by (simp add: errorf_def)

lemma errors_as_user_errorf [simp]: "errors_as_user (errorf pre e) = errors_as_user e"
  by (simp add: errorf_def)

lemma status_code_errorf [simp]: "status_code (errorf pre e) = status_code e"
  by (simp add: errorf_def)

text \<open>A chain ends in at most one sentinel, so the code's \<open>errors.Is\<close> tests exclude each other.\<close>

lemma errors_is_unique: "errors_is e s \<Longrightarrow> errors_is e t \<Longrightarrow> s = t"
proof (induction e)
  case (HTTPError status m cause)
  then show ?case by (cases cause) auto
qed auto

end
