(* ===== verification/Env_Config.thy ===== *)
theory Env_Config
  imports Go_Errors
begin

text \<open>
  \<open>env/env.go\<close>: the process configuration.  The environment is a function from names to values
  (\<open>os.Getenv\<close> gives the empty string for an unset name); \<open>quote\<close> is \<open>strconv.Quote\<close>, which
  only shapes the text of one error.
\<close>

type_synonym getenv = "string \<Rightarrow> string"

definition Development :: string where "Development = ''development''"
definition Test :: string where "Test = ''test''"
definition Production :: string where "Production = ''production''"

lemmas app_env_defs = Development_def Test_def Production_def

record env =
  AppEnv :: string
  Port :: string
  PublicDir :: string
  BaseURL :: string
  MailFrom :: string

definition env_dev :: "env \<Rightarrow> bool" where
  "env_dev e \<longleftrightarrow> AppEnv e = Development"

definition env_production :: "env \<Rightarrow> bool" where
  "env_production e \<longleftrightarrow> AppEnv e = Production"

definition getenv_or :: "getenv \<Rightarrow> string \<Rightarrow> string \<Rightarrow> string" where
  "getenv_or os key fallback = (if os key \<noteq> [] then os key else fallback)"

definition env_load :: "(string \<Rightarrow> string) \<Rightarrow> getenv \<Rightarrow> gerr + env" where
  "env_load quote os =
     (let appEnv = getenv_or os ''APP_ENV'' Development in
      if \<not> (appEnv = Development \<or> appEnv = Test \<or> appEnv = Production)
      then Inl (Wrap [] (Sentinel ErrBadAppEnv) ('': got '' @ quote appEnv))
      else
        let port = getenv_or os ''PORT'' ''8080'';
            baseURL = os ''APP_URL'' in
        if baseURL = [] \<and> appEnv = Production then Inl (Sentinel ErrAppURLRequired)
        else
          let baseURL = (if baseURL = [] then ''http://localhost:'' @ port else baseURL);
              mailFrom = os ''MAIL_FROM'' in
          if mailFrom = [] \<and> appEnv = Production then Inl (Sentinel ErrMailFromRequired)
          else Inr \<lparr>AppEnv = appEnv, Port = port,
                    PublicDir = getenv_or os ''PUBLIC_DIR'' ''public'',
                    BaseURL = baseURL, MailFrom = mailFrom\<rparr>)"

definition env_valid :: "env \<Rightarrow> bool" where
  "env_valid e \<longleftrightarrow>
     AppEnv e \<in> {Development, Test, Production} \<and>
     Port e \<noteq> [] \<and> PublicDir e \<noteq> [] \<and> BaseURL e \<noteq> [] \<and>
     (env_production e \<longrightarrow> MailFrom e \<noteq> [])"

lemma getenv_or_not_Nil: "fallback \<noteq> [] \<Longrightarrow> getenv_or os key fallback \<noteq> []"
  by (simp add: getenv_or_def)

text \<open>
  The configuration \<open>env.Load\<close> returns is usable: a known environment, no empty port,
  directory or base URL, and in production a sender address and the operator's own origin, so
  an emailed link never falls back to localhost there.
\<close>

theorem env_load_valid:
  assumes "env_load quote os = Inr e"
  shows "env_valid e \<and> (env_production e \<longrightarrow> BaseURL e = os ''APP_URL'')"
  using assms
  by (auto simp: env_load_def env_valid_def env_production_def Let_def getenv_or_not_Nil
      app_env_defs split: if_splits)

definition prod_environ :: getenv where
  "prod_environ = (\<lambda>k. if k = ''APP_ENV'' then ''production''
     else if k = ''APP_URL'' then ''https://x.org''
     else if k = ''MAIL_FROM'' then ''a@x.org'' else [])"

lemma env_load_prod_environ:
  "env_load id prod_environ = Inr \<lparr>AppEnv = ''production'', Port = ''8080'',
     PublicDir = ''public'', BaseURL = ''https://x.org'', MailFrom = ''a@x.org''\<rparr>"
  by (simp add: env_load_def getenv_or_def prod_environ_def app_env_defs)

theorem env_load_valid_witness:
  "\<exists>e. env_load id prod_environ = Inr e \<and> env_valid e \<and> BaseURL e = ''https://x.org''"
  using env_load_valid[OF env_load_prod_environ]
  by (auto simp: env_load_prod_environ)

text \<open>
  \<open>env.Load\<close> fails in exactly three cases, each with its own sentinel: an unknown
  \<open>APP_ENV\<close>, and in production a missing \<open>APP_URL\<close> or (with the URL there) a missing
  \<open>MAIL_FROM\<close>.
\<close>

theorem env_load_errors:
  "env_load quote os =
     (let a = getenv_or os ''APP_ENV'' Development in
      if a \<notin> {Development, Test, Production}
        then Inl (Wrap [] (Sentinel ErrBadAppEnv) ('': got '' @ quote a))
      else if a = Production \<and> os ''APP_URL'' = [] then Inl (Sentinel ErrAppURLRequired)
      else if a = Production \<and> os ''MAIL_FROM'' = [] then Inl (Sentinel ErrMailFromRequired)
      else Inr (projr (env_load quote os)))"
  by (auto simp: env_load_def Let_def)

text \<open>The port is not checked: any non-empty text is accepted.\<close>

lemma env_load_port_unchecked:
  "env_load quote (\<lambda>k. if k = ''PORT'' then ''not-a-port'' else []) =
     Inr \<lparr>AppEnv = Development, Port = ''not-a-port'', PublicDir = ''public'',
          BaseURL = ''http://localhost:not-a-port'', MailFrom = []\<rparr>"
  by (simp add: env_load_def getenv_or_def Let_def app_env_defs)

end
