(* ===== verification/Logging.thy ===== *)
theory Logging
  imports Utf8 Go_Errors
begin

text \<open>
  \<open>logging/config.go\<close> and \<open>logging/logger_manager.go\<close>: the settings language
  (\<open>MyTag:debug,MyOtherTag,-MyExcludedTag,_all\<close>) and the manager that keeps one handler per
  logger name.  \<open>uu\<close> is \<open>unicode.ToUpper\<close> beyond ASCII.  A Go map of level pointers is a
  partial map to \<open>level option\<close> (\<open>None\<close> for a nil pointer); the settings string is one field of
  the configuration, as in the code.
\<close>

datatype level = DebugLevel | InfoLevel | WarnLevel | ErrorLevel

record LoggingConfig =
  lc_value :: string
  defaultLevel :: level
  includeAll :: bool
  lc_include :: "string \<rightharpoonup> level option"
  lc_level :: "string \<rightharpoonup> level option"
  lc_exclude :: "string \<rightharpoonup> level option"

definition parse_log_level :: "(nat \<Rightarrow> nat) \<Rightarrow> string \<Rightarrow> gerr + level" where
  "parse_log_level uu s =
     (let l = to_upper uu s in
      if l = ''DEBUG'' then Inr DebugLevel
      else if l = ''INFO'' then Inr InfoLevel
      else if l = ''WARN'' then Inr WarnLevel
      else if l = ''ERROR'' then Inr ErrorLevel
      else Inl (Wrap [] (Sentinel ErrUnknownLevel) ('': '' @ l)))"

text \<open>One round of the loop over the comma-separated tags.\<close>

definition apply_tag :: "(nat \<Rightarrow> nat) \<Rightarrow> LoggingConfig \<Rightarrow> string \<Rightarrow> gerr + LoggingConfig" where
  "apply_tag uu c raw =
     (let tag = trim_space raw in
      case split2 (CHR '':'') tag of (tagName, part) \<Rightarrow>
      let all = (tagName = ''_all'') in
      bindS (case part of
               None \<Rightarrow> Inr (c, None)
             | Some p \<Rightarrow>
                 (case parse_log_level uu p of
                    Inl e \<Rightarrow> Inl (errorf (''error parsing log level for tag ('' @ tag @ ''): '') e)
                  | Inr l \<Rightarrow> Inr (if all then c\<lparr>defaultLevel := l\<rparr> else c, Some l)))
        (\<lambda>(c, lvl).
           if all then Inr (c\<lparr>includeAll := True\<rparr>)
           else if has_prefix tagName ''-''
             then Inr (c\<lparr>lc_exclude := (lc_exclude c)(drop 1 tagName \<mapsto> lvl)\<rparr>)
           else Inr (c\<lparr>lc_include := (lc_include c)(tagName \<mapsto> lvl)\<rparr>)))"

fun apply_tags :: "(nat \<Rightarrow> nat) \<Rightarrow> LoggingConfig \<Rightarrow> string list \<Rightarrow> gerr + LoggingConfig" where
  "apply_tags uu c [] = Inr c"
| "apply_tags uu c (t # ts) = bindS (apply_tag uu c t) (\<lambda>c'. apply_tags uu c' ts)"

definition new_config :: "(nat \<Rightarrow> nat) \<Rightarrow> string \<Rightarrow> string \<Rightarrow> gerr + LoggingConfig" where
  "new_config uu config default_level =
     bindS (parse_log_level uu (if default_level = [] then ''INFO'' else default_level))
       (\<lambda>dl. apply_tags uu
          \<lparr>lc_value = config, defaultLevel = dl, includeAll = False,
           lc_include = Map.empty, lc_level = Map.empty, lc_exclude = Map.empty\<rparr>
          (split_on (CHR '','') config))"

definition is_included :: "LoggingConfig \<Rightarrow> string \<Rightarrow> bool" where
  "is_included lc tag \<longleftrightarrow> lc_include lc tag \<noteq> None \<or> includeAll lc"

definition is_excluded :: "LoggingConfig \<Rightarrow> string \<Rightarrow> bool" where
  "is_excluded lc tag \<longleftrightarrow> lc_exclude lc tag \<noteq> None"

definition is_enabled :: "LoggingConfig \<Rightarrow> string \<Rightarrow> bool" where
  "is_enabled lc tag \<longleftrightarrow> is_included lc tag \<and> \<not> is_excluded lc tag"

definition get_level :: "LoggingConfig \<Rightarrow> string \<Rightarrow> level" where
  "get_level lc tag =
     (case lc_level lc tag of Some (Some l) \<Rightarrow> l | _ \<Rightarrow> defaultLevel lc)"

subsection \<open>What a settings string means\<close>

definition tag_name :: "string \<Rightarrow> string" where
  "tag_name raw = fst (split2 (CHR '':'') (trim_space raw))"

definition tag_names :: "string \<Rightarrow> string set" where
  "tag_names config = tag_name ` set (split_on (CHR '','') config)"

text \<open>The abstract reading: a name is on when it (or \<open>_all\<close>) is listed and it is not excluded.\<close>

definition enabled_spec :: "string set \<Rightarrow> string \<Rightarrow> bool" where
  "enabled_spec names tag \<longleftrightarrow>
     (''_all'' \<in> names \<or> (tag \<in> names \<and> tag \<noteq> ''_all'' \<and> \<not> has_prefix tag ''-''))
     \<and> ''-'' @ tag \<notin> names"

lemma apply_tag_cases:
  assumes "apply_tag uu c raw = Inr c'"
  obtains c0 lvl where "c0 = c \<or> (\<exists>l. c0 = c\<lparr>defaultLevel := l\<rparr>)"
    "c' = (if tag_name raw = ''_all'' then c0\<lparr>includeAll := True\<rparr>
       else if has_prefix (tag_name raw) ''-''
         then c0\<lparr>lc_exclude := (lc_exclude c0)(drop 1 (tag_name raw) \<mapsto> lvl)\<rparr>
       else c0\<lparr>lc_include := (lc_include c0)(tag_name raw \<mapsto> lvl)\<rparr>)"
proof -
  obtain n p where sp: "split2 (CHR '':'') (trim_space raw) = (n, p)" by force
  then have n: "tag_name raw = n" by (simp add: tag_name_def)
  define r where "r = (case p of
               None \<Rightarrow> Inr (c, None)
             | Some q \<Rightarrow>
                 (case parse_log_level uu q of
                    Inl e \<Rightarrow> Inl (errorf (''error parsing log level for tag ('' @ trim_space raw @ ''): '') e)
                  | Inr l \<Rightarrow> Inr (if n = ''_all'' then c\<lparr>defaultLevel := l\<rparr> else c, Some l)))"
  obtain c0 lvl where r: "r = Inr (c0, lvl)" and
    c': "c' = (if n = ''_all'' then c0\<lparr>includeAll := True\<rparr>
       else if has_prefix n ''-'' then c0\<lparr>lc_exclude := (lc_exclude c0)(drop 1 n \<mapsto> lvl)\<rparr>
       else c0\<lparr>lc_include := (lc_include c0)(n \<mapsto> lvl)\<rparr>)"
    using assms unfolding apply_tag_def Let_def sp prod.case r_def[symmetric]
    by (cases r) (auto split: if_split_asm)
  have "c0 = c \<or> (\<exists>l. c0 = c\<lparr>defaultLevel := l\<rparr>)"
    using r by (auto simp: r_def split: option.split_asm sum.split_asm if_split_asm)
  with that c' n show ?thesis by blast
qed

definition inc_names :: "string set \<Rightarrow> string set" where
  "inc_names N = {n \<in> N. n \<noteq> ''_all'' \<and> \<not> has_prefix n ''-''}"

definition exc_names :: "string set \<Rightarrow> string set" where
  "exc_names N = drop 1 ` {n \<in> N. n \<noteq> ''_all'' \<and> has_prefix n ''-''}"

lemma inc_names_Un [simp]: "inc_names (M \<union> N) = inc_names M \<union> inc_names N"
  by (auto simp: inc_names_def simp del: has_prefix.simps)

lemma exc_names_Un [simp]: "exc_names (M \<union> N) = exc_names M \<union> exc_names N"
  by (auto simp: exc_names_def simp del: has_prefix.simps)

lemma names_empty [simp]: "inc_names {} = {}" "exc_names {} = {}"
  by (simp_all add: inc_names_def exc_names_def)

lemma exc_names_eq: "exc_names N = {n. ''-'' @ n \<in> N}"
  by (auto simp: exc_names_def has_prefix_iff image_iff) force

lemma apply_tag_fields:
  assumes "apply_tag uu c raw = Inr c'"
  shows "lc_level c' = lc_level c \<and>
    (includeAll c' \<longleftrightarrow> includeAll c \<or> tag_name raw = ''_all'') \<and>
    dom (lc_include c') = dom (lc_include c) \<union> inc_names {tag_name raw} \<and>
    dom (lc_exclude c') = dom (lc_exclude c) \<union> exc_names {tag_name raw}"
  using assms
  by (elim apply_tag_cases) (force simp: inc_names_def exc_names_def simp del: has_prefix.simps)

lemma apply_tags_fields:
  assumes "apply_tags uu c ts = Inr c'"
  shows "lc_level c' = lc_level c \<and>
    (includeAll c' \<longleftrightarrow> includeAll c \<or> ''_all'' \<in> tag_name ` set ts) \<and>
    dom (lc_include c') = dom (lc_include c) \<union> inc_names (tag_name ` set ts) \<and>
    dom (lc_exclude c') = dom (lc_exclude c) \<union> exc_names (tag_name ` set ts)"
  using assms
proof (induction ts arbitrary: c)
  case (Cons t ts)
  then obtain c1 where c1: "apply_tag uu c t = Inr c1" "apply_tags uu c1 ts = Inr c'"
    by (auto simp: bindS_eq_Inr)
  have "tag_name ` set (t # ts) = {tag_name t} \<union> tag_name ` set ts" by simp
  with Cons.IH[OF c1(2)] apply_tag_fields[OF c1(1)] show ?case
    by (simp only: inc_names_Un exc_names_Un Un_assoc) auto
qed simp

lemma new_config_fields:
  assumes "new_config uu config d = Inr c"
  shows "lc_level c = Map.empty \<and>
    (includeAll c \<longleftrightarrow> ''_all'' \<in> tag_names config) \<and>
    dom (lc_include c) = inc_names (tag_names config) \<and>
    dom (lc_exclude c) = {n. ''-'' @ n \<in> tag_names config}"
proof -
  obtain dl where *: "apply_tags uu
          \<lparr>lc_value = config, defaultLevel = dl, includeAll = False,
           lc_include = Map.empty, lc_level = Map.empty, lc_exclude = Map.empty\<rparr>
          (split_on (CHR '','') config) = Inr c"
    using assms by (auto simp: new_config_def bindS_eq_Inr)
  from apply_tags_fields[OF *] show ?thesis by (simp add: tag_names_def exc_names_eq)
qed

text \<open>
  A parsed settings string enables exactly the loggers its tags say: a name is enabled when
  it or \<open>_all\<close> is listed and its \<open>-\<close> form is not, in whatever order the tags come.
\<close>

theorem new_config_enabled:
  assumes "new_config uu config d = Inr c"
  shows "is_enabled c tag \<longleftrightarrow> enabled_spec (tag_names config) tag"
  using new_config_fields[OF assms]
  by (auto simp: is_enabled_def is_included_def is_excluded_def enabled_spec_def inc_names_def
      simp flip: domIff simp del: has_prefix.simps)

definition sample_settings :: string where
  "sample_settings = ''web:debug,-db,_all''"

lemma sample_tags: "split_on (CHR '','') sample_settings = [''web:debug'', ''-db'', ''_all'']"
  by (simp add: sample_settings_def)

text \<open>
  The level of a single tag never takes effect: for every configuration that
  \<open>NewConfig\<close> returns, \<open>GetLevel\<close> gives the default level, whatever level the settings name for
  the tag.  (\<open>NewConfig\<close> stores the level in \<open>include\<close>, \<open>GetLevel\<close> reads the map \<open>level\<close>, which
  nothing writes.)
\<close>

theorem get_level_ignores_tag_level:
  assumes "new_config uu config d = Inr c"
  shows "get_level c tag = defaultLevel c"
  using new_config_fields[OF assms] by (simp add: get_level_def)

text \<open>The sample settings, evaluated: \<open>web\<close>'s level is recorded and not used.\<close>

lemma sample_trims:
  "trim_space ''web:debug'' = ''web:debug''" "trim_space ''-db'' = ''-db''"
  "trim_space ''_all'' = ''_all''"
  by (simp_all add: trim_space_visible visible_def)

lemma sample_uppers: "to_upper id ''debug'' = ''DEBUG''" "to_upper id ''INFO'' = ''INFO''"
  by (simp_all add: to_upper_def ascii_def ascii_upper_def chr_eval)

lemma sample_config:
  "new_config id sample_settings [] = Inr \<lparr>lc_value = sample_settings, defaultLevel = InfoLevel,
     includeAll = True, lc_include = [''web'' \<mapsto> Some DebugLevel], lc_level = Map.empty,
     lc_exclude = [''db'' \<mapsto> None]\<rparr>"
  by (simp add: new_config_def sample_tags apply_tag_def sample_trims sample_uppers parse_log_level_def Let_def)

theorem new_config_enabled_witness:
  "\<exists>c. new_config id sample_settings [] = Inr c \<and> is_enabled c ''jobs'' \<and> \<not> is_enabled c ''db''"
  using new_config_enabled[OF sample_config, of "''jobs''"]
    new_config_enabled[OF sample_config, of "''db''"]
  by (simp add: sample_config enabled_spec_def tag_names_def sample_tags tag_name_def sample_trims)

theorem get_level_ignores_tag_level_witness:
  "\<exists>c. new_config id sample_settings [] = Inr c \<and>
     lc_include c ''web'' = Some (Some DebugLevel) \<and> get_level c ''web'' = InfoLevel"
  using get_level_ignores_tag_level[OF sample_config, of "''web''"] by (simp add: sample_config)

subsection \<open>The manager\<close>

datatype device = Stderr | Discard

record handler =
  h_output :: device
  h_level :: level

record Manager =
  config :: LoggingConfig
  loggers :: "string set"
  handlers :: "string \<rightharpoonup> handler"

definition manager_device :: "LoggingConfig \<Rightarrow> string \<Rightarrow> device" where
  "manager_device c name = (if is_enabled c name then Stderr else Discard)"

definition manager_configure :: "(nat \<Rightarrow> nat) \<Rightarrow> string \<Rightarrow> string \<Rightarrow> (Manager, gerr, unit) act" where
  "manager_configure uu settings default_level = (\<lambda>lm.
     case new_config uu settings default_level of
       Inl e \<Rightarrow> (Inl e, lm)
     | Inr c \<Rightarrow> (Inr (), lm\<lparr>config := c,
         handlers := (\<lambda>name. map_option
           (\<lambda>h. h\<lparr>h_output := manager_device c name, h_level := get_level c name\<rparr>)
           (handlers lm name))\<rparr>))"

text \<open>\<open>Manager.Logger\<close> returns the handler behind the logger it hands out.\<close>

definition manager_logger :: "string \<Rightarrow> Manager \<Rightarrow> handler option \<times> Manager" where
  "manager_logger name lm =
     (if name \<in> loggers lm then (handlers lm name, lm)
      else let h = \<lparr>h_output = manager_device (config lm) name,
                    h_level = get_level (config lm) name\<rparr> in
        (Some h, lm\<lparr>loggers := insert name (loggers lm),
                    handlers := (handlers lm)(name \<mapsto> h)\<rparr>))"

definition new_manager :: "(nat \<Rightarrow> nat) \<Rightarrow> string \<Rightarrow> string \<Rightarrow> gerr + Manager" where
  "new_manager uu settings default_level =
     bindS (new_config uu settings default_level)
       (\<lambda>c. Inr \<lparr>config = c, loggers = {}, handlers = Map.empty\<rparr>)"

definition handler_for :: "LoggingConfig \<Rightarrow> string \<Rightarrow> handler" where
  "handler_for c name = \<lparr>h_output = manager_device c name, h_level = get_level c name\<rparr>"

definition manager_inv :: "Manager \<Rightarrow> bool" where
  "manager_inv lm \<longleftrightarrow> dom (handlers lm) = loggers lm \<and>
     (\<forall>name h. handlers lm name = Some h \<longrightarrow> h = handler_for (config lm) name)"

datatype manager_op = Configure string string | Logger string

fun manager_step :: "(nat \<Rightarrow> nat) \<Rightarrow> manager_op \<Rightarrow> Manager \<Rightarrow> Manager" where
  "manager_step uu (Configure settings d) lm = snd (manager_configure uu settings d lm)"
| "manager_step uu (Logger name) lm = snd (manager_logger name lm)"

fun manager_run :: "(nat \<Rightarrow> nat) \<Rightarrow> manager_op list \<Rightarrow> Manager \<Rightarrow> Manager" where
  "manager_run uu [] lm = lm"
| "manager_run uu (op # ops) lm = manager_run uu ops (manager_step uu op lm)"

lemma new_manager_inv: "new_manager uu s d = Inr lm \<Longrightarrow> manager_inv lm"
  by (auto simp: new_manager_def bindS_eq_Inr manager_inv_def)

lemma manager_step_inv: "manager_inv lm \<Longrightarrow> manager_inv (manager_step uu op lm)"
proof (cases op)
  case (Configure s d)
  assume inv: "manager_inv lm"
  then have "name \<in> loggers lm \<longleftrightarrow> (\<exists>h. handlers lm name = Some h)" for name
    unfolding manager_inv_def by blast
  then show ?thesis
    using Configure inv
    by (auto simp: manager_inv_def manager_configure_def handler_for_def split: sum.splits)
qed (auto simp: manager_inv_def manager_logger_def handler_for_def Let_def split: if_splits)

lemma manager_run_inv: "manager_inv lm \<Longrightarrow> manager_inv (manager_run uu ops lm)"
  by (induction ops arbitrary: lm) (auto intro: manager_step_inv)

text \<open>
  Whatever sequence of \<open>Configure\<close> and \<open>Logger\<close> calls has run on a new manager, a logger
  handed out writes where, and at the level, that the configuration in force says, loggers made
  before the last \<open>Configure\<close> included.
\<close>

theorem manager_logger_in_sync:
  assumes "new_manager uu s d = Inr lm"
  shows "fst (manager_logger name (manager_run uu ops lm)) =
           Some (handler_for (config (manager_run uu ops lm)) name)"
proof -
  let ?lm = "manager_run uu ops lm"
  have inv: "manager_inv ?lm" using assms new_manager_inv manager_run_inv by blast
  show ?thesis
  proof (cases "name \<in> loggers ?lm")
    case True
    with inv obtain h where "handlers ?lm name = Some h" unfolding manager_inv_def by blast
    with True inv show ?thesis by (auto simp: manager_logger_def manager_inv_def)
  qed (simp add: manager_logger_def handler_for_def Let_def)
qed

lemma sample_manager: "\<exists>lm. new_manager id sample_settings [] = Inr lm"
  by (simp add: new_manager_def sample_config)

theorem manager_logger_in_sync_witness:
  "\<exists>lm. new_manager id sample_settings [] = Inr lm \<and>
     fst (manager_logger ''db'' (manager_run id [Logger ''db''] lm)) =
       Some (handler_for (config (manager_run id [Logger ''db''] lm)) ''db'')"
  using sample_manager manager_logger_in_sync[of id sample_settings "[]"] by blast

text \<open>A settings string that does not parse changes nothing.\<close>

lemma manager_configure_error:
  "manager_configure uu s d lm = (Inl e, lm') \<Longrightarrow> lm' = lm"
  by (auto simp: manager_configure_def split: sum.splits)

end
