(* ===== verification/Partition.thy ===== *)
theory Partition
  imports Prelude
begin

text \<open>
  \<open>partition/partition.go\<close>: batch parse results.  A Go generic's unset field holds the type's
  zero value, which the constructors take as the argument \<open>z\<close>.
\<close>

record ('v, 'e) parse_result =
  Value :: 'v
  Err :: 'e
  OK :: bool

definition Ok :: "'e \<Rightarrow> 'v \<Rightarrow> ('v, 'e) parse_result" where
  "Ok z v = \<lparr>Value = v, Err = z, OK = True\<rparr>"

definition Fail :: "'v \<Rightarrow> 'e \<Rightarrow> ('v, 'e) parse_result" where
  "Fail z e = \<lparr>Value = z, Err = e, OK = False\<rparr>"

fun results_loop :: "('r \<Rightarrow> ('v, 'e) parse_result) \<Rightarrow> 'r list \<Rightarrow> 'v list \<Rightarrow> 'e list
    \<Rightarrow> 'v list \<times> 'e list" where
  "results_loop parse [] values failures = (values, failures)"
| "results_loop parse (r # rows) values failures =
     (let res = parse r in
      if OK res then results_loop parse rows (values @ [Value res]) failures
      else results_loop parse rows values (failures @ [Err res]))"

definition results :: "('r \<Rightarrow> ('v, 'e) parse_result) \<Rightarrow> 'r list \<Rightarrow> 'v list \<times> 'e list" where
  "results parse rows = results_loop parse rows [] []"

lemma results_loop_eq:
  "results_loop parse rows vs es =
     (vs @ map Value (filter OK (map parse rows)),
      es @ map Err (filter (\<lambda>x. \<not> OK x) (map parse rows)))"
  by (induction rows arbitrary: vs es) (auto simp: Let_def)

text \<open>
  \<open>partition.Results\<close> loses and duplicates nothing and keeps the input order within each
  slice: the values are those of the successful rows in order, the failures those of the
  failed rows in order, and together they are as many as the rows.
\<close>

theorem results_partition:
  "results parse rows =
     (map Value (filter OK (map parse rows)), map Err (filter (\<lambda>x. \<not> OK x) (map parse rows))) \<and>
   length (fst (results parse rows)) + length (snd (results parse rows)) = length rows"
proof -
  have "length (filter OK xs) + length (filter (\<lambda>x. \<not> OK x) xs) = length xs"
    for xs :: "('v, 'e) parse_result list"
    by (induction xs) auto
  from this[of "map parse rows"] show ?thesis
    by (simp add: results_def results_loop_eq)
qed

end
