(* ===== verification/Appname.thy ===== *)
theory Appname
  imports Utf8
begin

text \<open>
  \<open>appname/appname.go\<close>: names derived from the module path.  The build information
  (\<open>debug.ReadBuildInfo\<close>) is the argument \<open>info\<close>: \<open>None\<close> when it is not available, otherwise
  the main module's path.  The three callers' fallbacks follow: \<open>telemetry.ServiceName\<close>,
  \<open>flows.appID\<close> and \<open>webtest.projectName\<close> (which panics, \<open>None\<close> here).
\<close>

fun strip_slashes :: "string \<Rightarrow> string" where
  \<comment> \<open>trailing slashes, on the reversed path\<close>
  "strip_slashes [] = []"
| "strip_slashes (c # s) = (if c = CHR ''/'' then strip_slashes s else c # s)"

text \<open>\<open>path.Base\<close> of Go's standard library.\<close>

definition path_base :: "string \<Rightarrow> string" where
  "path_base p =
     (if p = [] then ''.''
      else let q = rev (strip_slashes (rev p)) in
        if q = [] then ''/'' else last (split_on (CHR ''/'') q))"

definition base :: "string option \<Rightarrow> string" where
  "base info =
     (case info of None \<Rightarrow> [] | Some path \<Rightarrow> if path = [] then [] else path_base path)"

definition ident_rune :: "nat \<Rightarrow> bool" where
  "ident_rune r \<longleftrightarrow> (byte (CHR ''a'') \<le> r \<and> r \<le> byte (CHR ''z'')) \<or>
     (byte (CHR ''0'') \<le> r \<and> r \<le> byte (CHR ''9'')) \<or> r = byte (CHR ''_'')"

definition postgres :: "(nat \<Rightarrow> nat) \<Rightarrow> string option \<Rightarrow> string" where
  "postgres ul info =
     concat (map (\<lambda>r. if ident_rune r then encode_rune r else ''_'')
                 (runes (to_lower ul (base info))))"

definition service_name :: "(string \<Rightarrow> string) \<Rightarrow> string option \<Rightarrow> string" where
  "service_name os info =
     (if os ''OTEL_SERVICE_NAME'' \<noteq> [] then os ''OTEL_SERVICE_NAME''
      else if base info \<noteq> [] then base info else ''app'')"

definition app_id :: "string option \<Rightarrow> string" where
  "app_id info = (if base info \<noteq> [] then base info else ''app'')"

definition project_name :: "(nat \<Rightarrow> nat) \<Rightarrow> string option \<Rightarrow> string option" where
  "project_name ul info = (if postgres ul info = [] then None else Some (postgres ul info))"

definition template_db_name :: "(string \<Rightarrow> string) \<Rightarrow> (nat \<Rightarrow> nat) \<Rightarrow> string option \<Rightarrow> string option" where
  "template_db_name os ul info =
     (if os ''TEMPLATE_DB'' \<noteq> [] then Some (os ''TEMPLATE_DB'')
      else map_option (\<lambda>n. n @ ''_template'') (project_name ul info))"

lemma ident_rune_encode: "ident_rune r \<Longrightarrow> encode_rune r = [chr r] \<and> r < 128"
  by (auto simp: ident_rune_def encode_rune_def valid_rune_def)

definition ident_char :: "char \<Rightarrow> bool" where
  "ident_char c \<longleftrightarrow> ident_rune (byte c)"

text \<open>
  A database name derived from the module path is a plain SQL identifier of lower-case
  letters, digits and underscores, one character for each rune of the lower-cased name,
  whatever the module path holds.
\<close>

theorem postgres_identifier:
  "(\<forall>c \<in> set (postgres ul info). ident_char c) \<and>
   length (postgres ul info) = rune_count (to_lower ul (base info))"
proof -
  have "(\<forall>c \<in> set (concat (map (\<lambda>r. if ident_rune r then encode_rune r else ''_'') rs)).
           ident_char c) \<and>
        length (concat (map (\<lambda>r. if ident_rune r then encode_rune r else ''_'') rs)) = length rs"
    for rs
    by (induction rs)
      (auto simp: ident_rune_encode ident_char_def, auto simp: ident_rune_def)
  then show ?thesis by (simp add: postgres_def rune_count_def)
qed

theorem postgres_identifier_witness:
  "length (postgres id (Some ''github.com/mbriggs/go-bootstrap'')) = 12 \<and>
   list_all ident_char (postgres id (Some ''github.com/mbriggs/go-bootstrap''))"
proof -
  have b: "base (Some ''github.com/mbriggs/go-bootstrap'') = ''go-bootstrap''"
    by (simp add: base_def path_base_def)
  have "ascii ''go-bootstrap''" by (simp add: ascii_def)
  then have "rune_count (to_lower id ''go-bootstrap'') = 12"
    using ascii_to_lower[of "''go-bootstrap''" id] by (simp add: rune_count_ascii to_lower_def)
  with postgres_identifier[of id "Some ''github.com/mbriggs/go-bootstrap''"] b show ?thesis
    by (simp add: list_all_iff)
qed

lemma split_on_last_no_slash: "CHR ''/'' \<notin> set (last (split_on (CHR ''/'') s))"
  by (rule split_on_pieces[of _ _ s]) simp

text \<open>The final path element: no slash in it unless the path is all slashes.\<close>

lemma path_base_no_slash:
  "rev (strip_slashes (rev p)) \<noteq> [] \<Longrightarrow> CHR ''/'' \<notin> set (path_base p)"
  by (cases "p = []") (auto simp: path_base_def Let_def dest: subsetD
      intro: split_on_last_no_slash[THEN notE])

lemma app_id_not_Nil: "app_id info \<noteq> []"
  by (simp add: app_id_def)

end
