(* ===== verification/Encoding.thy ===== *)
theory Encoding
  imports Go_Strings
begin

text \<open>
  \<open>hex.EncodeToString\<close> and \<open>base64.RawURLEncoding.EncodeToString\<close>, with decoders that show the
  encodings lose nothing, and the alphabets: a token built from them needs no escaping in a
  link.
\<close>

subsection \<open>Hexadecimal\<close>

definition hex_alphabet :: string where
  "hex_alphabet = ''0123456789abcdef''"

fun hex_encode :: "string \<Rightarrow> string" where
  "hex_encode [] = []"
| "hex_encode (c # s) =
     hex_alphabet ! (byte c div 16) # hex_alphabet ! (byte c mod 16) # hex_encode s"

fun position :: "'a \<Rightarrow> 'a list \<Rightarrow> nat" where
  "position x [] = 0"
| "position x (y # ys) = (if x = y then 0 else Suc (position x ys))"

lemma position_nth: "distinct xs \<Longrightarrow> i < length xs \<Longrightarrow> position (xs ! i) xs = i"
proof (induction xs arbitrary: i)
  case (Cons x xs)
  then show ?case by (cases i) auto
qed simp

fun hex_decode :: "string \<Rightarrow> string" where
  "hex_decode (a # b # s) =
     chr (position a hex_alphabet * 16 + position b hex_alphabet) # hex_decode s"
| "hex_decode s = []"

lemma byte_less [simp]: "byte c < (256 :: nat)"
  by (rule nat_of_char_less_256)

lemma byte_div_mod:
  "byte c div 16 < (16::nat)" "byte c mod 16 < (16::nat)"
  using byte_less[of c] by (simp_all add: less_mult_imp_div_less)

lemma hex_position: "i < 16 \<Longrightarrow> position (hex_alphabet ! i) hex_alphabet = i"
  by (rule position_nth) (simp_all add: hex_alphabet_def)

lemma hex_roundtrip: "hex_decode (hex_encode s) = s"
  by (induction s) (simp_all add: hex_position byte_div_mod div_mult_mod_eq)

lemma hex_encode_inj: "hex_encode s = hex_encode t \<longleftrightarrow> s = t"
  by (metis hex_roundtrip)

lemma set_hex_encode: "set (hex_encode s) \<subseteq> set hex_alphabet"
proof (induction s)
  case (Cons c s)
  have "length hex_alphabet = 16" by (simp add: hex_alphabet_def)
  then have "hex_alphabet ! (byte c div 16) \<in> set hex_alphabet"
    "hex_alphabet ! (byte c mod 16) \<in> set hex_alphabet"
    using byte_div_mod[of c] by (auto intro!: nth_mem)
  with Cons.IH show ?case by simp
qed simp

lemma length_hex_encode: "length (hex_encode s) = 2 * length s"
  by (induction s) auto

subsection \<open>Base64, URL alphabet, no padding\<close>

definition b64_alphabet :: string where
  "b64_alphabet = ''ABCDEFGHIJKLMNOPQRSTUVWXYZabcdefghijklmnopqrstuvwxyz0123456789-_''"

definition b64 :: "nat \<Rightarrow> char" where
  "b64 n = b64_alphabet ! (n mod 64)"

fun base64_encode :: "string \<Rightarrow> string" where
  "base64_encode [] = []"
| "base64_encode [a] = [b64 (byte a div 4), b64 (byte a mod 4 * 16)]"
| "base64_encode [a, b] =
     [b64 (byte a div 4), b64 (byte a mod 4 * 16 + byte b div 16), b64 (byte b mod 16 * 4)]"
| "base64_encode (a # b # c # s) =
     b64 (byte a div 4) # b64 (byte a mod 4 * 16 + byte b div 16) #
     b64 (byte b mod 16 * 4 + byte c div 64) # b64 (byte c mod 64) # base64_encode s"

definition unb64 :: "char \<Rightarrow> nat" where
  "unb64 c = position c b64_alphabet"

fun base64_decode :: "string \<Rightarrow> string" where
  "base64_decode (w # x # y # z # s) =
     chr (unb64 w * 4 + unb64 x div 16) # chr (unb64 x mod 16 * 16 + unb64 y div 4) #
     chr (unb64 y mod 4 * 64 + unb64 z) # base64_decode s"
| "base64_decode [w, x, y] =
     [chr (unb64 w * 4 + unb64 x div 16), chr (unb64 x mod 16 * 16 + unb64 y div 4)]"
| "base64_decode [w, x] = [chr (unb64 w * 4 + unb64 x div 16)]"
| "base64_decode s = []"

lemma length_b64_alphabet: "length b64_alphabet = 64"
  by (simp add: b64_alphabet_def)

lemma unb64_b64: "n < 64 \<Longrightarrow> unb64 (b64 n) = n"
proof -
  assume "n < 64"
  moreover have "distinct b64_alphabet" by (simp add: b64_alphabet_def)
  ultimately show ?thesis by (simp add: b64_def unb64_def position_nth length_b64_alphabet)
qed

lemma sextets:
  fixes a b c :: nat
  assumes "a < 256" "b < 256" "c < 256"
  shows "a div 4 < 64" "a mod 4 * 16 + b div 16 < 64" "b mod 16 * 4 + c div 64 < 64"
    "c mod 64 < 64" "a mod 4 * 16 < 64" "b mod 16 * 4 < 64"
    "a div 4 * 4 + (a mod 4 * 16 + b div 16) div 16 = a"
    "(a mod 4 * 16 + b div 16) mod 16 * 16 + (b mod 16 * 4 + c div 64) div 4 = b"
    "(b mod 16 * 4 + c div 64) mod 4 * 64 + c mod 64 = c"
    "a div 4 * 4 + a mod 4 * 16 div 16 = a"
    "(a mod 4 * 16 + b div 16) mod 16 * 16 + b mod 16 * 4 div 4 = b"
proof -
  have q: "b div 16 < 16" "c div 64 < 4" "a mod 4 < 4" "b mod 16 < 16" using assms by auto
  show "a div 4 < 64" "c mod 64 < 64" using assms by auto
  show "a mod 4 * 16 + b div 16 < 64" "b mod 16 * 4 + c div 64 < 64"
    "a mod 4 * 16 < 64" "b mod 16 * 4 < 64" using q by linarith+
  show "a div 4 * 4 + (a mod 4 * 16 + b div 16) div 16 = a"
    "(a mod 4 * 16 + b div 16) mod 16 * 16 + (b mod 16 * 4 + c div 64) div 4 = b"
    "(b mod 16 * 4 + c div 64) mod 4 * 64 + c mod 64 = c"
    "a div 4 * 4 + a mod 4 * 16 div 16 = a"
    "(a mod 4 * 16 + b div 16) mod 16 * 16 + b mod 16 * 4 div 4 = b"
    using q by (simp_all add: div_mult_mod_eq)
qed

lemma base64_roundtrip: "base64_decode (base64_encode s) = s"
proof (induction s rule: base64_encode.induct)
  case (2 a)
  then show ?case using sextets[of "byte a" 0 0] by (simp add: unb64_b64)
next
  case (3 a b)
  then show ?case using sextets[of "byte a" "byte b" 0] by (simp add: unb64_b64)
next
  case (4 a b c s)
  then show ?case using sextets[of "byte a" "byte b" "byte c"] by (simp add: unb64_b64)
qed simp

lemma base64_encode_inj: "base64_encode s = base64_encode t \<longleftrightarrow> s = t"
  by (metis base64_roundtrip)

lemma b64_in_alphabet: "b64 n \<in> set b64_alphabet"
  by (simp add: b64_def length_b64_alphabet)

lemma base64_alphabet: "set (base64_encode s) \<subseteq> set b64_alphabet"
  by (induction s rule: base64_encode.induct) (auto simp: b64_in_alphabet)

lemma length_base64: "length (base64_encode s) = (length s * 4 + 2) div 3"
  by (induction s rule: base64_encode.induct) auto

end
