(* ===== verification/Fixture.thy ===== *)
theory Fixture
  imports Go_Strings
begin

text \<open>
  \<open>fixture/fixture.go\<close> and \<open>fixture/sequence.go\<close>.  \<open>sha\<close> is \<open>sha256.Sum256\<close>; \<open>intn k\<close> is the
  k-th number drawn from \<open>rand.IntN(36)\<close>, which the library keeps below its bound.  A
  sequence's state is the set of codes it has returned, with the number of draws made so far.
\<close>

definition offset :: int where
  "offset = 2 ^ 28"

fun be_uint32 :: "string \<Rightarrow> int" where
  \<comment> \<open>binary.BigEndian.Uint32 on the first four bytes\<close>
  "be_uint32 (a # b # c # d # s) =
     ((int (byte a) * 256 + int (byte b)) * 256 + int (byte c)) * 256 + int (byte d)"
| "be_uint32 s = 0"

definition fixture_id :: "(string \<Rightarrow> string) \<Rightarrow> string \<Rightarrow> string \<Rightarrow> int" where
  "fixture_id sha table name = offset + be_uint32 (sha (table @ '':'' @ name)) mod offset"

text \<open>
  A fixture id always lies between 2^28 and 2^29, so it fits an \<open>int4\<close> column and stays
  clear of the ids an identity column hands out first, whatever the digest is.
\<close>

theorem fixture_id_range:
  "offset \<le> fixture_id sha table name \<and> fixture_id sha table name < 2 * offset \<and>
   fixture_id sha table name < 2 ^ 31"
proof -
  have "0 \<le> x mod offset \<and> x mod offset < offset" for x by (simp add: offset_def)
  then show ?thesis by (simp add: fixture_id_def) (simp add: offset_def pos_mod_bound)
qed

definition alphanumeric :: string where
  "alphanumeric = ''abcdefghijklmnopqrstuvwxyz0123456789''"

definition maxAttempts :: nat where
  "maxAttempts = 1000"

record sequence =
  used :: "string set"
  draws :: nat

definition new_sequence :: sequence where
  "new_sequence = \<lparr>used = {}, draws = 0\<rparr>"

fun generate_random_string :: "(nat \<Rightarrow> nat) \<Rightarrow> nat \<Rightarrow> nat \<Rightarrow> string" where
  "generate_random_string intn k 0 = []"
| "generate_random_string intn k (Suc n) =
     alphanumeric ! intn k # generate_random_string intn (Suc k) n"

text \<open>The attempts of one \<open>Next\<close>; \<open>None\<close> is the panic \<open>data sequence exhausted\<close>.\<close>

fun next_loop :: "(nat \<Rightarrow> nat) \<Rightarrow> nat \<Rightarrow> sequence \<Rightarrow> (string \<times> sequence) option" where
  "next_loop intn 0 s = None"
| "next_loop intn (Suc n) s =
     (let val = generate_random_string intn (draws s) 5;
          s = s\<lparr>draws := draws s + 5\<rparr> in
      if val \<notin> used s then Some (val, s\<lparr>used := insert val (used s)\<rparr>)
      else next_loop intn n s)"

definition sequence_next :: "(nat \<Rightarrow> nat) \<Rightarrow> sequence \<Rightarrow> (string \<times> sequence) option" where
  "sequence_next intn s = next_loop intn maxAttempts s"

fun sequence_take :: "(nat \<Rightarrow> nat) \<Rightarrow> nat \<Rightarrow> sequence \<Rightarrow> string list option" where
  "sequence_take intn 0 s = Some []"
| "sequence_take intn (Suc n) s =
     (case sequence_next intn s of
        None \<Rightarrow> None
      | Some (v, s') \<Rightarrow> map_option (\<lambda>vs. v # vs) (sequence_take intn n s'))"

lemma generate_random_string_shape:
  assumes "\<And>k. intn k < 36"
  shows "length (generate_random_string intn k n) = n \<and>
    set (generate_random_string intn k n) \<subseteq> set alphanumeric"
proof -
  have "length alphanumeric = 36" by (simp add: alphanumeric_def)
  then have "intn k < length alphanumeric" for k using assms by simp
  then show ?thesis by (induction n arbitrary: k) auto
qed

lemma next_loop_Some:
  assumes "next_loop intn n s = Some (v, s')"
  shows "v \<notin> used s \<and> used s' = insert v (used s) \<and> (\<exists>k. v = generate_random_string intn k 5)"
  using assms
proof (induction n arbitrary: s)
  case (Suc n)
  show ?case
  proof (cases "generate_random_string intn (draws s) 5 \<in> used s")
    case True
    with Suc.prems have "next_loop intn n (s\<lparr>draws := draws s + 5\<rparr>) = Some (v, s')"
      by (simp add: Let_def)
    from Suc.IH[OF this] show ?thesis by simp
  qed (use Suc.prems in \<open>auto simp: Let_def\<close>)
qed simp

text \<open>How \<open>Next\<close> can panic: only when every one of the attempts drew a code already used.\<close>

lemma next_loop_None:
  "next_loop intn n s = None \<longleftrightarrow>
     (\<forall>i < n. generate_random_string intn (draws s + 5 * i) 5 \<in> used s)"
proof (induction n arbitrary: s)
  case (Suc n)
  have "(\<forall>i < Suc n. P i) \<longleftrightarrow> P 0 \<and> (\<forall>i < n. P (Suc i))" for P
    by (auto simp: less_Suc_eq_0_disj)
  then show ?case using Suc[of "s\<lparr>draws := draws s + 5\<rparr>"] by (auto simp: Let_def add.assoc)
qed simp

lemma sequence_take_fresh:
  "sequence_take intn n s = Some vs \<Longrightarrow> distinct vs \<and> set vs \<inter> used s = {} \<and> length vs = n"
proof (induction n arbitrary: s vs)
  case (Suc n)
  then obtain v s' ws where v: "sequence_next intn s = Some (v, s')"
    "sequence_take intn n s' = Some ws" "vs = v # ws"
    by (auto split: option.splits)
  from Suc.IH[OF v(2)] next_loop_Some[of intn maxAttempts s v s'] v(1,3)
  show ?case by (auto simp: sequence_next_def)
qed simp

text \<open>
  The codes one sequence returns are pairwise distinct, however the random numbers fall,
  and each is five characters of the alphabet.
\<close>

theorem sequence_codes_distinct:
  assumes "\<And>k. intn k < 36" and "sequence_take intn n new_sequence = Some vs"
  shows "distinct vs \<and> length vs = n \<and>
    (\<forall>v \<in> set vs. length v = 5 \<and> set v \<subseteq> set alphanumeric)"
proof -
  have "\<forall>v \<in> set vs. \<exists>k. v = generate_random_string intn k 5"
    if "sequence_take intn n s = Some vs" for s vs n
    using that
  proof (induction n arbitrary: s vs)
    case (Suc n)
    then obtain v s' ws where v: "sequence_next intn s = Some (v, s')"
      "sequence_take intn n s' = Some ws" "vs = v # ws"
      by (auto split: option.splits)
    with Suc.IH[OF v(2)] next_loop_Some[of intn maxAttempts s v s'] show ?case
      by (auto simp: sequence_next_def)
  qed simp
  with assms generate_random_string_shape[of intn] sequence_take_fresh[OF assms(2)]
  show ?thesis by metis
qed

lemma sequence_take_sample:
  "sequence_take (\<lambda>k. k mod 7) 2 new_sequence = Some [''abcde'', ''fgabc'']"
  by code_simp

theorem sequence_codes_distinct_witness:
  "(\<forall>k. k mod 7 < (36::nat)) \<and>
   sequence_take (\<lambda>k. k mod 7) 2 new_sequence = Some [''abcde'', ''fgabc''] \<and>
   distinct [''abcde'', ''fgabc'']"
proof -
  have "k mod 7 < (36::nat)" for k by (rule less_trans[of _ 7]) simp_all
  from sequence_codes_distinct[OF this sequence_take_sample] this sequence_take_sample
  show ?thesis by blast
qed

end
