(* ===== verification/Db_Layer.thy ===== *)
theory Db_Layer
  imports Go_Errors
begin

text \<open>
  The package \<open>db\<close>: typed queries over any \<open>Queryable\<close> (\<open>query.go\<close>, \<open>mutate.go\<close>), row maps
  (\<open>rowmap.go\<close>) and the transaction boundary (\<open>tx.go\<close>).  The layer is generic in the statement
  type \<open>'q\<close>, the raw row type \<open>'r\<close> and the world \<open>'w\<close> behind the connection; \<open>scan\<close> is
  \<open>pgx.RowToStructByName[T]\<close>.  \<open>RowsErr\<close> is a result whose reading reports an error, the way pgx
  delivers an execution error of a query.  The \<open>-1\<close> and zero results that the code returns
  beside an error are dropped: a caller reads the value only when the error is nil.
\<close>

datatype 'r rows = Rows "'r list" | RowsErr gerr

datatype tag_kind = TagInsert | TagUpdate | TagDelete | TagSelect

record command_tag =
  tag_kind :: tag_kind
  rows_affected :: int

record ('w, 'q, 'r) queryable =
  Query :: "'q \<Rightarrow> ('w, gerr, 'r rows) act"
  Exec :: "'q \<Rightarrow> ('w, gerr, command_tag) act"

text \<open>
  The three collectors of pgx by their documentation: all rows; the first row, or
  \<open>ErrNoRows\<close>; the only row, or \<open>ErrNoRows\<close>, or \<open>ErrTooManyRows\<close>; an error of the rows or of
  the scan otherwise.
\<close>

datatype collect_error = NoRows | TooManyRows | OtherError gerr

fun scan_rows :: "('r \<Rightarrow> gerr + 'a) \<Rightarrow> 'r list \<Rightarrow> gerr + 'a list" where
  "scan_rows scan [] = Inr []"
| "scan_rows scan (r # rs) = bindS (scan r) (\<lambda>a. bindS (scan_rows scan rs) (\<lambda>as. Inr (a # as)))"

fun collect_rows :: "('r \<Rightarrow> gerr + 'a) \<Rightarrow> 'r rows \<Rightarrow> gerr + 'a list" where
  "collect_rows scan (RowsErr e) = Inl e"
| "collect_rows scan (Rows rs) = scan_rows scan rs"

fun collect_one_row :: "('r \<Rightarrow> gerr + 'a) \<Rightarrow> 'r rows \<Rightarrow> collect_error + 'a" where
  "collect_one_row scan (RowsErr e) = Inl (OtherError e)"
| "collect_one_row scan (Rows []) = Inl NoRows"
| "collect_one_row scan (Rows (r # rs)) =
     (case scan r of Inl e \<Rightarrow> Inl (OtherError e) | Inr a \<Rightarrow> Inr a)"

fun collect_exactly_one_row :: "('r \<Rightarrow> gerr + 'a) \<Rightarrow> 'r rows \<Rightarrow> collect_error + 'a" where
  "collect_exactly_one_row scan (RowsErr e) = Inl (OtherError e)"
| "collect_exactly_one_row scan (Rows []) = Inl NoRows"
| "collect_exactly_one_row scan (Rows [r]) =
     (case scan r of Inl e \<Rightarrow> Inl (OtherError e) | Inr a \<Rightarrow> Inr a)"
| "collect_exactly_one_row scan (Rows (r # r' # rs)) =
     (case scan r of Inl e \<Rightarrow> Inl (OtherError e) | Inr a \<Rightarrow> Inl TooManyRows)"

subsection \<open>query.go\<close>

definition find_all_tx ::
  "('r \<Rightarrow> gerr + 'a) \<Rightarrow> ('w, 'q, 'r) queryable \<Rightarrow> 'q \<Rightarrow> ('w, gerr, 'a list) act" where
  "find_all_tx scan tx sql =
     bindE (wrapE (errorf ''db search error querying: '') (Query tx sql))
       (\<lambda>rows. case collect_rows scan rows of
          Inl e \<Rightarrow> fail (errorf ''db search error collecting: '' e)
        | Inr result \<Rightarrow> ret result)"

definition find_one_tx ::
  "('r \<Rightarrow> gerr + 'a) \<Rightarrow> ('w, 'q, 'r) queryable \<Rightarrow> 'q \<Rightarrow> ('w, gerr, 'a) act" where
  "find_one_tx scan tx sql =
     bindE (wrapE (errorf ''db find error querying: '') (Query tx sql))
       (\<lambda>rows. case collect_one_row scan rows of
          Inl NoRows \<Rightarrow> fail (errorf ''db find error: '' (Sentinel ErrNotFound))
        | Inl TooManyRows \<Rightarrow>
            fail (errorf ''db find error collecting: '' (External ''too many rows in result set''))
        | Inl (OtherError e) \<Rightarrow> fail (errorf ''db find error collecting: '' e)
        | Inr result \<Rightarrow> ret result)"

definition find_exactly_one_tx ::
  "('r \<Rightarrow> gerr + 'a) \<Rightarrow> ('w, 'q, 'r) queryable \<Rightarrow> 'q \<Rightarrow> ('w, gerr, 'a) act" where
  "find_exactly_one_tx scan tx sql =
     bindE (wrapE (errorf ''db find error querying: '') (Query tx sql))
       (\<lambda>rows. case collect_exactly_one_row scan rows of
          Inl NoRows \<Rightarrow> fail (errorf ''db find error: '' (Sentinel ErrNotFound))
        | Inl TooManyRows \<Rightarrow> fail (errorf ''db find error: '' (Sentinel ErrTooManyRows))
        | Inl (OtherError e) \<Rightarrow> fail (errorf ''db find error collecting: '' e)
        | Inr result \<Rightarrow> ret result)"

lemma find_exactly_one_tx_eq_Inr:
  "find_exactly_one_tx scan tx q w = (Inr a, w') \<longleftrightarrow>
     (\<exists>r. Query tx q w = (Inr (Rows [r]), w') \<and> scan r = Inr a)"
proof -
  have c: "collect_exactly_one_row scan rows = Inr a \<longleftrightarrow> (\<exists>r. rows = Rows [r] \<and> scan r = Inr a)" for rows
    by (cases "(scan, rows)" rule: collect_exactly_one_row.cases) (auto split: sum.splits)
  have d: "(case x of Inl NoRows \<Rightarrow> fail e1 | Inl TooManyRows \<Rightarrow> fail e2
        | Inl (OtherError e) \<Rightarrow> fail (g e) | Inr result \<Rightarrow> ret result) w1 = (Inr a, w') \<longleftrightarrow>
      x = Inr a \<and> w1 = w'" for x e1 e2 g w1
    by (auto split: sum.splits collect_error.splits)
  show ?thesis unfolding find_exactly_one_tx_def bindE_eq_Inr d c wrapE_eq_Inr by blast
qed

subsection \<open>mutate.go\<close>

text \<open>\<open>build\<close> is the SQL text \<open>pgsql.Build\<close> renders, which only appears in an error.\<close>

definition update_tx :: "('q \<Rightarrow> string) \<Rightarrow> ('w, 'q, 'r) queryable \<Rightarrow> 'q \<Rightarrow> ('w, gerr, int) act" where
  "update_tx build tx upd =
     bindE (Exec tx upd) (\<lambda>cmd.
       if tag_kind cmd \<noteq> TagUpdate
       then fail (errorf (''did not perform an update (sql: '' @ build upd @ ''): '')
              (Sentinel ErrIncorrectMutation))
       else ret (rows_affected cmd))"

definition insert_tx ::
  "('r \<Rightarrow> gerr + 'a) \<Rightarrow> ('w, 'q, 'r) queryable \<Rightarrow> 'q \<Rightarrow> ('w, gerr, 'a) act" where
  "insert_tx scan tx ins = find_exactly_one_tx scan tx ins"

definition delete_tx :: "('q \<Rightarrow> string) \<Rightarrow> ('w, 'q, 'r) queryable \<Rightarrow> 'q \<Rightarrow> ('w, gerr, int) act" where
  "delete_tx build tx del =
     bindE (Exec tx del) (\<lambda>cmd.
       if tag_kind cmd \<noteq> TagDelete
       then fail (errorf (''did not perform a delete (sql: '' @ build del @ ''): '')
              (Sentinel ErrIncorrectMutation))
       else ret (rows_affected cmd))"

subsection \<open>rowmap.go\<close>

text \<open>
  A \<open>pgsql.RowMap\<close> value is one of the Go types the generated models hold: a string, an
  \<open>int64\<close>, a \<open>time.Time\<close> (microseconds, 0 the zero time), a \<open>[]string\<close> (\<open>None\<close> the nil slice,
  which alone is zero), a \<open>*time.Time\<close>, or nil.
\<close>

datatype gval =
    VNil | VStr string | VInt int | VTime int | VStrs "string list option" | VTimePtr "int option"

type_synonym row_map = "string \<rightharpoonup> gval"

fun is_zero :: "gval \<Rightarrow> bool" where
  "is_zero VNil = True"
| "is_zero (VStr s) = (s = [])"
| "is_zero (VInt i) = (i = 0)"
| "is_zero (VTime t) = (t = 0)"
| "is_zero (VStrs xs) = (xs = None)"
| "is_zero (VTimePtr p) = (p = None)"

fun filter_unset :: "row_map \<Rightarrow> string list \<Rightarrow> row_map" where
  "filter_unset rm [] = rm"
| "filter_unset rm (col # cols) =
     (case rm col of
        None \<Rightarrow> filter_unset rm cols
      | Some v \<Rightarrow> filter_unset (if is_zero v then rm(col := None) else rm) cols)"

lemma filter_unset_at:
  "filter_unset rm cols k =
     (case rm k of
        None \<Rightarrow> None
      | Some v \<Rightarrow> if k \<in> set cols \<and> is_zero v then None else Some v)"
proof (induction rm cols rule: filter_unset.induct)
  case (2 rm col cols)
  then show ?case by (cases "rm col"; cases "rm k") (auto split: if_splits)
qed (simp split: option.split)

text \<open>
  \<open>FilterUnset\<close> drops exactly the listed columns that hold a zero value: every other
  column keeps its value, and no column is added.
\<close>

theorem filter_unset_spec:
  "filter_unset rm cols k =
     (case rm k of
        None \<Rightarrow> None
      | Some v \<Rightarrow> if k \<in> set cols \<and> is_zero v then None else Some v)"
  by (rule filter_unset_at)

subsection \<open>tx.go\<close>

record ('w, 'q, 'r) pool =
  Begin :: "('w, gerr, unit) act"
  Commit :: "('w, gerr, unit) act"
  Rollback :: "('w, gerr, unit) act"
  Tx :: "('w, 'q, 'r) queryable"

definition in_tx ::
  "('w, 'q, 'r) pool \<Rightarrow> (('w, 'q, 'r) queryable \<Rightarrow> ('w, gerr, 'a) act) \<Rightarrow> ('w, gerr, 'a) act" where
  "in_tx conn fn =
     bindE (wrapE (errorf ''could not open transaction: '') (Begin conn)) (\<lambda>_.
     bindE (attempt (fn (Tx conn))) (\<lambda>r. case r of
         Inl err \<Rightarrow> bindE (attempt (Rollback conn)) (\<lambda>_. fail err)
       | Inr result \<Rightarrow>
           bindE (wrapE (errorf ''error committing transaction: '') (Commit conn)) (\<lambda>_.
           ret result)))"

definition exec_in_tx ::
  "('w, 'q, 'r) pool \<Rightarrow> (('w, 'q, 'r) queryable \<Rightarrow> ('w, gerr, unit) act) \<Rightarrow> ('w, gerr, unit) act" where
  "exec_in_tx conn fn =
     bindE (wrapE (errorf ''could not open transaction: '') (Begin conn)) (\<lambda>_.
     bindE (attempt (fn (Tx conn))) (\<lambda>r. case r of
         Inl err \<Rightarrow> bindE (attempt (Rollback conn)) (\<lambda>_. fail err)
       | Inr _ \<Rightarrow> wrapE (errorf ''error committing transaction: '') (Commit conn)))"

lemma exec_in_tx_in_tx: "exec_in_tx conn fn = in_tx conn fn"
  by (rule ext) (auto simp: exec_in_tx_def in_tx_def bindE_def ret_def split: prod.splits sum.splits)

subsection \<open>Invariants through the layer\<close>

lemma keeps_find_all_tx [keeps_intros]:
  "keeps I (Query tx q) \<Longrightarrow> keeps I (find_all_tx scan tx q)"
  unfolding find_all_tx_def by (intro keeps_intros)

lemma keeps_find_one_tx [keeps_intros]:
  "keeps I (Query tx q) \<Longrightarrow> keeps I (find_one_tx scan tx q)"
  unfolding find_one_tx_def
  by (intro keeps_bindE keeps_wrapE) (auto intro: keeps_intros split: sum.split collect_error.split)

lemma keeps_find_exactly_one_tx [keeps_intros]:
  "keeps I (Query tx q) \<Longrightarrow> keeps I (find_exactly_one_tx scan tx q)"
  unfolding find_exactly_one_tx_def
  by (intro keeps_bindE keeps_wrapE) (auto intro: keeps_intros split: sum.split collect_error.split)

lemma keeps_update_tx [keeps_intros]: "keeps I (Exec tx q) \<Longrightarrow> keeps I (update_tx build tx q)"
  unfolding update_tx_def by (intro keeps_intros)

lemma keeps_insert_tx [keeps_intros]: "keeps I (Query tx q) \<Longrightarrow> keeps I (insert_tx scan tx q)"
  unfolding insert_tx_def by (intro keeps_intros)

lemma keeps_delete_tx [keeps_intros]: "keeps I (Exec tx q) \<Longrightarrow> keeps I (delete_tx build tx q)"
  unfolding delete_tx_def by (intro keeps_intros)

lemma keeps_in_tx [keeps_intros]:
  "keeps I (Begin p) \<Longrightarrow> keeps I (Commit p) \<Longrightarrow> keeps I (Rollback p) \<Longrightarrow> keeps I (fn (Tx p)) \<Longrightarrow>
   keeps I (in_tx p fn)"
  unfolding in_tx_def by (intro keeps_intros)

text \<open>
  The contract of a transactional store, and what \<open>InTx\<close> makes of it.  \<open>durable\<close> is what other
  connections read, \<open>saved\<close> what a rollback returns to.
\<close>

locale transactional =
  fixes conn :: "('w, 'q, 'r) pool"
    and durable :: "'w \<Rightarrow> 'd"
    and saved :: "'w \<Rightarrow> 'd"
  assumes begin_ok: "Begin conn w = (Inr u, w1) \<Longrightarrow> durable w1 = durable w \<and> saved w1 = durable w"
    and begin_err: "Begin conn w = (Inl e, w1) \<Longrightarrow> durable w1 = durable w"
    and query_saved: "saved (snd (Query (Tx conn) q w)) = saved w"
    and exec_saved: "saved (snd (Exec (Tx conn) q w)) = saved w"
    and rollback: "durable (snd (Rollback conn w)) = saved w"
    and commit_ok: "Commit conn w = (Inr u, w1) \<Longrightarrow> durable w1 = durable w"
begin

text \<open>An operation that leaves the saved state alone: every one built from the two statements.\<close>

definition inside :: "('w, gerr, 'a) act \<Rightarrow> bool" where
  "inside m \<longleftrightarrow> (\<forall>w. saved (snd (m w)) = saved w)"

lemma inside_keeps: "inside m \<longleftrightarrow> (\<forall>d. keeps (\<lambda>w. saved w = d) m)"
  by (auto simp: inside_def keeps_def)

lemma insideI: "(\<And>d. keeps (\<lambda>w. saved w = d) m) \<Longrightarrow> inside m"
  by (simp add: inside_keeps)

lemma keeps_query: "keeps (\<lambda>w. saved w = d) (Query (Tx conn) q)"
  by (simp add: keeps_def query_saved)

lemma keeps_exec: "keeps (\<lambda>w. saved w = d) (Exec (Tx conn) q)"
  by (simp add: keeps_def exec_saved)

text \<open>A transaction whose function fails changes nothing that lasts.\<close>

lemma in_tx_error_atomic:
  assumes "inside (fn (Tx conn))" and "Begin conn w = (Inr u, w1)"
    and "fn (Tx conn) w1 = (Inl e, w2)"
  shows "fst (in_tx conn fn w) = Inl e \<and> durable (snd (in_tx conn fn w)) = durable w"
proof -
  obtain r w3 where r: "Rollback conn w2 = (r, w3)" by force
  have "saved w2 = saved w1" using assms(1,3) unfolding inside_def by (metis snd_conv)
  with begin_ok[OF assms(2)] rollback[of w2] r have "durable w3 = durable w" by simp
  with assms r show ?thesis by (simp add: in_tx_def bindE_def wrapE_def attempt_def)
qed

text \<open>A transaction that succeeds is its function run from where it began.\<close>

lemma in_tx_success:
  assumes "in_tx conn fn w = (Inr a, w')"
  shows "\<exists>w1 w2. durable w1 = durable w \<and> fn (Tx conn) w1 = (Inr a, w2) \<and> durable w' = durable w2"
proof -
  obtain u w1 where b: "Begin conn w = (Inr u, w1)"
    and rest: "bindE (attempt (fn (Tx conn))) (\<lambda>r. case r of
         Inl err \<Rightarrow> bindE (attempt (Rollback conn)) (\<lambda>_. fail err)
       | Inr result \<Rightarrow>
           bindE (wrapE (errorf ''error committing transaction: '') (Commit conn)) (\<lambda>_.
           ret result)) w1 = (Inr a, w')"
    using assms by (auto simp: in_tx_def bindE_eq_Inr)
  then obtain r w2 where r: "fn (Tx conn) w1 = (r, w2)" by (meson surj_pair)
  with rest have "\<exists>u. r = Inr a \<and> Commit conn w2 = (Inr u, w')"
    by (cases r) (auto simp: bindE_eq_Inr)
  with b r begin_ok[OF b] commit_ok show ?thesis by metis
qed

end

end
