(* ===== verification/Store.thy ===== *)
theory Store
  imports Db_Layer
begin

text \<open>
  The database as the program sees it: the tables of \<open>migrations/001\<close>, \<open>005\<close> and \<open>006\<close> and the
  SQL statements the Go code sends, each one constructor of \<open>stmt\<close> with its arguments and its
  meaning in \<open>run_stmt\<close>.  Times are microseconds.

  What the repository does not hold is a parameter.  \<open>lower\<close> is Postgres' \<open>lower()\<close> under the
  database's collation.  The outcome of the n-th call that leaves the process is \<open>fate n\<close>:
  the call works, or it is refused before it does anything, or it fails with the effect lost,
  or it takes effect and only the reply fails.  So a theorem about the program holds for every
  placement of such failures.  \<open>entropy n\<close> is what the n-th read of \<open>crypto/rand\<close> returns.
  Time stands still inside one operation; the clocks of the process and of the database
  differ.
\<close>

record user =
  u_id :: int
  u_email :: string
  u_password_hash :: string
  u_name :: string
  u_roles :: "string list option"
  u_created_at :: int
  u_updated_at :: int

record reset_token =
  t_id :: int
  t_user_id :: int
  t_token_hash :: string
  t_expires_at :: int
  t_used_at :: "int option"
  t_created_at :: int

record throttle_attempt =
  a_key :: string
  a_attempted_at :: int

record tables =
  users :: "user list"
  password_reset_tokens :: "reset_token list"
  throttle_attempts :: "throttle_attempt list"

datatype job_args = PasswordResetEmailArgs string

record message =
  m_to :: string
  m_subject :: string
  m_body :: string

datatype outcome = Works | Refused string | Lost string | Unacked string

record world =
  tables :: tables
  snapshot :: tables
  user_seq :: int
  token_seq :: int
  db_now :: int
  app_now :: int
  fate :: "nat \<Rightarrow> outcome"
  calls :: nat
  entropy :: "nat \<Rightarrow> string"
  rand_reads :: nat
  hash_ops :: nat
  enqueued :: "job_args list"
  outbox :: "message list"

subsection \<open>Statements\<close>

datatype stmt =
    SelectUserByEmail string
  | SelectUserById int
  | InsertUser row_map
  | InsertResetToken row_map
  | SelectLiveToken string
  | SetPassword int string
  | RetireTokens int
  | CountAttempts string int
  | PruneAttempts int
  | InsertAttempt string
  | DeleteAttempts string

datatype row = UserRow user | TokenRow reset_token | CountRow int

definition not_null_violation :: "string \<Rightarrow> gerr" where
  "not_null_violation col = PgError ''23502'' col"

text \<open>A column's value in an INSERT: given, or else the default of the table (none: NOT NULL).\<close>

definition str_col :: "row_map \<Rightarrow> string \<Rightarrow> string option \<Rightarrow> gerr + string" where
  "str_col rm col dflt =
     (case rm col of
        Some (VStr s) \<Rightarrow> Inr s
      | None \<Rightarrow> (case dflt of None \<Rightarrow> Inl (not_null_violation col) | Some s \<Rightarrow> Inr s)
      | _ \<Rightarrow> Inl (not_null_violation col))"

definition int_col :: "row_map \<Rightarrow> string \<Rightarrow> gerr + int" where
  "int_col rm col = (case rm col of Some (VInt i) \<Rightarrow> Inr i | _ \<Rightarrow> Inl (not_null_violation col))"

definition time_col :: "row_map \<Rightarrow> string \<Rightarrow> int option \<Rightarrow> gerr + int" where
  "time_col rm col dflt =
     (case rm col of
        Some (VTime t) \<Rightarrow> Inr t
      | None \<Rightarrow> (case dflt of None \<Rightarrow> Inl (not_null_violation col) | Some t \<Rightarrow> Inr t)
      | _ \<Rightarrow> Inl (not_null_violation col))"

definition roles_col :: "row_map \<Rightarrow> gerr + string list option" where
  "roles_col rm =
     (case rm ''roles'' of
        Some (VStrs (Some rs)) \<Rightarrow> Inr (Some rs)
      | None \<Rightarrow> Inr (Some [])
      | _ \<Rightarrow> Inl (not_null_violation ''roles''))"

definition used_col :: "row_map \<Rightarrow> gerr + int option" where
  "used_col rm =
     (case rm ''used_at'' of
        Some (VTimePtr p) \<Rightarrow> Inr p
      | None \<Rightarrow> Inr None
      | _ \<Rightarrow> Inl (External ''wrong type for used_at''))"

definition build_user :: "row_map \<Rightarrow> int \<Rightarrow> int \<Rightarrow> gerr + user" where
  "build_user rm i now =
     bindS (str_col rm ''email'' None) (\<lambda>email.
     bindS (str_col rm ''password_hash'' None) (\<lambda>hash.
     bindS (str_col rm ''name'' (Some [])) (\<lambda>name.
     bindS (roles_col rm) (\<lambda>roles.
     bindS (time_col rm ''created_at'' (Some now)) (\<lambda>created.
     bindS (time_col rm ''updated_at'' (Some now)) (\<lambda>updated.
       Inr \<lparr>u_id = i, u_email = email, u_password_hash = hash, u_name = name,
            u_roles = roles, u_created_at = created, u_updated_at = updated\<rparr>))))))"

definition build_token :: "row_map \<Rightarrow> int \<Rightarrow> int \<Rightarrow> gerr + reset_token" where
  "build_token rm i now =
     bindS (int_col rm ''user_id'') (\<lambda>uid.
     bindS (str_col rm ''token_hash'' None) (\<lambda>hash.
     bindS (time_col rm ''expires_at'' None) (\<lambda>expires.
     bindS (used_col rm) (\<lambda>used.
     bindS (time_col rm ''created_at'' (Some now)) (\<lambda>created.
       Inr \<lparr>t_id = i, t_user_id = uid, t_token_hash = hash, t_expires_at = expires,
            t_used_at = used, t_created_at = created\<rparr>)))))"

definition email_unique_index :: string where
  "email_unique_index = ''users_email_lower_unique''"

definition insert_user :: "(string \<Rightarrow> string) \<Rightarrow> row_map \<Rightarrow> world \<Rightarrow> row rows \<times> world" where
  \<comment> \<open>INSERT INTO users ... RETURNING ...\<close>
  "insert_user lower rm w =
     (let i = user_seq w; w = w\<lparr>user_seq := i + 1\<rparr> in
      case build_user rm i (db_now w) of
        Inl e \<Rightarrow> (RowsErr e, w)
      | Inr u \<Rightarrow>
          if \<exists>v \<in> set (users (tables w)). lower (u_email v) = lower (u_email u)
          then (RowsErr (PgError ''23505'' email_unique_index), w)
          else (Rows [UserRow u],
                w\<lparr>tables := (tables w)\<lparr>users := users (tables w) @ [u]\<rparr>\<rparr>))"

definition insert_token :: "row_map \<Rightarrow> world \<Rightarrow> row rows \<times> world" where
  \<comment> \<open>INSERT INTO password_reset_tokens ... RETURNING ...\<close>
  "insert_token rm w =
     (let i = token_seq w; w = w\<lparr>token_seq := i + 1\<rparr> in
      case build_token rm i (db_now w) of
        Inl e \<Rightarrow> (RowsErr e, w)
      | Inr t \<Rightarrow>
          if \<exists>s \<in> set (password_reset_tokens (tables w)). t_token_hash s = t_token_hash t
          then (RowsErr (PgError ''23505'' ''password_reset_tokens_token_hash_unique''), w)
          else if t_user_id t \<notin> u_id ` set (users (tables w))
          then (RowsErr (PgError ''23503'' ''password_reset_tokens_user_id_fkey''), w)
          else (Rows [TokenRow t],
                w\<lparr>tables := (tables w)
                   \<lparr>password_reset_tokens := password_reset_tokens (tables w) @ [t]\<rparr>\<rparr>))"

definition live_at :: "int \<Rightarrow> reset_token \<Rightarrow> bool" where
  \<comment> \<open>used_at IS NULL AND expires_at > now()\<close>
  "live_at now t \<longleftrightarrow> t_used_at t = None \<and> t_expires_at t > now"

definition set_password :: "int \<Rightarrow> string \<Rightarrow> int \<Rightarrow> user \<Rightarrow> user" where
  \<comment> \<open>SET password_hash = ?, updated_at = now() WHERE id = ?\<close>
  "set_password uid hash now u =
     (if u_id u = uid then u\<lparr>u_password_hash := hash, u_updated_at := now\<rparr> else u)"

definition retire :: "int \<Rightarrow> int \<Rightarrow> reset_token \<Rightarrow> reset_token" where
  \<comment> \<open>SET used_at = now() WHERE user_id = ? AND used_at IS NULL\<close>
  "retire uid now t =
     (if t_user_id t = uid \<and> t_used_at t = None then t\<lparr>t_used_at := Some now\<rparr> else t)"

definition tag :: "tag_kind \<Rightarrow> nat \<Rightarrow> command_tag" where
  "tag k n = \<lparr>tag_kind = k, rows_affected = int n\<rparr>"

text \<open>The rows, the command tag and the new state of one statement that Postgres executes.\<close>

fun run_stmt :: "(string \<Rightarrow> string) \<Rightarrow> stmt \<Rightarrow> world \<Rightarrow> row rows \<times> command_tag \<times> world" where
  "run_stmt lower (SelectUserByEmail e) w =
     (let us = filter (\<lambda>u. lower (u_email u) = lower e) (users (tables w)) in
      (Rows (map UserRow us), tag TagSelect (length us), w))"
| "run_stmt lower (SelectUserById i) w =
     (let us = filter (\<lambda>u. u_id u = i) (users (tables w)) in
      (Rows (map UserRow us), tag TagSelect (length us), w))"
| "run_stmt lower (InsertUser rm) w =
     (case insert_user lower rm w of (rs, w') \<Rightarrow> (rs, tag TagInsert 1, w'))"
| "run_stmt lower (InsertResetToken rm) w =
     (case insert_token rm w of (rs, w') \<Rightarrow> (rs, tag TagInsert 1, w'))"
| "run_stmt lower (SelectLiveToken h) w =
     (let ts = filter (\<lambda>t. t_token_hash t = h \<and> live_at (db_now w) t)
                 (password_reset_tokens (tables w)) in
      (Rows (map TokenRow ts), tag TagSelect (length ts), w))"
| "run_stmt lower (SetPassword uid hash) w =
     (Rows [], tag TagUpdate (length (filter (\<lambda>u. u_id u = uid) (users (tables w)))),
      w\<lparr>tables := (tables w)\<lparr>users := map (set_password uid hash (db_now w)) (users (tables w))\<rparr>\<rparr>)"
| "run_stmt lower (RetireTokens uid) w =
     (Rows [], tag TagUpdate (length (filter (\<lambda>t. t_user_id t = uid \<and> t_used_at t = None)
         (password_reset_tokens (tables w)))),
      w\<lparr>tables := (tables w)
         \<lparr>password_reset_tokens := map (retire uid (db_now w)) (password_reset_tokens (tables w))\<rparr>\<rparr>)"
| "run_stmt lower (CountAttempts key secs) w =
     (Rows [CountRow (int (length (filter
         (\<lambda>a. a_key a = key \<and> a_attempted_at a > db_now w - secs * 1000000)
         (throttle_attempts (tables w)))))], tag TagSelect 1, w)"
| "run_stmt lower (PruneAttempts secs) w =
     (let old = (\<lambda>a. a_attempted_at a < db_now w - secs * 1000000) in
      (Rows [], tag TagDelete (length (filter old (throttle_attempts (tables w)))),
       w\<lparr>tables := (tables w)
          \<lparr>throttle_attempts := filter (\<lambda>a. \<not> old a) (throttle_attempts (tables w))\<rparr>\<rparr>))"
| "run_stmt lower (InsertAttempt key) w =
     (Rows [], tag TagInsert 1,
      w\<lparr>tables := (tables w)\<lparr>throttle_attempts := throttle_attempts (tables w) @
          [\<lparr>a_key = key, a_attempted_at = db_now w\<rparr>]\<rparr>\<rparr>)"
| "run_stmt lower (DeleteAttempts key) w =
     (Rows [], tag TagDelete (length (filter (\<lambda>a. a_key a = key) (throttle_attempts (tables w)))),
      w\<lparr>tables := (tables w)
         \<lparr>throttle_attempts := filter (\<lambda>a. a_key a \<noteq> key) (throttle_attempts (tables w))\<rparr>\<rparr>)"

subsection \<open>The connection\<close>

definition next_call :: "world \<Rightarrow> outcome \<times> world" where
  "next_call w = (fate w (calls w), w\<lparr>calls := Suc (calls w)\<rparr>)"

definition pg_query :: "(string \<Rightarrow> string) \<Rightarrow> stmt \<Rightarrow> (world, gerr, row rows) act" where
  "pg_query lower q = (\<lambda>w0. case next_call w0 of (o1, w) \<Rightarrow>
     (case o1 of
        Works \<Rightarrow> (case run_stmt lower q w of (rs, t, w') \<Rightarrow> (Inr rs, w'))
      | Refused m \<Rightarrow> (Inl (External m), w)
      | Lost m \<Rightarrow> (Inr (RowsErr (External m)), w)
      | Unacked m \<Rightarrow> (case run_stmt lower q w of (rs, t, w') \<Rightarrow>
          (Inr (RowsErr (External m)), w'))))"

definition pg_exec :: "(string \<Rightarrow> string) \<Rightarrow> stmt \<Rightarrow> (world, gerr, command_tag) act" where
  "pg_exec lower q = (\<lambda>w0. case next_call w0 of (o1, w) \<Rightarrow>
     (case o1 of
        Works \<Rightarrow> (case run_stmt lower q w of (rs, t, w') \<Rightarrow>
          (case rs of RowsErr e \<Rightarrow> (Inl e, w') | Rows _ \<Rightarrow> (Inr t, w')))
      | Refused m \<Rightarrow> (Inl (External m), w)
      | Lost m \<Rightarrow> (Inl (External m), w)
      | Unacked m \<Rightarrow> (case run_stmt lower q w of (rs, t, w') \<Rightarrow> (Inl (External m), w'))))"

definition conn :: "(string \<Rightarrow> string) \<Rightarrow> (world, stmt, row) queryable" where
  \<comment> \<open>db.Conn as a Queryable: each statement is its own transaction\<close>
  "conn lower = \<lparr>Query = pg_query lower, Exec = pg_exec lower\<rparr>"

text \<open>
  \<open>Conn.Begin\<close>, \<open>tx.Commit\<close>, \<open>tx.Rollback\<close>.  A commit that is not acknowledged may have taken
  effect; a rollback that fails leaves the server to roll back when the connection drops.
\<close>

definition pg_begin :: "(world, gerr, unit) act" where
  "pg_begin = (\<lambda>w0. case next_call w0 of (o1, w) \<Rightarrow>
     (case o1 of
        Works \<Rightarrow> (Inr (), w\<lparr>snapshot := tables w\<rparr>)
      | Refused m \<Rightarrow> (Inl (External m), w)
      | Lost m \<Rightarrow> (Inl (External m), w)
      | Unacked m \<Rightarrow> (Inl (External m), w)))"

definition pg_rollback :: "(world, gerr, unit) act" where
  "pg_rollback = (\<lambda>w0. case next_call w0 of (o1, w) \<Rightarrow>
     (let w = w\<lparr>tables := snapshot w\<rparr> in
      case o1 of
        Works \<Rightarrow> (Inr (), w)
      | Refused m \<Rightarrow> (Inl (External m), w)
      | Lost m \<Rightarrow> (Inl (External m), w)
      | Unacked m \<Rightarrow> (Inl (External m), w)))"

definition pg_commit :: "(world, gerr, unit) act" where
  "pg_commit = (\<lambda>w0. case next_call w0 of (o1, w) \<Rightarrow>
     (case o1 of
        Works \<Rightarrow> (Inr (), w)
      | Refused m \<Rightarrow> (Inl (External m), w\<lparr>tables := snapshot w\<rparr>)
      | Lost m \<Rightarrow> (Inl (External m), w\<lparr>tables := snapshot w\<rparr>)
      | Unacked m \<Rightarrow> (Inl (External m), w)))"

definition pg_pool :: "(string \<Rightarrow> string) \<Rightarrow> (world, stmt, row) pool" where
  "pg_pool lower = \<lparr>Begin = pg_begin, Commit = pg_commit, Rollback = pg_rollback, Tx = conn lower\<rparr>"

text \<open>Any other call that leaves the process: it has its effect, or fails, or both.\<close>

definition external_call :: "(world \<Rightarrow> world) \<Rightarrow> (world, gerr, unit) act" where
  "external_call f = (\<lambda>w0. case next_call w0 of (o1, w) \<Rightarrow>
     (case o1 of
        Works \<Rightarrow> (Inr (), f w)
      | Refused m \<Rightarrow> (Inl (External m), w)
      | Lost m \<Rightarrow> (Inl (External m), w)
      | Unacked m \<Rightarrow> (Inl (External m), f w)))"

subsection \<open>Scanning\<close>

fun scan_user :: "row \<Rightarrow> gerr + user" where
  "scan_user (UserRow u) = Inr u"
| "scan_user r = Inl (External ''struct doesn't have corresponding row field'')"

fun scan_token :: "row \<Rightarrow> gerr + reset_token" where
  "scan_token (TokenRow t) = Inr t"
| "scan_token r = Inl (External ''struct doesn't have corresponding row field'')"

fun scan_count :: "row \<Rightarrow> gerr + int" where
  "scan_count (CountRow n) = Inr n"
| "scan_count r = Inl (External ''cannot scan row into int64'')"

subsection \<open>The interpretation of the transaction contract\<close>

definition tick :: "world \<Rightarrow> world" where
  "tick w = w\<lparr>calls := Suc (calls w)\<rparr>"

lemma next_call_eq: "next_call w = (fate w (calls w), tick w)"
  by (simp add: next_call_def tick_def)

lemma tick_fields [simp]:
  "tables (tick w) = tables w" "snapshot (tick w) = snapshot w" "user_seq (tick w) = user_seq w"
  "token_seq (tick w) = token_seq w" "db_now (tick w) = db_now w" "app_now (tick w) = app_now w"
  "fate (tick w) = fate w" "calls (tick w) = Suc (calls w)" "entropy (tick w) = entropy w"
  "rand_reads (tick w) = rand_reads w" "hash_ops (tick w) = hash_ops w"
  "enqueued (tick w) = enqueued w" "outbox (tick w) = outbox w"
  by (simp_all add: tick_def)

abbreviation after_stmt :: "(string \<Rightarrow> string) \<Rightarrow> stmt \<Rightarrow> world \<Rightarrow> world" where
  "after_stmt lower q w \<equiv> snd (snd (run_stmt lower q w))"

text \<open>A statement touches the tables and the identity sequences, and nothing else.\<close>

lemma after_stmt_frame [simp]:
  "snapshot (after_stmt lower q w) = snapshot w" "db_now (after_stmt lower q w) = db_now w"
  "app_now (after_stmt lower q w) = app_now w" "fate (after_stmt lower q w) = fate w"
  "calls (after_stmt lower q w) = calls w" "entropy (after_stmt lower q w) = entropy w"
  "rand_reads (after_stmt lower q w) = rand_reads w" "hash_ops (after_stmt lower q w) = hash_ops w"
  "enqueued (after_stmt lower q w) = enqueued w" "outbox (after_stmt lower q w) = outbox w"
  by (cases q; auto simp: insert_user_def insert_token_def Let_def split: sum.split prod.split)+

lemma snd_pg_query: "snd (pg_query lower q w) \<in> {tick w, after_stmt lower q (tick w)}"
  by (auto simp: pg_query_def next_call_eq split: outcome.split prod.split)

lemma snd_pg_exec: "snd (pg_exec lower q w) \<in> {tick w, after_stmt lower q (tick w)}"
  by (auto simp: pg_exec_def next_call_eq split: outcome.split prod.split rows.split)

lemma pg_call_fields:
  assumes "w' \<in> {tick w, after_stmt lower q (tick w)}"
  shows "snapshot w' = snapshot w" "db_now w' = db_now w" "app_now w' = app_now w"
    "fate w' = fate w" "entropy w' = entropy w" "rand_reads w' = rand_reads w"
    "hash_ops w' = hash_ops w" "enqueued w' = enqueued w" "outbox w' = outbox w"
  using assms by auto

interpretation pg: transactional "pg_pool lower" tables snapshot for lower
proof unfold_locales
  show "snapshot (snd (Query (Tx (pg_pool lower)) q w)) = snapshot w" for q w
    using pg_call_fields[OF snd_pg_query] by (simp add: pg_pool_def conn_def)
  show "snapshot (snd (Exec (Tx (pg_pool lower)) q w)) = snapshot w" for q w
    using pg_call_fields[OF snd_pg_exec] by (simp add: pg_pool_def conn_def)
qed (auto simp: pg_pool_def pg_begin_def pg_rollback_def pg_commit_def next_call_eq Let_def
      split: outcome.splits)

subsection \<open>The invariant of the tables\<close>

definition tables_inv :: "(string \<Rightarrow> string) \<Rightarrow> int \<Rightarrow> int \<Rightarrow> tables \<Rightarrow> bool" where
  "tables_inv lower useq tseq T \<longleftrightarrow>
     distinct (map u_id (users T)) \<and> (\<forall>u \<in> set (users T). u_id u < useq) \<and>
     distinct (map (\<lambda>u. lower (u_email u)) (users T)) \<and>
     distinct (map t_id (password_reset_tokens T)) \<and>
     (\<forall>t \<in> set (password_reset_tokens T). t_id t < tseq) \<and>
     distinct (map t_token_hash (password_reset_tokens T)) \<and>
     (\<forall>t \<in> set (password_reset_tokens T). t_user_id t \<in> u_id ` set (users T))"

definition store_inv :: "(string \<Rightarrow> string) \<Rightarrow> world \<Rightarrow> bool" where
  "store_inv lower w \<longleftrightarrow>
     tables_inv lower (user_seq w) (token_seq w) (tables w) \<and>
     tables_inv lower (user_seq w) (token_seq w) (snapshot w)"

lemma set_password_fields [simp]:
  "u_id (set_password i h n u) = u_id u" "u_email (set_password i h n u) = u_email u"
  "u_name (set_password i h n u) = u_name u" "u_roles (set_password i h n u) = u_roles u"
  by (simp_all add: set_password_def)

lemma retire_fields [simp]:
  "t_id (retire i n t) = t_id t" "t_user_id (retire i n t) = t_user_id t"
  "t_token_hash (retire i n t) = t_token_hash t" "t_expires_at (retire i n t) = t_expires_at t"
  by (simp_all add: retire_def)

lemma tables_inv_mono:
  "tables_inv lower a b T \<Longrightarrow> a \<le> a' \<Longrightarrow> b \<le> b' \<Longrightarrow> tables_inv lower a' b' T"
  unfolding tables_inv_def by force

lemma tables_inv_attempts [simp]:
  "tables_inv lower a b (T\<lparr>throttle_attempts := xs\<rparr>) = tables_inv lower a b T"
  by (simp add: tables_inv_def)

lemma tables_inv_set_password:
  "tables_inv lower a b T \<Longrightarrow> tables_inv lower a b (T\<lparr>users := map (set_password i h n) (users T)\<rparr>)"
  by (auto simp: tables_inv_def comp_def image_image)

lemma tables_inv_retire:
  "tables_inv lower a b T \<Longrightarrow>
   tables_inv lower a b (T\<lparr>password_reset_tokens := map (retire i n) (password_reset_tokens T)\<rparr>)"
  by (auto simp: tables_inv_def comp_def)

lemma build_user_id: "build_user rm i now = Inr u \<Longrightarrow> u_id u = i"
  by (auto simp: build_user_def bindS_eq_Inr)

lemma build_token_id: "build_token rm i now = Inr t \<Longrightarrow> t_id t = i"
  by (auto simp: build_token_def bindS_eq_Inr)

lemma insert_user_inv:
  assumes "store_inv lower w"
  shows "store_inv lower (snd (insert_user lower rm w))"
proof -
  let ?w = "w\<lparr>user_seq := user_seq w + 1\<rparr>"
  have seq: "store_inv lower ?w"
    using assms by (auto simp: store_inv_def intro: tables_inv_mono)
  show ?thesis
  proof (cases "build_user rm (user_seq w) (db_now w)")
    case (Inr u)
    have id: "u_id u = user_seq w" using Inr by (rule build_user_id)
    show ?thesis
    proof (cases "\<exists>v \<in> set (users (tables w)). lower (u_email v) = lower (u_email u)")
      case False
      then have "tables_inv lower (user_seq w + 1) (token_seq w)
          ((tables w)\<lparr>users := users (tables w) @ [u]\<rparr>)"
        using assms id by (fastforce simp: store_inv_def tables_inv_def)
      with seq Inr False show ?thesis by (simp add: insert_user_def store_inv_def)
    qed (use seq Inr in \<open>simp add: insert_user_def\<close>)
  qed (use seq in \<open>simp add: insert_user_def\<close>)
qed

lemma insert_token_inv:
  assumes "store_inv lower w"
  shows "store_inv lower (snd (insert_token rm w))"
proof -
  let ?w = "w\<lparr>token_seq := token_seq w + 1\<rparr>"
  have seq: "store_inv lower ?w"
    using assms by (auto simp: store_inv_def intro: tables_inv_mono)
  show ?thesis
  proof (cases "build_token rm (token_seq w) (db_now w)")
    case (Inr t)
    have id: "t_id t = token_seq w" using Inr by (rule build_token_id)
    let ?ts = "password_reset_tokens (tables w)"
    show ?thesis
    proof (cases "(\<exists>s \<in> set ?ts. t_token_hash s = t_token_hash t) \<or>
        t_user_id t \<notin> u_id ` set (users (tables w))")
      case False
      then have "tables_inv lower (user_seq w) (token_seq w + 1)
          ((tables w)\<lparr>password_reset_tokens := ?ts @ [t]\<rparr>)"
        using assms id by (fastforce simp: store_inv_def tables_inv_def)
      with seq Inr False show ?thesis by (simp add: insert_token_def store_inv_def)
    qed (use seq Inr in \<open>auto simp: insert_token_def Let_def\<close>)
  qed (use seq in \<open>simp add: insert_token_def\<close>)
qed

lemma after_stmt_inv: "store_inv lower w \<Longrightarrow> store_inv lower (after_stmt lower q w)"
proof (cases q)
  case (InsertUser rm)
  assume "store_inv lower w"
  then show ?thesis
    using InsertUser insert_user_inv[of lower w rm] by (simp add: case_prod_unfold)
next
  case (InsertResetToken rm)
  assume "store_inv lower w"
  then show ?thesis
    using InsertResetToken insert_token_inv[of lower w rm] by (simp add: case_prod_unfold)
qed (auto simp: store_inv_def Let_def tables_inv_set_password tables_inv_retire)

lemma tick_inv [simp]: "store_inv lower (tick w) = store_inv lower w"
  by (simp add: store_inv_def)

lemma keeps_pg_query [keeps_intros]: "keeps (store_inv lower) (pg_query lower q)"
proof (rule keepsI)
  fix w assume "store_inv lower w"
  then have "store_inv lower (after_stmt lower q (tick w))" by (simp add: after_stmt_inv)
  with \<open>store_inv lower w\<close> snd_pg_query[of lower q w] show "store_inv lower (snd (pg_query lower q w))"
    by auto
qed

lemma keeps_pg_exec [keeps_intros]: "keeps (store_inv lower) (pg_exec lower q)"
proof (rule keepsI)
  fix w assume "store_inv lower w"
  then have "store_inv lower (after_stmt lower q (tick w))" by (simp add: after_stmt_inv)
  with \<open>store_inv lower w\<close> snd_pg_exec[of lower q w] show "store_inv lower (snd (pg_exec lower q w))"
    by auto
qed

lemma conn_simps [simp]: "Query (conn lower) = pg_query lower" "Exec (conn lower) = pg_exec lower"
  by (simp_all add: conn_def)

lemma pg_pool_simps [simp]:
  "Begin (pg_pool lower) = pg_begin" "Commit (pg_pool lower) = pg_commit"
  "Rollback (pg_pool lower) = pg_rollback" "Tx (pg_pool lower) = conn lower"
  by (simp_all add: pg_pool_def)

lemma keeps_pg_tx [keeps_intros]:
  "keeps (store_inv lower) pg_begin" "keeps (store_inv lower) pg_commit"
  "keeps (store_inv lower) pg_rollback"
  by (auto simp: keeps_def pg_begin_def pg_commit_def pg_rollback_def next_call_eq store_inv_def
      Let_def split: outcome.split)

text \<open>The failures to come are the environment's choice: no statement changes them.\<close>

lemma keeps_fate [keeps_intros]:
  "keeps (\<lambda>w. fate w = F) (pg_query lower q)" "keeps (\<lambda>w. fate w = F) (pg_exec lower q)"
  "keeps (\<lambda>w. fate w = F) pg_begin" "keeps (\<lambda>w. fate w = F) pg_commit"
  "keeps (\<lambda>w. fate w = F) pg_rollback"
proof -
  show "keeps (\<lambda>w. fate w = F) (pg_query lower q)"
    by (simp add: keeps_def pg_call_fields[OF snd_pg_query])
  show "keeps (\<lambda>w. fate w = F) (pg_exec lower q)"
    by (simp add: keeps_def pg_call_fields[OF snd_pg_exec])
qed (auto simp: keeps_def pg_begin_def pg_commit_def pg_rollback_def next_call_eq Let_def
    split: outcome.split)

lemma keeps_external_call [keeps_intros]:
  "(\<And>w. I w \<Longrightarrow> I (tick w)) \<Longrightarrow> (\<And>w. I w \<Longrightarrow> I (f w)) \<Longrightarrow> keeps I (external_call f)"
  by (auto simp: keeps_def external_call_def next_call_eq split: outcome.split)

text \<open>
  The tables stay consistent under every statement, however it fails: user ids and
  lower-cased emails are unique, token digests are unique, and every reset token belongs to an
  existing user.  The rolled-back copy keeps the same invariant, so a rollback restores it.
\<close>

theorem store_statement_keeps_invariant:
  assumes "store_inv lower w"
  shows "store_inv lower (snd (pg_query lower q w)) \<and> store_inv lower (snd (pg_exec lower q w)) \<and>
    store_inv lower (snd (pg_begin w)) \<and> store_inv lower (snd (pg_commit w)) \<and>
    store_inv lower (snd (pg_rollback w))"
  using assms keepsD[OF keeps_pg_query] keepsD[OF keeps_pg_exec] keeps_pg_tx[THEN keepsD] by blast

definition empty_tables :: tables where
  "empty_tables = \<lparr>users = [], password_reset_tokens = [], throttle_attempts = []\<rparr>"

definition fresh_world :: world where
  "fresh_world = \<lparr>tables = empty_tables, snapshot = empty_tables, user_seq = 1, token_seq = 1,
     db_now = 1000000, app_now = 1000000, fate = (\<lambda>n. Works), calls = 0,
     entropy = (\<lambda>n. replicate 32 (chr n)), rand_reads = 0, hash_ops = 0,
     enqueued = [], outbox = []\<rparr>"

lemma fresh_world_inv: "store_inv lower fresh_world"
  by (simp add: store_inv_def fresh_world_def tables_inv_def empty_tables_def)

theorem store_statement_keeps_invariant_witness:
  "store_inv id (snd (pg_exec id (InsertAttempt ''k'') fresh_world)) \<and>
   throttle_attempts (tables (snd (pg_exec id (InsertAttempt ''k'') fresh_world))) =
     [\<lparr>a_key = ''k'', a_attempted_at = 1000000\<rparr>]"
  using store_statement_keeps_invariant[OF fresh_world_inv, of id "InsertAttempt ''k''"]
  by (simp add: pg_exec_def next_call_eq fresh_world_def empty_tables_def tick_def)

subsection \<open>When every call works\<close>

definition reliable :: "world \<Rightarrow> bool" where
  "reliable w \<longleftrightarrow> (\<forall>n. fate w n = Works)"

lemma reliable_tick [simp]: "reliable (tick w) = reliable w"
  by (simp add: reliable_def)

lemma reliable_after_stmt [simp]: "reliable (after_stmt lower q w) = reliable w"
  by (simp add: reliable_def)

lemma pg_query_reliable:
  "reliable w \<Longrightarrow> pg_query lower q w = (Inr (fst (run_stmt lower q (tick w))), after_stmt lower q (tick w))"
  by (simp add: pg_query_def next_call_eq reliable_def split: prod.split)

lemma pg_exec_reliable:
  "reliable w \<Longrightarrow> pg_exec lower q w =
     ((case fst (run_stmt lower q (tick w)) of RowsErr e \<Rightarrow> Inl e
       | Rows _ \<Rightarrow> Inr (fst (snd (run_stmt lower q (tick w))))), after_stmt lower q (tick w))"
  by (simp add: pg_exec_def next_call_eq reliable_def split: prod.split rows.split)

lemma external_call_reliable: "reliable w \<Longrightarrow> external_call f w = (Inr (), f (tick w))"
  by (simp add: external_call_def next_call_eq reliable_def)

end
