(* ===== verification/Users.thy ===== *)
theory Users
  imports Store Utf8 Encoding
begin

text \<open>
  \<open>auth/users.go\<close>, with the row model of \<open>auth/users.gen.go\<close>: accounts and the password
  credential.  argon2id is the parameter \<open>A\<close>: hashing takes the password and the salt it reads
  from \<open>crypto/rand\<close>, comparing takes the password and the stored hash.  \<open>sha\<close> is
  \<open>sha256.Sum256\<close>.  \<open>hash_ops\<close> counts the argon2 computations, the observable the code keeps
  equal between an unknown email and a wrong password.  Waiting for one of the hash slots is a
  call that can give up with the context's error.
\<close>

record argon2id =
  CreateHash :: "string \<Rightarrow> string \<Rightarrow> gerr + string"
  ComparePasswordAndHash :: "string \<Rightarrow> string \<Rightarrow> gerr + bool"

text \<open>What the code relies on: a hash matches its own password and no other.\<close>

definition argon2id_contract :: "argon2id \<Rightarrow> bool" where
  "argon2id_contract A \<longleftrightarrow>
     (\<forall>p salt h q. CreateHash A p salt = Inr h \<longrightarrow> ComparePasswordAndHash A q h = Inr (q = p))"

definition PasswordMinLength :: nat where "PasswordMinLength = 8"
definition passwordMaxBytes :: nat where "passwordMaxBytes = 512"
definition RoleAdmin :: string where "RoleAdmin = ''admin''"

definition hash_password :: "argon2id \<Rightarrow> string \<Rightarrow> (world, gerr, string) act" where
  "hash_password A password =
     bindE (wrapE (errorf ''waiting for a hash slot: '') (external_call id)) (\<lambda>_ w.
       let salt = entropy w (rand_reads w);
           w = w\<lparr>rand_reads := Suc (rand_reads w), hash_ops := Suc (hash_ops w)\<rparr> in
       case CreateHash A password salt of
         Inl e \<Rightarrow> (Inl (errorf ''argon2id hash: '' e), w)
       | Inr hash \<Rightarrow> (Inr hash, w))"

definition compare_password :: "argon2id \<Rightarrow> string \<Rightarrow> string \<Rightarrow> (world, gerr, bool) act" where
  "compare_password A password hash =
     bindE (wrapE (errorf ''waiting for a hash slot: '') (external_call id)) (\<lambda>_ w.
       let w = w\<lparr>hash_ops := Suc (hash_ops w)\<rparr> in
       case ComparePasswordAndHash A password hash of
         Inl e \<Rightarrow> (Inl (errorf ''argon2id compare: '' e), w)
       | Inr matched \<Rightarrow> (Inr matched, w))"

definition has_role :: "user \<Rightarrow> string \<Rightarrow> bool" where
  "has_role u role = (case u_roles u of None \<Rightarrow> False | Some rs \<Rightarrow> List.member rs role)"

definition password_epoch :: "(string \<Rightarrow> string) \<Rightarrow> user \<Rightarrow> string" where
  "password_epoch sha u = hex_encode (sha (u_password_hash u))"

definition user_to_row_map :: "user \<Rightarrow> row_map" where
  "user_to_row_map u =
     filter_unset
       [''email'' \<mapsto> VStr (u_email u), ''password_hash'' \<mapsto> VStr (u_password_hash u),
        ''name'' \<mapsto> VStr (u_name u), ''roles'' \<mapsto> VStrs (u_roles u),
        ''created_at'' \<mapsto> VTime (u_created_at u), ''updated_at'' \<mapsto> VTime (u_updated_at u)]
       [''name'', ''roles'', ''created_at'', ''updated_at'']"

record create_input =
  ci_email :: string
  ci_password :: string
  ci_name :: string
  ci_roles :: "string list option"

definition validate_password :: "string \<Rightarrow> sentinel option" where
  "validate_password password =
     (if password = [] then Some ErrPasswordRequired
      else if rune_count password < PasswordMinLength then Some ErrPasswordTooShort
      else if length password > passwordMaxBytes then Some ErrPasswordTooLong
      else None)"

definition is_email_unique_violation :: "gerr \<Rightarrow> bool" where
  "is_email_unique_violation err =
     (case errors_as_pg err of
        None \<Rightarrow> False
      | Some (code, constraint) \<Rightarrow> code = ''23505'' \<and> constraint = email_unique_index)"

definition default_name :: "string \<Rightarrow> string \<Rightarrow> string" where
  "default_name raw email =
     (let name = trim_space raw in
      if name = [] then
        (case index_byte email (CHR ''@'') of
           Some at \<Rightarrow> if at > 0 then take at email else email
         | None \<Rightarrow> email)
      else name)"

definition create_tx ::
  "argon2id \<Rightarrow> (world, stmt, row) queryable \<Rightarrow> create_input \<Rightarrow> (world, gerr, user) act" where
  "create_tx A tx inp =
     (let email = trim_space (ci_email inp) in
      if email = [] then fail (Sentinel ErrEmailRequired)
      else case validate_password (ci_password inp) of
        Some e \<Rightarrow> fail (Sentinel e)
      | None \<Rightarrow>
          bindE (wrapE (errorf ''hashing password: '') (hash_password A (ci_password inp))) (\<lambda>hash.
          bindE (attempt (insert_tx scan_user tx (InsertUser (user_to_row_map
              \<lparr>u_id = 0, u_email = email, u_password_hash = hash,
               u_name = default_name (ci_name inp) email, u_roles = ci_roles inp,
               u_created_at = 0, u_updated_at = 0\<rparr>)))) (\<lambda>r.
          case r of
            Inl err \<Rightarrow>
              if is_email_unique_violation err
              then fail (Wrap [] (Sentinel ErrEmailTaken) ('': '' @ email))
              else fail (errorf ''inserting user: '' err)
          | Inr created \<Rightarrow> ret created)))"

definition by_email_tx ::
  "(world, stmt, row) queryable \<Rightarrow> string \<Rightarrow> (world, gerr, user) act" where
  "by_email_tx tx email = find_exactly_one_tx scan_user tx (SelectUserByEmail (trim_space email))"

definition by_id_tx ::
  "(world, stmt, row) queryable \<Rightarrow> int \<Rightarrow> (world, gerr, user) act" where
  "by_id_tx tx i = find_exactly_one_tx scan_user tx (SelectUserById i)"

text \<open>\<open>dummy\<close> is the package variable \<open>dummyHash\<close>, hashed once when the package loads.\<close>

definition authenticate_tx ::
  "argon2id \<Rightarrow> string \<Rightarrow> (world, stmt, row) queryable \<Rightarrow> string \<Rightarrow> string \<Rightarrow> (world, gerr, user) act"
where
  "authenticate_tx A dummy tx email password =
     bindE (attempt (by_email_tx tx email)) (\<lambda>r.
     case r of
       Inl err \<Rightarrow>
         if errors_is err ErrNotFound
         then bindE (attempt (compare_password A password dummy)) (\<lambda>_.
                fail (Sentinel ErrInvalidCredentials))
         else fail err
     | Inr user \<Rightarrow>
         bindE (wrapE (errorf ''comparing password hash: '')
             (compare_password A password (u_password_hash user))) (\<lambda>matched.
           if \<not> matched then fail (Sentinel ErrInvalidCredentials) else ret user))"

text \<open>\<open>auth/conn.gen.go\<close>: the same operations on the pool.\<close>

definition create :: "(string \<Rightarrow> string) \<Rightarrow> argon2id \<Rightarrow> create_input \<Rightarrow> (world, gerr, user) act" where
  "create lower A inp = create_tx A (conn lower) inp"

definition authenticate ::
  "(string \<Rightarrow> string) \<Rightarrow> argon2id \<Rightarrow> string \<Rightarrow> string \<Rightarrow> string \<Rightarrow> (world, gerr, user) act" where
  "authenticate lower A dummy email password = authenticate_tx A dummy (conn lower) email password"

definition by_email :: "(string \<Rightarrow> string) \<Rightarrow> string \<Rightarrow> (world, gerr, user) act" where
  "by_email lower email = by_email_tx (conn lower) email"

definition by_id :: "(string \<Rightarrow> string) \<Rightarrow> int \<Rightarrow> (world, gerr, user) act" where
  "by_id lower i = by_id_tx (conn lower) i"

subsection \<open>A concrete hash and a concrete world, for the witnesses\<close>

definition demo_argon2id :: argon2id where
  "demo_argon2id =
     \<lparr>CreateHash = (\<lambda>p salt. Inr (hex_encode p @ ''$'' @ hex_encode salt)),
      ComparePasswordAndHash = (\<lambda>p h. Inr (has_prefix h (hex_encode p @ ''$'')))\<rparr>"

lemma hex_no_dollar: "CHR ''$'' \<notin> set (hex_encode s)"
  using set_hex_encode[of s] by (auto simp: hex_alphabet_def)

lemma demo_argon2id_contract: "argon2id_contract demo_argon2id"
  by (auto simp: argon2id_contract_def demo_argon2id_def has_prefix_iff append_Cons_eq_iff
      hex_no_dollar hex_encode_inj)

definition ada :: user where
  "ada = \<lparr>u_id = 1, u_email = ''ada@example.com'',
     u_password_hash = hex_encode ''correct-horse'' @ ''$'', u_name = ''ada'', u_roles = Some [],
     u_created_at = 0, u_updated_at = 0\<rparr>"

definition demo_world :: world where
  "demo_world = fresh_world\<lparr>tables := empty_tables\<lparr>users := [ada]\<rparr>,
     snapshot := empty_tables\<lparr>users := [ada]\<rparr>, user_seq := 2\<rparr>"

lemma demo_world_fields [simp]:
  "users (tables demo_world) = [ada]" "password_reset_tokens (tables demo_world) = []"
  "throttle_attempts (tables demo_world) = []" "tables demo_world = empty_tables\<lparr>users := [ada]\<rparr>"
  "snapshot demo_world = empty_tables\<lparr>users := [ada]\<rparr>"
  "user_seq demo_world = 2" "token_seq demo_world = 1" "db_now demo_world = 1000000"
  "app_now demo_world = 1000000" "fate demo_world = (\<lambda>n. Works)" "calls demo_world = 0"
  "rand_reads demo_world = 0" "hash_ops demo_world = 0" "enqueued demo_world = []"
  "outbox demo_world = []" "entropy demo_world n = replicate 32 (chr n)"
  by (simp_all add: demo_world_def fresh_world_def empty_tables_def)

lemma demo_world_inv: "store_inv lower demo_world" "reliable demo_world"
  by (simp_all add: store_inv_def tables_inv_def ada_def reliable_def empty_tables_def)

subsection \<open>The password policy\<close>

text \<open>
  A password is accepted exactly when it has at least eight characters (runes, not bytes)
  and at most 512 bytes.  So an accepted one has 8 to 512 bytes, and one of 29 to 512 bytes is
  accepted whatever it is written in.
\<close>

theorem validate_password_policy:
  "(validate_password p = None \<longleftrightarrow> 8 \<le> rune_count p \<and> length p \<le> 512) \<and>
   (validate_password p = None \<longrightarrow> 8 \<le> length p \<and> rune_count p \<le> 512) \<and>
   (29 \<le> length p \<and> length p \<le> 512 \<longrightarrow> validate_password p = None)"
  using rune_count_bounds[of p]
  by (auto simp: validate_password_def PasswordMinLength_def passwordMaxBytes_def)

theorem validate_password_policy_witness:
  "validate_password ''correct-horse'' = None \<and> 8 \<le> length ''correct-horse'' \<and>
   validate_password (replicate 29 (chr 255)) = None"
proof -
  have "rune_count ''correct-horse'' = 13" by (simp add: rune_count_ascii ascii_def)
  then show ?thesis
    using validate_password_policy[of "''correct-horse''"]
      validate_password_policy[of "replicate 29 (chr 255)"] by simp
qed

subsection \<open>Lookups\<close>

definition user_by_email :: "(string \<Rightarrow> string) \<Rightarrow> tables \<Rightarrow> string \<Rightarrow> user option" where
  "user_by_email lower T e = find (\<lambda>u. lower (u_email u) = lower e) (users T)"

definition user_by_id :: "tables \<Rightarrow> int \<Rightarrow> user option" where
  "user_by_id T i = find (\<lambda>u. u_id u = i) (users T)"

text \<open>A lookup by a unique key: one row or none, however the call ends.\<close>

lemma find_filter_unique:
  assumes "distinct (map f xs)"
  shows "filter (\<lambda>x. f x = k) xs = (case find (\<lambda>x. f x = k) xs of None \<Rightarrow> [] | Some x \<Rightarrow> [x])"
proof (cases "find (\<lambda>x. f x = k) xs")
  case None
  then have "filter (\<lambda>x. f x = k) xs = []" by (auto simp: find_None_iff filter_empty_conv)
  with None show ?thesis by simp
next
  case (Some x)
  then have "x \<in> set xs" "f x = k" by (auto simp: find_Some_iff)
  with filter_unique_key[OF assms] Some show ?thesis by force
qed

lemma rows_of_user:
  assumes "store_inv lower w"
  shows "run_stmt lower (SelectUserByEmail e) w =
      (Rows (case user_by_email lower (tables w) e of None \<Rightarrow> [] | Some u \<Rightarrow> [UserRow u]),
       tag TagSelect (case user_by_email lower (tables w) e of None \<Rightarrow> 0 | Some u \<Rightarrow> 1), w)"
    and "run_stmt lower (SelectUserById i) w =
      (Rows (case user_by_id (tables w) i of None \<Rightarrow> [] | Some u \<Rightarrow> [UserRow u]),
       tag TagSelect (case user_by_id (tables w) i of None \<Rightarrow> 0 | Some u \<Rightarrow> 1), w)"
proof -
  have d: "distinct (map (\<lambda>u. lower (u_email u)) (users (tables w)))"
    "distinct (map u_id (users (tables w)))"
    using assms by (auto simp: store_inv_def tables_inv_def)
  show "run_stmt lower (SelectUserByEmail e) w =
      (Rows (case user_by_email lower (tables w) e of None \<Rightarrow> [] | Some u \<Rightarrow> [UserRow u]),
       tag TagSelect (case user_by_email lower (tables w) e of None \<Rightarrow> 0 | Some u \<Rightarrow> 1), w)"
    using find_filter_unique[OF d(1), of "lower e"]
    by (simp add: user_by_email_def Let_def split: option.split)
  show "run_stmt lower (SelectUserById i) w =
      (Rows (case user_by_id (tables w) i of None \<Rightarrow> [] | Some u \<Rightarrow> [UserRow u]),
       tag TagSelect (case user_by_id (tables w) i of None \<Rightarrow> 0 | Some u \<Rightarrow> 1), w)"
    using find_filter_unique[OF d(2), of i]
    by (simp add: user_by_id_def Let_def split: option.split)
qed

text \<open>What a lookup does under any outcome of its one call.\<close>

definition not_found :: gerr where
  "not_found = errorf ''db find error: '' (Sentinel ErrNotFound)"

definition lookup_result :: "outcome \<Rightarrow> 'a option \<Rightarrow> gerr + 'a" where
  "lookup_result out found =
     (case out of
        Works \<Rightarrow> (case found of None \<Rightarrow> Inl not_found | Some u \<Rightarrow> Inr u)
      | Refused m \<Rightarrow> Inl (errorf ''db find error querying: '' (External m))
      | Lost m \<Rightarrow> Inl (errorf ''db find error collecting: '' (External m))
      | Unacked m \<Rightarrow> Inl (errorf ''db find error collecting: '' (External m)))"

lemma by_email_tx_run:
  assumes "store_inv lower w"
  shows "by_email_tx (conn lower) e w =
    (lookup_result (fate w (calls w)) (user_by_email lower (tables w) (trim_space e)), tick w)"
proof -
  have "store_inv lower (tick w)" using assms by simp
  from rows_of_user(1)[OF this] show ?thesis
    by (cases "fate w (calls w)"; cases "user_by_email lower (tables w) (trim_space e)")
      (simp_all add: by_email_tx_def find_exactly_one_tx_def pg_query_def next_call_eq bindE_def
        wrapE_def lookup_result_def not_found_def)
qed

lemma by_id_tx_run:
  assumes "store_inv lower w"
  shows "by_id_tx (conn lower) i w =
    (lookup_result (fate w (calls w)) (user_by_id (tables w) i), tick w)"
proof -
  have "store_inv lower (tick w)" using assms by simp
  from rows_of_user(2)[OF this] show ?thesis
    by (cases "fate w (calls w)"; cases "user_by_id (tables w) i")
      (simp_all add: by_id_tx_def find_exactly_one_tx_def pg_query_def next_call_eq bindE_def
        wrapE_def lookup_result_def not_found_def)
qed

lemma errors_is_not_found [simp]: "errors_is not_found s \<longleftrightarrow> s = ErrNotFound"
  by (auto simp: not_found_def)

lemma lookup_result_Inr: "lookup_result out found = Inr u \<Longrightarrow> out = Works \<and> found = Some u"
  by (auto simp: lookup_result_def split: outcome.splits option.splits)

lemma lookup_result_not_found:
  "lookup_result out found = Inl e \<Longrightarrow> errors_is e ErrNotFound \<longleftrightarrow> out = Works \<and> found = None"
  by (auto simp: lookup_result_def split: outcome.splits option.splits)

lemma user_by_email_Some:
  "user_by_email lower T e = Some u \<Longrightarrow> u \<in> set (users T) \<and> lower (u_email u) = lower e"
  by (auto simp: user_by_email_def find_Some_iff)

lemma user_by_id_Some: "user_by_id T i = Some u \<Longrightarrow> u \<in> set (users T) \<and> u_id u = i"
  by (auto simp: user_by_id_def find_Some_iff)

lemma user_by_id_mem:
  assumes "store_inv lower w" and "u \<in> set (users (tables w))"
  shows "user_by_id (tables w) (u_id u) = Some u"
proof -
  have "distinct (map u_id (users (tables w)))"
    using assms(1) by (simp add: store_inv_def tables_inv_def)
  with find_filter_unique[OF this, of "u_id u"] filter_unique_key[OF this assms(2)]
  show ?thesis by (auto simp: user_by_id_def split: option.splits)
qed

lemma user_by_email_mem:
  assumes "store_inv lower w" and "u \<in> set (users (tables w))" and "lower e = lower (u_email u)"
  shows "user_by_email lower (tables w) e = Some u"
proof -
  have "distinct (map (\<lambda>u. lower (u_email u)) (users (tables w)))"
    using assms(1) by (simp add: store_inv_def tables_inv_def)
  with find_filter_unique[OF this, of "lower (u_email u)"] filter_unique_key[OF this assms(2)] assms(3)
  show ?thesis by (auto simp: user_by_email_def split: option.splits)
qed

text \<open>Emails and passwords of the witnesses.\<close>

lemma demo_emails [simp]:
  "trim_space ''ada@example.com'' = ''ada@example.com''" "trim_space ''bob@example.com'' = ''bob@example.com''"
  "trim_space ''ADA@example.com'' = ''ADA@example.com''"
  by (simp_all add: trim_space_visible visible_def)

lemma demo_lookup [simp]:
  "user_by_email id (empty_tables\<lparr>users := [ada]\<rparr>) ''ada@example.com'' = Some ada"
  "user_by_email id (empty_tables\<lparr>users := [ada]\<rparr>) ''bob@example.com'' = None"
  by (simp_all add: user_by_email_def ada_def)

lemma demo_compare:
  "ComparePasswordAndHash demo_argon2id q (u_password_hash ada) = Inr (q = ''correct-horse'')"
proof -
  have "CreateHash demo_argon2id ''correct-horse'' [] = Inr (u_password_hash ada)"
    by (simp add: demo_argon2id_def ada_def)
  with demo_argon2id_contract show ?thesis by (simp add: argon2id_contract_def)
qed

definition bob_input :: create_input where
  "bob_input = \<lparr>ci_email = ''bob@example.com'', ci_password = ''battery-staple'', ci_name = [],
     ci_roles = None\<rparr>"

lemma bob_input_ok [simp]:
  "trim_space (ci_email bob_input) = ''bob@example.com''"
  "validate_password (ci_password bob_input) = None"
  by (simp_all add: bob_input_def validate_password_def PasswordMinLength_def passwordMaxBytes_def
      rune_count_ascii ascii_def)

subsection \<open>Signing in\<close>

definition hashed :: "world \<Rightarrow> world" where
  "hashed w = w\<lparr>hash_ops := Suc (hash_ops w)\<rparr>"

definition salted :: "world \<Rightarrow> world" where
  "salted w = w\<lparr>rand_reads := Suc (rand_reads w)\<rparr>"

lemma hashed_fields [simp]:
  "tables (hashed w) = tables w" "snapshot (hashed w) = snapshot w"
  "user_seq (hashed w) = user_seq w" "token_seq (hashed w) = token_seq w"
  "db_now (hashed w) = db_now w" "fate (hashed w) = fate w" "calls (hashed w) = calls w"
  "app_now (hashed w) = app_now w" "rand_reads (hashed w) = rand_reads w"
  "entropy (hashed w) = entropy w" "store_inv lower (hashed w) = store_inv lower w"
  "reliable (hashed w) = reliable w" "enqueued (hashed w) = enqueued w" "outbox (hashed w) = outbox w"
  by (simp_all add: hashed_def store_inv_def reliable_def)

lemma salted_fields [simp]:
  "tables (salted w) = tables w" "snapshot (salted w) = snapshot w"
  "user_seq (salted w) = user_seq w" "token_seq (salted w) = token_seq w"
  "db_now (salted w) = db_now w" "fate (salted w) = fate w" "calls (salted w) = calls w"
  "app_now (salted w) = app_now w" "rand_reads (salted w) = Suc (rand_reads w)"
  "entropy (salted w) = entropy w" "store_inv lower (salted w) = store_inv lower w"
  "reliable (salted w) = reliable w" "enqueued (salted w) = enqueued w" "outbox (salted w) = outbox w"
  by (simp_all add: salted_def store_inv_def reliable_def)

definition slot_error :: "string \<Rightarrow> gerr" where
  "slot_error m = errorf ''waiting for a hash slot: '' (External m)"

text \<open>The wait for a slot: it is granted, or the context gives up.\<close>

definition slot_result :: "outcome \<Rightarrow> gerr option" where
  "slot_result out = (case out of Works \<Rightarrow> None | Refused m \<Rightarrow> Some (slot_error m)
     | Lost m \<Rightarrow> Some (slot_error m) | Unacked m \<Rightarrow> Some (slot_error m))"

lemma slot_run:
  "wrapE (errorf ''waiting for a hash slot: '') (external_call id) w =
     (case slot_result (fate w (calls w)) of None \<Rightarrow> Inr () | Some e \<Rightarrow> Inl e, tick w)"
  by (simp add: external_call_def next_call_eq wrapE_def slot_result_def slot_error_def
      split: outcome.split)

lemma compare_password_run:
  "compare_password A p h w =
     (case slot_result (fate w (calls w)) of
        Some e \<Rightarrow> (Inl e, tick w)
      | None \<Rightarrow> (case ComparePasswordAndHash A p h of
          Inl e \<Rightarrow> Inl (errorf ''argon2id compare: '' e) | Inr m \<Rightarrow> Inr m, hashed (tick w)))"
  unfolding compare_password_def bindE_def slot_run
  by (simp add: hashed_def split: option.split sum.split)

lemma hash_password_run:
  "hash_password A p w =
     (case slot_result (fate w (calls w)) of
        Some e \<Rightarrow> (Inl e, tick w)
      | None \<Rightarrow> (case CreateHash A p (entropy w (rand_reads w)) of
          Inl e \<Rightarrow> Inl (errorf ''argon2id hash: '' e) | Inr h \<Rightarrow> Inr h, salted (hashed (tick w))))"
  unfolding hash_password_def bindE_def slot_run
  by (simp add: hashed_def salted_def split: option.split sum.split)

lemma slot_result_Works [simp]: "slot_result Works = None"
  by (simp add: slot_result_def)

lemma keeps_hash_password [keeps_intros]: "keeps (store_inv lower) (hash_password A p)"
  by (auto simp: keeps_def hash_password_run split: option.split)

lemma keeps_hash_fate [keeps_intros]:
  "keeps (\<lambda>w. fate w = F) (hash_password A p)" "keeps (\<lambda>w. fate w = F) (compare_password A p h)"
  by (auto simp: keeps_def hash_password_run compare_password_run split: option.split)

lemma keeps_compare_password [keeps_intros]: "keeps (store_inv lower) (compare_password A p h)"
  by (auto simp: keeps_def compare_password_run split: option.split)

lemma keeps_by_email [keeps_intros]: "keeps (store_inv lower) (by_email_tx (conn lower) e)"
  unfolding by_email_tx_def by (intro keeps_intros) (simp add: keeps_intros)

lemma keeps_by_id [keeps_intros]: "keeps (store_inv lower) (by_id_tx (conn lower) i)"
  unfolding by_id_tx_def by (intro keeps_intros) (simp add: keeps_intros)

lemma keeps_authenticate [keeps_intros]:
  "keeps (store_inv lower) (authenticate_tx A dummy (conn lower) e p)"
  unfolding authenticate_tx_def by (intro keeps_intros)

text \<open>The run of \<open>Authenticate\<close> for an unknown and for a known email.\<close>

lemma authenticate_unknown:
  assumes "store_inv lower w" and "fate w (calls w) = Works"
    and "user_by_email lower (tables w) (trim_space e) = None"
  shows "authenticate lower A dummy e p w =
    (Inl (Sentinel ErrInvalidCredentials), snd (compare_password A p dummy (tick w)))"
  using assms
  by (simp add: authenticate_def authenticate_tx_def bindE_def attempt_def by_email_tx_run
      lookup_result_def split: prod.split)

lemma authenticate_known:
  assumes "store_inv lower w" and "fate w (calls w) = Works"
    and "user_by_email lower (tables w) (trim_space e) = Some u"
  shows "authenticate lower A dummy e p w =
    (case slot_result (fate w (Suc (calls w))) of
       Some err \<Rightarrow> (Inl (errorf ''comparing password hash: '' err), tick (tick w))
     | None \<Rightarrow> (case ComparePasswordAndHash A p (u_password_hash u) of
         Inl err \<Rightarrow> Inl (errorf ''comparing password hash: '' (errorf ''argon2id compare: '' err))
       | Inr matched \<Rightarrow>
           if matched then Inr u else Inl (Sentinel ErrInvalidCredentials), hashed (tick (tick w))))"
  using assms
  by (simp add: authenticate_def authenticate_tx_def bindE_def attempt_def wrapE_def by_email_tx_run
      lookup_result_def compare_password_run split: prod.split option.split sum.split)

lemma authenticate_inr:
  assumes "store_inv lower w" and "authenticate lower A dummy e p w = (Inr u, w')"
  shows "u \<in> set (users (tables w)) \<and> lower (u_email u) = lower (trim_space e) \<and>
    ComparePasswordAndHash A p (u_password_hash u) = Inr True \<and> tables w' = tables w"
proof -
  obtain r where r: "by_email_tx (conn lower) e w = (r, tick w)"
    "r = lookup_result (fate w (calls w)) (user_by_email lower (tables w) (trim_space e))"
    using by_email_tx_run[OF assms(1)] by blast
  have "\<exists>v. r = Inr v"
    using assms(2) r(1)
    by (cases r) (auto simp: authenticate_def authenticate_tx_def bindE_def attempt_def
        split: if_splits prod.splits sum.splits)
  then obtain v where "r = Inr v" by blast
  with r(2) have v: "fate w (calls w) = Works" "user_by_email lower (tables w) (trim_space e) = Some v"
    using lookup_result_Inr by metis+
  show ?thesis
    using assms(2) authenticate_known[OF assms(1) v, of A dummy p] user_by_email_Some[OF v(2)]
    by (auto split: option.splits sum.splits if_splits)
qed

text \<open>
  Authentication is sound however the database and the hash queue behave: a user comes back
  only for an email that belongs to it (up to case) and a password that argon2 accepts against
  its stored hash, and nothing in the tables changes.
\<close>

theorem authenticate_sound:
  assumes "store_inv lower w" and "authenticate lower A dummy e p w = (Inr u, w')"
  shows "u \<in> set (users (tables w)) \<and> lower (u_email u) = lower (trim_space e) \<and>
    ComparePasswordAndHash A p (u_password_hash u) = Inr True \<and> tables w' = tables w"
  using authenticate_inr[OF assms] .

theorem authenticate_sound_witness:
  "\<exists>w'. authenticate id demo_argon2id [] ''ada@example.com'' ''correct-horse'' demo_world = (Inr ada, w') \<and>
     ada \<in> set (users (tables demo_world)) \<and> tables w' = tables demo_world"
proof -
  have "authenticate id demo_argon2id [] ''ada@example.com'' ''correct-horse'' demo_world =
    (Inr ada, hashed (tick (tick demo_world)))"
    by (simp add: authenticate_known[where u = ada] demo_world_inv demo_compare)
  from authenticate_sound[OF demo_world_inv(1) this] this show ?thesis by blast
qed

text \<open>
  C15: The two ways to fail cannot be told apart: with every call working, an unknown email and
  a wrong password give the same error and leave exactly the same world, the number of argon2
  computations and of calls included.
\<close>

theorem authenticate_no_enumeration:
  assumes "store_inv lower w" and "reliable w"
    and "user_by_email lower (tables w) (trim_space unknown) = None"
    and "user_by_email lower (tables w) (trim_space known) = Some u"
    and "ComparePasswordAndHash A q (u_password_hash u) = Inr False"
  shows "authenticate lower A dummy unknown p w = authenticate lower A dummy known q w \<and>
    fst (authenticate lower A dummy known q w) = Inl (Sentinel ErrInvalidCredentials) \<and>
    hash_ops (snd (authenticate lower A dummy known q w)) = Suc (hash_ops w)"
proof -
  have f: "fate w n = Works" for n using assms(2) by (simp add: reliable_def)
  show ?thesis
    unfolding authenticate_unknown[OF assms(1) f assms(3)] authenticate_known[OF assms(1) f assms(4)]
    by (simp add: f assms(5) compare_password_run) (simp add: hashed_def)
qed

theorem authenticate_no_enumeration_witness:
  "authenticate id demo_argon2id [] ''bob@example.com'' ''x'' demo_world =
     authenticate id demo_argon2id [] ''ada@example.com'' ''guess'' demo_world \<and>
   hash_ops (snd (authenticate id demo_argon2id [] ''ada@example.com'' ''guess'' demo_world)) = 1"
  using authenticate_no_enumeration[of id demo_world "''bob@example.com''" "''ada@example.com''" ada
      demo_argon2id "''guess''" "[]" "''x''"]
  by (simp add: demo_world_inv demo_compare)

text \<open>
  C24: The guarantee stops where the hash queue gives up: then an unknown email still gets
  \<open>ErrInvalidCredentials\<close>, because the error of the decoy comparison is dropped, while a
  known email gets an internal error, so the two answers differ.
\<close>

theorem authenticate_slot_timeout_differs:
  assumes "store_inv lower w" and "fate w (calls w) = Works"
    and "fate w (Suc (calls w)) = Refused m"
    and "user_by_email lower (tables w) (trim_space unknown) = None"
    and "user_by_email lower (tables w) (trim_space known) = Some u"
  shows "errors_is (projl (fst (authenticate lower A dummy unknown p w))) ErrInvalidCredentials \<and>
    fst (authenticate lower A dummy known p w) =
      Inl (errorf ''comparing password hash: '' (slot_error m)) \<and>
    \<not> errors_is (errorf ''comparing password hash: '' (slot_error m)) ErrInvalidCredentials"
  unfolding authenticate_unknown[OF assms(1,2,4)] authenticate_known[OF assms(1,2,5)]
  using assms(3) by (simp add: slot_result_def slot_error_def)

theorem authenticate_slot_timeout_differs_witness:
  "let w = demo_world\<lparr>fate := (\<lambda>n. if n = 1 then Refused ''context deadline exceeded'' else Works)\<rparr> in
   errors_is (projl (fst (authenticate id demo_argon2id [] ''bob@example.com'' ''x'' w))) ErrInvalidCredentials \<and>
   fst (authenticate id demo_argon2id [] ''ada@example.com'' ''x'' w) =
     Inl (errorf ''comparing password hash: '' (slot_error ''context deadline exceeded''))"
proof -
  let ?w = "demo_world\<lparr>fate := (\<lambda>n. if n = 1 then Refused ''context deadline exceeded'' else Works)\<rparr>"
  have "store_inv id ?w" using demo_world_inv(1)[of id] by (simp add: store_inv_def)
  moreover have "user_by_email id (tables ?w) ''ada@example.com'' = Some ada"
    "user_by_email id (tables ?w) ''bob@example.com'' = None"
    using demo_lookup by simp_all
  ultimately show ?thesis
    using authenticate_slot_timeout_differs[of id ?w "''context deadline exceeded''" "''bob@example.com''"
        "''ada@example.com''" ada demo_argon2id "[]" "''x''"]
    by (simp add: Let_def)
qed

subsection \<open>Creating an account\<close>

lemma default_name_not_Nil: "email \<noteq> [] \<Longrightarrow> default_name raw email \<noteq> []"
  by (auto simp: default_name_def Let_def split: option.split)

lemma user_row_map_cols:
  "user_to_row_map u ''email'' = Some (VStr (u_email u))"
  "user_to_row_map u ''password_hash'' = Some (VStr (u_password_hash u))"
  "user_to_row_map u ''name'' = (if u_name u = [] then None else Some (VStr (u_name u)))"
  "user_to_row_map u ''roles'' = (if u_roles u = None then None else Some (VStrs (u_roles u)))"
  "user_to_row_map u ''created_at'' = (if u_created_at u = 0 then None else Some (VTime (u_created_at u)))"
  "user_to_row_map u ''updated_at'' = (if u_updated_at u = 0 then None else Some (VTime (u_updated_at u)))"
  unfolding user_to_row_map_def filter_unset_at by simp_all

text \<open>The row the database stores for a model: unset columns take their defaults.\<close>

lemma build_user_row_map:
  "build_user (user_to_row_map u) i now =
     Inr (u\<lparr>u_id := i, u_roles := Some (case u_roles u of None \<Rightarrow> [] | Some rs \<Rightarrow> rs),
            u_created_at := (if u_created_at u = 0 then now else u_created_at u),
            u_updated_at := (if u_updated_at u = 0 then now else u_updated_at u)\<rparr>)"
  by (simp add: build_user_def str_col_def roles_col_def time_col_def user_row_map_cols
      split: option.split)

definition new_user :: "create_input \<Rightarrow> string \<Rightarrow> int \<Rightarrow> int \<Rightarrow> user" where
  "new_user inp hash i now =
     \<lparr>u_id = i, u_email = trim_space (ci_email inp), u_password_hash = hash,
      u_name = default_name (ci_name inp) (trim_space (ci_email inp)),
      u_roles = Some (case ci_roles inp of None \<Rightarrow> [] | Some rs \<Rightarrow> rs),
      u_created_at = now, u_updated_at = now\<rparr>"

definition add_user :: "user \<Rightarrow> world \<Rightarrow> world" where
  "add_user u w = w\<lparr>user_seq := user_seq w + 1,
     tables := (tables w)\<lparr>users := users (tables w) @ [u]\<rparr>\<rparr>"

lemma insert_new_user:
  "insert_user lower (user_to_row_map
      \<lparr>u_id = 0, u_email = trim_space (ci_email inp), u_password_hash = hash,
       u_name = default_name (ci_name inp) (trim_space (ci_email inp)), u_roles = ci_roles inp,
       u_created_at = 0, u_updated_at = 0\<rparr>) w =
     (let u = new_user inp hash (user_seq w) (db_now w) in
      if user_by_email lower (tables w) (trim_space (ci_email inp)) = None
      then (Rows [UserRow u], add_user u w)
      else (RowsErr (PgError ''23505'' email_unique_index), w\<lparr>user_seq := user_seq w + 1\<rparr>))"
  by (auto simp: insert_user_def build_user_row_map new_user_def add_user_def Let_def
      user_by_email_def find_None_iff)

lemma create_inversion:
  assumes "create lower A inp w = (Inr u, w')"
  shows "trim_space (ci_email inp) \<noteq> [] \<and> validate_password (ci_password inp) = None \<and>
    (\<exists>hash w1. hash_password A (ci_password inp) w = (Inr hash, w1) \<and>
       insert_tx scan_user (conn lower) (InsertUser (user_to_row_map
         \<lparr>u_id = 0, u_email = trim_space (ci_email inp), u_password_hash = hash,
          u_name = default_name (ci_name inp) (trim_space (ci_email inp)), u_roles = ci_roles inp,
          u_created_at = 0, u_updated_at = 0\<rparr>)) w1 = (Inr u, w'))"
proof -
  have pre: "trim_space (ci_email inp) \<noteq> []" "validate_password (ci_password inp) = None"
    using assms by (auto simp: create_def create_tx_def Let_def split: if_splits option.splits)
  from assms pre obtain hash w1 where h: "hash_password A (ci_password inp) w = (Inr hash, w1)"
    and "bindE (attempt (insert_tx scan_user (conn lower) (InsertUser (user_to_row_map
         \<lparr>u_id = 0, u_email = trim_space (ci_email inp), u_password_hash = hash,
          u_name = default_name (ci_name inp) (trim_space (ci_email inp)), u_roles = ci_roles inp,
          u_created_at = 0, u_updated_at = 0\<rparr>)))) (\<lambda>r.
          case r of
            Inl err \<Rightarrow>
              if is_email_unique_violation err
              then fail (Wrap [] (Sentinel ErrEmailTaken) ('': '' @ trim_space (ci_email inp)))
              else fail (errorf ''inserting user: '' err)
          | Inr created \<Rightarrow> ret created) w1 = (Inr u, w')"
    unfolding create_def create_tx_def Let_def
    by (simp only: if_False option.case bindE_eq_Inr[where m = "wrapE _ _"] wrapE_eq_Inr) blast
  with pre show ?thesis unfolding bind_attempt_cases by (auto split: if_splits)
qed

lemma create_new_user:
  assumes "create lower A inp w = (Inr u, w')"
  shows "trim_space (ci_email inp) \<noteq> [] \<and> validate_password (ci_password inp) = None \<and>
    user_by_email lower (tables w) (trim_space (ci_email inp)) = None \<and>
    (\<exists>hash salt. CreateHash A (ci_password inp) salt = Inr hash \<and> u = new_user inp hash (user_seq w) (db_now w)) \<and>
    w' = add_user u (tick (salted (hashed (tick w))))"
proof -
  let ?email = "trim_space (ci_email inp)"
  let ?row = "\<lambda>hash. user_to_row_map
      \<lparr>u_id = 0, u_email = ?email, u_password_hash = hash,
       u_name = default_name (ci_name inp) ?email, u_roles = ci_roles inp,
       u_created_at = 0, u_updated_at = 0\<rparr>"
  from create_inversion[OF assms] obtain hash w1 where
    pre: "?email \<noteq> []" "validate_password (ci_password inp) = None" and
    h: "hash_password A (ci_password inp) w = (Inr hash, w1)" and
    i: "insert_tx scan_user (conn lower) (InsertUser (?row hash)) w1 = (Inr u, w')" by blast
  obtain salt where salt: "CreateHash A (ci_password inp) salt = Inr hash"
    "w1 = salted (hashed (tick w))"
    using h by (auto simp: hash_password_run split: option.splits sum.splits)
  obtain r where q: "pg_query lower (InsertUser (?row hash)) w1 = (Inr (Rows [r]), w')"
    and r: "scan_user r = Inr u"
    using i by (auto simp: insert_tx_def find_exactly_one_tx_eq_Inr)
  from r have r: "r = UserRow u" by (cases r) auto
  have "insert_user lower (?row hash) (tick w1) = (Rows [UserRow u], w')"
    using q r by (auto simp: pg_query_def next_call_eq split: outcome.splits prod.splits)
  then have "u = new_user inp hash (user_seq w) (db_now w)"
    "user_by_email lower (tables w) ?email = None" "w' = add_user u (tick w1)"
    using salt(2) unfolding insert_new_user by (auto simp: Let_def split: if_splits)
  with pre salt show ?thesis by auto
qed

lemma create_Inr:
  assumes "store_inv lower w" and "create lower A inp w = (Inr u, w')"
  shows "u_email u = trim_space (ci_email inp) \<and> u_email u \<noteq> [] \<and> u_name u \<noteq> [] \<and>
    validate_password (ci_password inp) = None \<and>
    user_by_email lower (tables w) (u_email u) = None \<and>
    (\<exists>salt. CreateHash A (ci_password inp) salt = Inr (u_password_hash u)) \<and>
    u_id u \<notin> u_id ` set (users (tables w)) \<and>
    tables w' = (tables w)\<lparr>users := users (tables w) @ [u]\<rparr>"
proof -
  from create_new_user[OF assms(2)] obtain hash salt where
    pre: "trim_space (ci_email inp) \<noteq> []" "validate_password (ci_password inp) = None"
      "user_by_email lower (tables w) (trim_space (ci_email inp)) = None"
      "CreateHash A (ci_password inp) salt = Inr hash" "w' = add_user u (tick (salted (hashed (tick w))))"
    and u: "u = new_user inp hash (user_seq w) (db_now w)" by blast
  have "u_id u \<notin> u_id ` set (users (tables w))"
    using assms(1) u by (force simp: new_user_def store_inv_def tables_inv_def)
  with u pre default_name_not_Nil[OF pre(1)] show ?thesis
    by (auto simp: new_user_def add_user_def)
qed

text \<open>
  A created account is what was asked for, however calls fail: when \<open>Create\<close> returns a user,
  the policy accepted the password, the email was free (up to case) and is stored trimmed, the
  hash is argon2's for that password, the name is not empty, the id is fresh, and the row was
  appended to the users with nothing else in the tables changed.
\<close>

theorem create_success:
  assumes "store_inv lower w" and "create lower A inp w = (Inr u, w')"
  shows "u_email u = trim_space (ci_email inp) \<and> u_email u \<noteq> [] \<and> u_name u \<noteq> [] \<and>
    validate_password (ci_password inp) = None \<and>
    user_by_email lower (tables w) (u_email u) = None \<and>
    (\<exists>salt. CreateHash A (ci_password inp) salt = Inr (u_password_hash u)) \<and>
    u_id u \<notin> u_id ` set (users (tables w)) \<and>
    tables w' = (tables w)\<lparr>users := users (tables w) @ [u]\<rparr>"
  using create_Inr[OF assms] .

text \<open>The run of \<open>Create\<close> when every call works and the input is acceptable.\<close>

lemma create_run:
  assumes "reliable w" and "trim_space (ci_email inp) \<noteq> []"
    and "validate_password (ci_password inp) = None"
    and "CreateHash A (ci_password inp) (entropy w (rand_reads w)) = Inr hash"
  shows "create lower A inp w =
    (let w1 = tick (salted (hashed (tick w))); u = new_user inp hash (user_seq w) (db_now w) in
     if user_by_email lower (tables w) (trim_space (ci_email inp)) = None
     then (Inr u, add_user u w1)
     else (Inl (Wrap [] (Sentinel ErrEmailTaken) ('': '' @ trim_space (ci_email inp))),
           w1\<lparr>user_seq := user_seq w1 + 1\<rparr>))"
proof -
  have "hash_password A (ci_password inp) w = (Inr hash, salted (hashed (tick w)))"
    using assms(1,4) by (simp add: hash_password_run reliable_def)
  moreover have "reliable (salted (hashed (tick w)))" using assms(1) by simp
  ultimately show ?thesis
    using assms(2,3) unfolding create_def create_tx_def insert_tx_def find_exactly_one_tx_def
    by (simp add: Let_def bindE_def wrapE_def attempt_def pg_query_reliable insert_new_user
        is_email_unique_violation_def)
qed

lemma bob_created:
  "\<exists>u w'. create id demo_argon2id bob_input demo_world = (Inr u, w') \<and> u_id u = 2 \<and> u_email u = ''bob@example.com''"
proof -
  have "CreateHash demo_argon2id (ci_password bob_input) (entropy demo_world (rand_reads demo_world)) =
    Inr (hex_encode (ci_password bob_input) @ ''$'' @ hex_encode (replicate 32 (chr 0)))"
    by (simp add: demo_argon2id_def)
  from create_run[OF demo_world_inv(2) _ _ this, of id] show ?thesis
    by (simp add: Let_def new_user_def)
qed

theorem create_success_witness:
  "\<exists>u w'. create id demo_argon2id bob_input demo_world = (Inr u, w') \<and>
     users (tables w') = [ada, u] \<and> u_name u \<noteq> []"
proof -
  obtain u w' where "create id demo_argon2id bob_input demo_world = (Inr u, w')"
    using bob_created by blast
  with create_success[OF demo_world_inv(1) this] show ?thesis by auto
qed

text \<open>
  An email taken in any case is refused with \<open>ErrEmailTaken\<close>, and the tables stay as they
  were.
\<close>

theorem create_duplicate_email:
  assumes "store_inv lower w" and "reliable w"
    and "trim_space (ci_email inp) \<noteq> []" and "validate_password (ci_password inp) = None"
    and "CreateHash A (ci_password inp) (entropy w (rand_reads w)) = Inr hash"
    and "v \<in> set (users (tables w))" and "lower (u_email v) = lower (trim_space (ci_email inp))"
  shows "\<exists>e. fst (create lower A inp w) = Inl e \<and> errors_is e ErrEmailTaken \<and>
    tables (snd (create lower A inp w)) = tables w"
proof -
  have "user_by_email lower (tables w) (trim_space (ci_email inp)) = Some v"
    using user_by_email_mem assms(1,6,7) by metis
  with create_run[OF assms(2-5)] show ?thesis by (simp add: Let_def)
qed

theorem create_duplicate_email_witness:
  "\<exists>e. fst (create id demo_argon2id (bob_input\<lparr>ci_email := ''ada@example.com''\<rparr>) demo_world) = Inl e \<and>
     errors_is e ErrEmailTaken"
proof -
  let ?inp = "bob_input\<lparr>ci_email := ''ada@example.com''\<rparr>"
  have "CreateHash demo_argon2id (ci_password ?inp) (entropy demo_world (rand_reads demo_world)) =
    Inr (hex_encode (ci_password bob_input) @ ''$'' @ hex_encode (replicate 32 (chr 0)))"
    by (simp add: demo_argon2id_def)
  from create_duplicate_email[OF demo_world_inv(1,2) _ _ this, of ada id] show ?thesis
    by (auto simp: ada_def)
qed

lemma keeps_create [keeps_intros]: "keeps (store_inv lower) (create_tx A (conn lower) inp)"
  unfolding create_tx_def Let_def by (intro keeps_intros) (simp add: keeps_intros)

lemma add_user_inv:
  assumes "store_inv lower w" and "u_id u = user_seq w" and "user_by_email lower (tables w) (u_email u) = None"
  shows "store_inv lower (add_user u w)"
proof -
  have s: "tables_inv lower (user_seq w + 1) (token_seq w) (snapshot w)"
    using assms(1) by (auto simp: store_inv_def intro: tables_inv_mono)
  have "\<forall>v \<in> set (users (tables w)). lower (u_email v) \<noteq> lower (u_email u)"
    using assms(3) by (auto simp: user_by_email_def find_None_iff)
  with assms(1,2) s show ?thesis
    by (fastforce simp: store_inv_def tables_inv_def add_user_def)
qed

text \<open>
  What was created can sign in: after \<open>Create\<close> returns a user, \<open>Authenticate\<close> with any
  spelling of the email that lower-cases alike returns that user for the password given, and
  \<open>ErrInvalidCredentials\<close> for every other password.
\<close>

theorem create_then_authenticate:
  assumes "argon2id_contract A" and "store_inv lower w" and "reliable w"
    and "create lower A inp w = (Inr u, w')" and "lower (trim_space e) = lower (u_email u)"
  shows "fst (authenticate lower A dummy e q w') =
    (if q = ci_password inp then Inr u else Inl (Sentinel ErrInvalidCredentials))"
proof -
  note c = create_Inr[OF assms(2,4)]
  have inv: "store_inv lower w'"
    using keeps_run[OF keeps_create] assms(2,4) by (auto simp: create_def)
  have rel: "reliable w'"
  proof -
    have "keeps (\<lambda>v. fate v = fate w) (create_tx A (conn lower) inp)"
      unfolding create_tx_def Let_def by (intro keeps_intros) (simp add: keeps_intros)
    from keeps_run[OF this, of w "Inr u" w'] assms(3,4) show ?thesis
      by (simp add: create_def reliable_def)
  qed
  have "u \<in> set (users (tables w'))" using c by simp
  then have known: "user_by_email lower (tables w') (trim_space e) = Some u"
    using user_by_email_mem[OF inv] assms(5) by blast
  have cmp: "ComparePasswordAndHash A q (u_password_hash u) = Inr (q = ci_password inp)"
    using c assms(1) unfolding argon2id_contract_def by blast
  have f: "fate w' n = Works" for n using rel by (simp add: reliable_def)
  show ?thesis unfolding authenticate_known[OF inv f known] by (simp add: f cmp)
qed

theorem create_then_authenticate_witness:
  "\<exists>u w'. create id demo_argon2id bob_input demo_world = (Inr u, w') \<and>
     fst (authenticate id demo_argon2id [] ''bob@example.com'' ''battery-staple'' w') = Inr u \<and>
     fst (authenticate id demo_argon2id [] ''bob@example.com'' ''other'' w') =
       Inl (Sentinel ErrInvalidCredentials)"
proof -
  obtain u w' where c: "create id demo_argon2id bob_input demo_world = (Inr u, w')"
    "u_email u = ''bob@example.com''"
    using bob_created by blast
  have "fst (authenticate id demo_argon2id [] ''bob@example.com'' q w') =
    (if q = ci_password bob_input then Inr u else Inl (Sentinel ErrInvalidCredentials))" for q
    by (rule create_then_authenticate[OF demo_argon2id_contract demo_world_inv c(1)]) (simp add: c(2))
  with c(1) show ?thesis by (simp add: bob_input_def)
qed

end
