(* ===== verification/Reset.thy ===== *)
theory Reset
  imports Users
begin

text \<open>
  \<open>auth/reset.go\<close> with the row model \<open>auth/password_reset_tokens.gen.go\<close>: the reset token's life.
  The cleartext is the base64 of 32 random bytes, the table keeps the hex SHA-256 of it, an hour's
  expiry is set from the process's clock and read against the database's.  \<open>build\<close> is the SQL text
  \<open>pgsql\<close> renders for an error.
\<close>

definition ResetTokenTTL :: int where "ResetTokenTTL = 60 * 60 * 1000000"

definition hash_reset_token :: "(string \<Rightarrow> string) \<Rightarrow> string \<Rightarrow> string" where
  "hash_reset_token sha token = hex_encode (sha token)"

definition token_to_row_map :: "reset_token \<Rightarrow> row_map" where
  "token_to_row_map t =
     filter_unset
       [''user_id'' \<mapsto> VInt (t_user_id t), ''token_hash'' \<mapsto> VStr (t_token_hash t),
        ''expires_at'' \<mapsto> VTime (t_expires_at t), ''used_at'' \<mapsto> VTimePtr (t_used_at t),
        ''created_at'' \<mapsto> VTime (t_created_at t)]
       [''created_at'']"

text \<open>\<open>crypto/rand.Read\<close>, which never fails.\<close>

definition rand_read :: "(world, gerr, string) act" where
  "rand_read = (\<lambda>w. (Inr (entropy w (rand_reads w)), w\<lparr>rand_reads := Suc (rand_reads w)\<rparr>))"

definition create_password_reset_tx ::
  "(string \<Rightarrow> string) \<Rightarrow> (world, stmt, row) queryable \<Rightarrow> string \<Rightarrow> (world, gerr, string \<times> user) act"
where
  "create_password_reset_tx sha tx email =
     bindE (by_email_tx tx email) (\<lambda>user.
     bindE (wrapE (errorf ''generating reset token: '') rand_read) (\<lambda>raw.
     let token = base64_encode raw in
     bindE (gets app_now) (\<lambda>now.
     let row = \<lparr>t_id = 0, t_user_id = u_id user, t_token_hash = hash_reset_token sha token,
                t_expires_at = now + ResetTokenTTL, t_used_at = None, t_created_at = 0\<rparr> in
     bindE (wrapE (errorf ''inserting reset token: '')
         (insert_tx scan_token tx (InsertResetToken (token_to_row_map row)))) (\<lambda>_.
     ret (token, user)))))"

definition live_reset_token_tx ::
  "(string \<Rightarrow> string) \<Rightarrow> (world, stmt, row) queryable \<Rightarrow> string \<Rightarrow> (world, gerr, reset_token) act" where
  "live_reset_token_tx sha tx token =
     bindE (attempt (find_exactly_one_tx scan_token tx (SelectLiveToken (hash_reset_token sha token)))) (\<lambda>r.
     case r of
       Inl err \<Rightarrow>
         if errors_is err ErrNotFound then fail (Sentinel ErrResetTokenInvalid) else fail err
     | Inr row \<Rightarrow> ret row)"

definition check_reset_token_tx ::
  "(string \<Rightarrow> string) \<Rightarrow> (world, stmt, row) queryable \<Rightarrow> string \<Rightarrow> (world, gerr, unit) act" where
  "check_reset_token_tx sha tx token = bindE (live_reset_token_tx sha tx token) (\<lambda>_. ret ())"

definition reset_password_tx ::
  "(string \<Rightarrow> string) \<Rightarrow> argon2id \<Rightarrow> (stmt \<Rightarrow> string) \<Rightarrow> (world, stmt, row) queryable \<Rightarrow>
   string \<Rightarrow> string \<Rightarrow> (world, gerr, user) act"
where
  "reset_password_tx sha A build tx token password =
     (case validate_password password of
        Some e \<Rightarrow> fail (Sentinel e)
      | None \<Rightarrow>
          bindE (live_reset_token_tx sha tx token) (\<lambda>row.
          bindE (wrapE (errorf ''hashing password: '') (hash_password A password)) (\<lambda>hash.
          bindE (wrapE (errorf ''updating password: '')
              (update_tx build tx (SetPassword (t_user_id row) hash))) (\<lambda>_.
          bindE (wrapE (errorf ''retiring reset tokens: '')
              (update_tx build tx (RetireTokens (t_user_id row)))) (\<lambda>_.
          by_id_tx tx (t_user_id row))))))"

text \<open>\<open>auth/conn.gen.go\<close>: the same operations on the pool.\<close>

definition create_password_reset ::
  "(string \<Rightarrow> string) \<Rightarrow> (string \<Rightarrow> string) \<Rightarrow> string \<Rightarrow> (world, gerr, string \<times> user) act" where
  "create_password_reset lower sha email = create_password_reset_tx sha (conn lower) email"

definition check_reset_token ::
  "(string \<Rightarrow> string) \<Rightarrow> (string \<Rightarrow> string) \<Rightarrow> string \<Rightarrow> (world, gerr, unit) act" where
  "check_reset_token lower sha token = check_reset_token_tx sha (conn lower) token"

definition reset_password ::
  "(string \<Rightarrow> string) \<Rightarrow> (string \<Rightarrow> string) \<Rightarrow> argon2id \<Rightarrow> (stmt \<Rightarrow> string) \<Rightarrow> string \<Rightarrow> string \<Rightarrow>
   (world, gerr, user) act" where
  "reset_password lower sha A build token password =
     reset_password_tx sha A build (conn lower) token password"

subsection \<open>Looking a token up\<close>

definition live_token :: "(string \<Rightarrow> string) \<Rightarrow> world \<Rightarrow> string \<Rightarrow> reset_token option" where
  "live_token sha w token =
     find (\<lambda>t. t_token_hash t = hash_reset_token sha token \<and> live_at (db_now w) t)
       (password_reset_tokens (tables w))"

lemma find_filter_unique_pred:
  assumes "distinct (map f xs)"
  shows "filter (\<lambda>x. f x = k \<and> P x) xs =
    (case find (\<lambda>x. f x = k \<and> P x) xs of None \<Rightarrow> [] | Some x \<Rightarrow> [x])"
  using assms
proof (induction xs)
  case (Cons x xs)
  show ?case
  proof (cases "f x = k \<and> P x")
    case True
    with Cons.prems have "filter (\<lambda>x. f x = k \<and> P x) xs = []"
      by (auto simp: filter_empty_conv image_iff)
    with True show ?thesis by simp
  qed (use Cons in auto)
qed simp

lemma rows_of_live_token:
  assumes "store_inv lower w"
  shows "run_stmt lower (SelectLiveToken (hash_reset_token sha token)) w =
    (Rows (case live_token sha w token of None \<Rightarrow> [] | Some t \<Rightarrow> [TokenRow t]),
     tag TagSelect (case live_token sha w token of None \<Rightarrow> 0 | Some t \<Rightarrow> 1), w)"
proof -
  have "distinct (map t_token_hash (password_reset_tokens (tables w)))"
    using assms by (simp add: store_inv_def tables_inv_def)
  from find_filter_unique_pred[OF this, of "hash_reset_token sha token" "live_at (db_now w)"]
  show ?thesis by (simp add: live_token_def Let_def split: option.split)
qed

text \<open>The one error for a token that is unknown, expired or used.\<close>

definition token_result :: "outcome \<Rightarrow> 'a option \<Rightarrow> gerr + 'a" where
  "token_result out found =
     (case lookup_result out found of
        Inl e \<Rightarrow> Inl (if errors_is e ErrNotFound then Sentinel ErrResetTokenInvalid else e)
      | Inr t \<Rightarrow> Inr t)"

lemma live_token_tick [simp]: "live_token sha (tick w) token = live_token sha w token"
  by (simp add: live_token_def)

lemma live_reset_token_tx_run:
  assumes "store_inv lower w"
  shows "live_reset_token_tx sha (conn lower) token w =
    (token_result (fate w (calls w)) (live_token sha w token), tick w)"
proof -
  have "store_inv lower (tick w)" using assms by simp
  from rows_of_live_token[OF this] show ?thesis
    by (cases "fate w (calls w)"; cases "live_token sha w token")
      (simp_all add: live_reset_token_tx_def find_exactly_one_tx_def pg_query_def next_call_eq
        bindE_def wrapE_def attempt_def token_result_def lookup_result_def not_found_def)
qed

lemma token_result_Inr: "token_result out found = Inr t \<longleftrightarrow> out = Works \<and> found = Some t"
  by (auto simp: token_result_def lookup_result_def split: outcome.splits option.splits)

lemma live_token_Some:
  "live_token sha w token = Some t \<Longrightarrow> t \<in> set (password_reset_tokens (tables w)) \<and>
     t_token_hash t = hash_reset_token sha token \<and> live_at (db_now w) t"
  by (auto simp: live_token_def find_Some_iff)

lemma live_token_mem:
  assumes "store_inv lower w" and "t \<in> set (password_reset_tokens (tables w))"
    and "t_token_hash t = hash_reset_token sha token" and "live_at (db_now w) t"
  shows "live_token sha w token = Some t"
proof -
  have d: "distinct (map t_token_hash (password_reset_tokens (tables w)))"
    using assms(1) by (simp add: store_inv_def tables_inv_def)
  let ?P = "\<lambda>t. t_token_hash t = hash_reset_token sha token \<and> live_at (db_now w) t"
  have "t \<in> set (filter ?P (password_reset_tokens (tables w)))" using assms by simp
  then show ?thesis
    unfolding find_filter_unique_pred[OF d] live_token_def by (auto split: option.splits)
qed

lemma keeps_rand_read [keeps_intros]:
  "(\<And>w. I w \<Longrightarrow> I (w\<lparr>rand_reads := Suc (rand_reads w)\<rparr>)) \<Longrightarrow> keeps I rand_read"
  by (simp add: keeps_def rand_read_def)

subsection \<open>Invariants\<close>

lemma keeps_live_reset_token [keeps_intros]:
  "keeps (store_inv lower) (live_reset_token_tx sha (conn lower) token)"
  unfolding live_reset_token_tx_def by (intro keeps_intros) (simp add: keeps_intros)

lemma keeps_check_reset_token [keeps_intros]:
  "keeps (store_inv lower) (check_reset_token_tx sha (conn lower) token)"
  unfolding check_reset_token_tx_def by (intro keeps_intros)

lemma keeps_create_password_reset [keeps_intros]:
  "keeps (store_inv lower) (create_password_reset_tx sha (conn lower) email)"
  unfolding create_password_reset_tx_def Let_def
  by (intro keeps_intros) (simp_all add: keeps_intros store_inv_def)

lemma keeps_reset_password [keeps_intros]:
  "keeps (store_inv lower) (reset_password_tx sha A build (conn lower) token password)"
  unfolding reset_password_tx_def by (intro keeps_intros) (simp_all add: keeps_intros)

text \<open>Inside a transaction: nothing here begins, commits or rolls back.\<close>

lemma keeps_snapshot_stmt [keeps_intros]:
  "keeps (\<lambda>w. snapshot w = d) (pg_query lower q)" "keeps (\<lambda>w. snapshot w = d) (pg_exec lower q)"
  using pg.keeps_query[where lower = lower] pg.keeps_exec[where lower = lower] by simp_all

lemma keeps_snapshot_hash [keeps_intros]:
  "keeps (\<lambda>w. snapshot w = d) (hash_password A p)"
  by (auto simp: keeps_def hash_password_run split: option.split)

lemma keeps_snapshot_by_id [keeps_intros]:
  "keeps (\<lambda>w. snapshot w = d) (by_id_tx (conn lower) i)"
  unfolding by_id_tx_def by (intro keeps_intros) (simp add: keeps_intros)

lemma reset_password_inside:
  "pg.inside (reset_password_tx sha A build (conn lower) token password)"
  unfolding reset_password_tx_def live_reset_token_tx_def
  by (intro pg.insideI keeps_intros) (simp_all add: keeps_intros)

subsection \<open>Issuing a token\<close>

lemma token_row_map_cols:
  "token_to_row_map t ''user_id'' = Some (VInt (t_user_id t))"
  "token_to_row_map t ''token_hash'' = Some (VStr (t_token_hash t))"
  "token_to_row_map t ''expires_at'' = Some (VTime (t_expires_at t))"
  "token_to_row_map t ''used_at'' = Some (VTimePtr (t_used_at t))"
  "token_to_row_map t ''created_at'' = (if t_created_at t = 0 then None else Some (VTime (t_created_at t)))"
  unfolding token_to_row_map_def filter_unset_at by simp_all

lemma build_token_row_map:
  "build_token (token_to_row_map t) i now =
     Inr (t\<lparr>t_id := i, t_created_at := (if t_created_at t = 0 then now else t_created_at t)\<rparr>)"
  by (simp add: build_token_def str_col_def int_col_def time_col_def used_col_def token_row_map_cols)

definition new_token :: "(string \<Rightarrow> string) \<Rightarrow> world \<Rightarrow> user \<Rightarrow> reset_token" where
  "new_token sha w u =
     \<lparr>t_id = token_seq w, t_user_id = u_id u,
      t_token_hash = hash_reset_token sha (base64_encode (entropy w (rand_reads w))),
      t_expires_at = app_now w + ResetTokenTTL, t_used_at = None, t_created_at = db_now w\<rparr>"

definition add_token :: "reset_token \<Rightarrow> world \<Rightarrow> world" where
  "add_token t w = w\<lparr>token_seq := token_seq w + 1, tables := (tables w)
     \<lparr>password_reset_tokens := password_reset_tokens (tables w) @ [t]\<rparr>\<rparr>"

lemma create_password_reset_Inr:
  assumes "store_inv lower w" and "create_password_reset lower sha email w = (Inr (token, u), w')"
  shows "user_by_email lower (tables w) (trim_space email) = Some u \<and>
    token = base64_encode (entropy w (rand_reads w)) \<and> w' = add_token (new_token sha w u) (tick (salted (tick w)))"
proof -
  let ?row = "\<lambda>v. \<lparr>t_id = 0, t_user_id = u_id v,
    t_token_hash = hash_reset_token sha (base64_encode (entropy w (rand_reads w))),
    t_expires_at = app_now w + ResetTokenTTL, t_used_at = None, t_created_at = 0\<rparr>"
  obtain v where v: "lookup_result (fate w (calls w)) (user_by_email lower (tables w) (trim_space email)) = Inr v"
    and t: "token = base64_encode (entropy w (rand_reads w))" and "u = v" and
    i: "\<exists>t. insert_tx scan_token (conn lower) (InsertResetToken (token_to_row_map (?row v)))
      (salted (tick w)) = (Inr t, w')"
    using assms(2) unfolding create_password_reset_def create_password_reset_tx_def
    by (auto simp: Let_def bindE_eq_Inr by_email_tx_run[OF assms(1)] rand_read_def salted_def
        gets_def)
  from i obtain r where q:
    "pg_query lower (InsertResetToken (token_to_row_map (?row v))) (salted (tick w)) = (Inr (Rows [r]), w')"
    by (auto simp: insert_tx_def find_exactly_one_tx_eq_Inr)
  have "insert_token (token_to_row_map (?row v)) (tick (salted (tick w))) = (Rows [r], w')"
    using q by (auto simp: pg_query_def next_call_eq split: outcome.splits prod.splits)
  then have "w' = add_token (new_token sha w v) (tick (salted (tick w)))"
    by (auto simp: insert_token_def build_token_row_map new_token_def add_token_def Let_def
        split: if_splits)
  with v t \<open>u = v\<close> lookup_result_Inr[OF v] show ?thesis by simp
qed

text \<open>
  An issued token, however calls fail: it belongs to the account behind the email, it is 43
  URL-safe characters, and what is stored is its digest, unused, with an hour to live; nothing
  else in the tables changes.
\<close>

theorem create_password_reset_success:
  assumes "store_inv lower w" and "create_password_reset lower sha email w = (Inr (token, u), w')"
    and "length (entropy w (rand_reads w)) = 32"
  shows "u \<in> set (users (tables w)) \<and> lower (u_email u) = lower (trim_space email) \<and>
    length token = 43 \<and> set token \<subseteq> set b64_alphabet \<and>
    (\<exists>t. tables w' = (tables w)\<lparr>password_reset_tokens := password_reset_tokens (tables w) @ [t]\<rparr> \<and>
       t_user_id t = u_id u \<and> t_token_hash t = hex_encode (sha token) \<and> t_used_at t = None \<and>
       t_expires_at t = app_now w + 3600000000)"
proof -
  note c = create_password_reset_Inr[OF assms(1,2)]
  have "tables w' = (tables w)\<lparr>password_reset_tokens := password_reset_tokens (tables w) @ [new_token sha w u]\<rparr>"
    using c by (simp add: add_token_def)
  moreover have "t_user_id (new_token sha w u) = u_id u"
    "t_token_hash (new_token sha w u) = hex_encode (sha token)" "t_used_at (new_token sha w u) = None"
    "t_expires_at (new_token sha w u) = app_now w + 3600000000"
    using c by (simp_all add: new_token_def hash_reset_token_def ResetTokenTTL_def)
  moreover have "length token = 43" "set token \<subseteq> set b64_alphabet"
    using c assms(3) base64_alphabet by (simp_all add: length_base64)
  ultimately show ?thesis using c user_by_email_Some by blast
qed

lemma check_reset_token_run:
  assumes "store_inv lower w" and "fate w (calls w) = Works"
  shows "check_reset_token lower sha token w =
    (if live_token sha w token = None then Inl (Sentinel ErrResetTokenInvalid) else Inr (), tick w)"
  unfolding check_reset_token_def check_reset_token_tx_def bindE_def
    live_reset_token_tx_run[OF assms(1)]
  by (auto simp: assms(2) token_result_def lookup_result_def split: option.splits)

text \<open>
  C21: The link works for exactly its hour: once the token is issued, \<open>CheckResetToken\<close> accepts it
  at a database time \<open>now\<close> if and only if \<open>now\<close> is before the time of issue (on the process's
  clock) plus one hour, and answers \<open>ErrResetTokenInvalid\<close> otherwise.
\<close>

theorem reset_token_lifetime:
  assumes "store_inv lower w" and "reliable w"
    and "create_password_reset lower sha email w = (Inr (token, u), w')"
  shows "fst (check_reset_token lower sha token (w'\<lparr>db_now := now\<rparr>)) =
    (if now < app_now w + 3600000000 then Inr () else Inl (Sentinel ErrResetTokenInvalid))"
proof -
  let ?w = "w'\<lparr>db_now := now\<rparr>" and ?t = "new_token sha w u"
  note c = create_password_reset_Inr[OF assms(1,3)]
  have "store_inv lower w'"
    using keeps_run[OF keeps_create_password_reset assms(3)[unfolded create_password_reset_def]
        assms(1)] .
  then have inv: "store_inv lower ?w" by (simp add: store_inv_def)
  have t: "?t \<in> set (password_reset_tokens (tables ?w))" using c by (simp add: add_token_def)
  have h: "t_token_hash ?t = hash_reset_token sha token" using c by (simp add: new_token_def)
  have live: "live_at n ?t \<longleftrightarrow> n < app_now w + 3600000000" for n
    by (auto simp: live_at_def new_token_def ResetTokenTTL_def)
  have "live_token sha ?w token = None \<longleftrightarrow> \<not> now < app_now w + 3600000000"
  proof
    assume "live_token sha ?w token = None"
    with live_token_mem[OF inv t h] live show "\<not> now < app_now w + 3600000000" by auto
  next
    assume n: "\<not> now < app_now w + 3600000000"
    show "live_token sha ?w token = None"
    proof (rule ccontr)
      assume "live_token sha ?w token \<noteq> None"
      then obtain s where s: "live_token sha ?w token = Some s" by blast
      have "distinct (map t_token_hash (password_reset_tokens (tables ?w)))"
        using inv by (simp add: store_inv_def tables_inv_def)
      then have "s = ?t"
        using live_token_Some[OF s] t h by (metis distinct_map inj_on_eq_iff)
      with live_token_Some[OF s] live n show False by simp
    qed
  qed
  moreover have "fate ?w (calls ?w) = Works"
    using c assms(2) by (simp add: add_token_def reliable_def)
  ultimately show ?thesis by (simp add: check_reset_token_run[OF inv])
qed

text \<open>A link issued to the demo user.\<close>

definition link_world :: "(string \<Rightarrow> string) \<Rightarrow> world" where
  "link_world sha = add_token (new_token sha demo_world ada) (tick (salted (tick demo_world)))"

definition demo_token :: string where
  "demo_token = base64_encode (replicate 32 (chr 0))"

lemma link_issued:
  "create_password_reset id sha ''ada@example.com'' demo_world = (Inr (demo_token, ada), link_world sha)"
proof -
  have "reliable (salted (tick demo_world))" by (simp add: demo_world_inv)
  moreover have "insert_token (token_to_row_map \<lparr>t_id = 0, t_user_id = u_id ada,
      t_token_hash = hash_reset_token sha demo_token, t_expires_at = app_now demo_world + ResetTokenTTL,
      t_used_at = None, t_created_at = 0\<rparr>) (tick (salted (tick demo_world))) =
    (Rows [TokenRow (new_token sha demo_world ada)], link_world sha)"
    by (simp add: insert_token_def build_token_row_map link_world_def add_token_def new_token_def
        Let_def demo_token_def empty_tables_def)
  ultimately show ?thesis
    by (simp add: create_password_reset_def create_password_reset_tx_def insert_tx_def
        find_exactly_one_tx_def bindE_def wrapE_def by_email_tx_run demo_world_inv lookup_result_def
        rand_read_def Let_def pg_query_reliable demo_token_def flip: salted_def)
qed

theorem create_password_reset_success_witness:
  "create_password_reset id id ''ada@example.com'' demo_world = (Inr (demo_token, ada), link_world id) \<and>
   length demo_token = 43 \<and>
   (\<exists>t. password_reset_tokens (tables (link_world id)) = [t] \<and> t_token_hash t = hex_encode (id demo_token))"
  using create_password_reset_success[OF demo_world_inv(1) link_issued[of id]] link_issued[of id]
  by (auto simp: empty_tables_def)

theorem reset_token_lifetime_witness:
  "fst (check_reset_token id id demo_token (link_world id\<lparr>db_now := 3600999999\<rparr>)) = Inr () \<and>
   fst (check_reset_token id id demo_token (link_world id\<lparr>db_now := 3601000000\<rparr>)) =
     Inl (Sentinel ErrResetTokenInvalid)"
  using reset_token_lifetime[OF demo_world_inv link_issued[of id]] by simp

subsection \<open>Consuming a token\<close>

lemma update_tx_Inr:
  assumes "update_tx build (conn lower) q w = (Inr n, w')"
  shows "w' = after_stmt lower q (tick w)"
  using assms unfolding update_tx_def bindE_eq_Inr conn_simps
  by (auto simp: pg_exec_def next_call_eq split: outcome.splits prod.splits rows.splits if_splits)

text \<open>What a reset makes of the tables.\<close>

definition reset_tables :: "int \<Rightarrow> string \<Rightarrow> int \<Rightarrow> tables \<Rightarrow> tables" where
  "reset_tables uid hash now T =
     T\<lparr>users := map (set_password uid hash now) (users T),
       password_reset_tokens := map (retire uid now) (password_reset_tokens T)\<rparr>"

lemma reset_password_Inr:
  assumes "store_inv lower w" and "reset_password lower sha A build token pw w = (Inr u, w')"
  shows "\<exists>t hash salt. validate_password pw = None \<and> live_token sha w token = Some t \<and>
    CreateHash A pw salt = Inr hash \<and> tables w' = reset_tables (t_user_id t) hash (db_now w) (tables w) \<and>
    db_now w' = db_now w \<and> u \<in> set (users (tables w')) \<and> u_id u = t_user_id t"
proof -
  have valid: "validate_password pw = None"
    using assms(2) by (auto simp: reset_password_def reset_password_tx_def split: option.splits)
  obtain t where t: "live_token sha w token = Some t" and rest:
    "bindE (wrapE (errorf ''hashing password: '') (hash_password A pw)) (\<lambda>hash.
      bindE (wrapE (errorf ''updating password: '')
        (update_tx build (conn lower) (SetPassword (t_user_id t) hash))) (\<lambda>_.
      bindE (wrapE (errorf ''retiring reset tokens: '')
        (update_tx build (conn lower) (RetireTokens (t_user_id t)))) (\<lambda>_.
      by_id_tx (conn lower) (t_user_id t)))) (tick w) = (Inr u, w')"
    using assms(2) valid unfolding reset_password_def reset_password_tx_def
    by (auto simp: bindE_eq_Inr[where m = "live_reset_token_tx _ _ _"]
        live_reset_token_tx_run[OF assms(1)] token_result_Inr)
  from rest obtain hash w2 n w3 n' w4 where
    h: "hash_password A pw (tick w) = (Inr hash, w2)" and
    u1: "update_tx build (conn lower) (SetPassword (t_user_id t) hash) w2 = (Inr n, w3)" and
    u2: "update_tx build (conn lower) (RetireTokens (t_user_id t)) w3 = (Inr n', w4)" and
    b: "by_id_tx (conn lower) (t_user_id t) w4 = (Inr u, w')"
    by (auto simp: bindE_eq_Inr)
  obtain salt where salt: "CreateHash A pw salt = Inr hash" "w2 = salted (hashed (tick (tick w)))"
    using h by (auto simp: hash_password_run split: option.splits sum.splits)
  have inv2: "store_inv lower w2" using salt(2) assms(1) by simp
  have k: "keeps (store_inv lower) (update_tx build (conn lower) q)" for q
    by (intro keeps_intros) (simp add: keeps_intros)
  have inv4: "store_inv lower w4"
    using keeps_run[OF k u2 keeps_run[OF k u1 inv2]] .
  have w: "tables w4 = reset_tables (t_user_id t) hash (db_now w) (tables w)" "db_now w4 = db_now w"
    using salt(2) update_tx_Inr[OF u1] update_tx_Inr[OF u2] by (simp_all add: reset_tables_def)
  from b have "user_by_id (tables w4) (t_user_id t) = Some u" "w' = tick w4"
    by (auto simp: by_id_tx_run[OF inv4] dest: lookup_result_Inr)
  with valid t salt w user_by_id_Some show ?thesis by fastforce
qed

text \<open>
  C14: A successful reset, however calls fail: the policy accepted the password, the token was
  live, and its owner is the user returned, whose stored hash is argon2's for the new password.
  Every other account, and every token of every other account, is as before; every token of this
  user is used, and no account or token appears or disappears.
\<close>

theorem reset_password_success:
  assumes "store_inv lower w" and "reset_password lower sha A build token pw w = (Inr u, w')"
  shows "validate_password pw = None \<and>
    (\<exists>t \<in> set (password_reset_tokens (tables w)). t_token_hash t = hash_reset_token sha token \<and>
       live_at (db_now w) t \<and> t_user_id t = u_id u) \<and>
    (\<exists>salt. CreateHash A pw salt = Inr (u_password_hash u)) \<and>
    map u_id (users (tables w')) = map u_id (users (tables w)) \<and>
    filter (\<lambda>v. u_id v \<noteq> u_id u) (users (tables w')) = filter (\<lambda>v. u_id v \<noteq> u_id u) (users (tables w)) \<and>
    filter (\<lambda>s. t_user_id s \<noteq> u_id u) (password_reset_tokens (tables w')) =
      filter (\<lambda>s. t_user_id s \<noteq> u_id u) (password_reset_tokens (tables w)) \<and>
    map t_id (password_reset_tokens (tables w')) = map t_id (password_reset_tokens (tables w)) \<and>
    (\<forall>s \<in> set (password_reset_tokens (tables w')). t_user_id s = u_id u \<longrightarrow> t_used_at s \<noteq> None)"
proof -
  obtain t hash salt where r: "validate_password pw = None" "live_token sha w token = Some t"
    "CreateHash A pw salt = Inr hash" "tables w' = reset_tables (t_user_id t) hash (db_now w) (tables w)"
    "u \<in> set (users (tables w'))" "u_id u = t_user_id t"
    using reset_password_Inr[OF assms] by blast
  have other_users: "filter (\<lambda>v. u_id v \<noteq> i) (map (set_password i hash n) us) =
      filter (\<lambda>v. u_id v \<noteq> i) us" for i n us
    by (induction us) (auto simp: set_password_def)
  have other_tokens: "filter (\<lambda>s. t_user_id s \<noteq> i) (map (retire i n) ts) =
      filter (\<lambda>s. t_user_id s \<noteq> i) ts" for i n ts
    by (induction ts) (auto simp: retire_def)
  have "u_password_hash u = hash"
    using r(4-6) by (auto simp: reset_tables_def set_password_def split: if_splits)
  moreover have "t_used_at (retire i n s) \<noteq> None" if "t_user_id s = i" for i n s
    using that by (auto simp: retire_def)
  ultimately show ?thesis
    using r live_token_Some[OF r(2)]
    by (auto simp: reset_tables_def other_users other_tokens comp_def)
qed

text \<open>When every call works and the token is live, the reset returns the account.\<close>

lemma reset_password_run:
  assumes "store_inv lower w" and "reliable w" and "validate_password pw = None"
    and "live_token sha w token = Some t" and "CreateHash A pw (entropy w (rand_reads w)) = Inr hash"
  shows "\<exists>u w'. reset_password lower sha A build token pw w = (Inr u, w')"
proof -
  let ?i = "t_user_id t"
  define w2 where "w2 = salted (hashed (tick (tick w)))"
  define w3 where "w3 = after_stmt lower (SetPassword ?i hash) (tick w2)"
  define w4 where "w4 = after_stmt lower (RetireTokens ?i) (tick w3)"
  have rel: "reliable w2" "reliable w3" "reliable w4"
    using assms(2) by (simp_all add: w2_def w3_def w4_def del: run_stmt.simps)
  have inv2: "store_inv lower w2" using assms(1) by (simp add: w2_def)
  then have inv: "store_inv lower w4"
    unfolding w4_def w3_def by (intro after_stmt_inv) (simp add: after_stmt_inv del: run_stmt.simps)
  have "?i \<in> u_id ` set (users (tables w))"
    using assms(1) live_token_Some[OF assms(4)] by (auto simp: store_inv_def tables_inv_def)
  then have "?i \<in> u_id ` set (users (tables w4))"
    by (force simp: w4_def w3_def w2_def image_image)
  then obtain u where "u \<in> set (users (tables w4))" "u_id u = ?i" by auto
  then have u: "user_by_id (tables w4) ?i = Some u" using user_by_id_mem[OF inv] by metis
  have "hash_password A pw (tick w) = (Inr hash, w2)"
    using assms(2,5) by (simp add: hash_password_run reliable_def w2_def)
  moreover obtain n where "update_tx build (conn lower) (SetPassword ?i hash) w2 = (Inr n, w3)"
    using rel by (auto simp: update_tx_def bindE_def pg_exec_reliable w3_def tag_def)
  moreover obtain n' where "update_tx build (conn lower) (RetireTokens ?i) w3 = (Inr n', w4)"
    using rel by (auto simp: update_tx_def bindE_def pg_exec_reliable w4_def tag_def)
  moreover have "by_id_tx (conn lower) ?i w4 = (Inr u, tick w4)"
    using rel u by (simp add: by_id_tx_run[OF inv] lookup_result_def reliable_def)
  moreover have "live_reset_token_tx sha (conn lower) token w = (Inr t, tick w)"
    using assms(2,4) by (simp add: live_reset_token_tx_run[OF assms(1)] token_result_Inr reliable_def)
  ultimately have "reset_password lower sha A build token pw w = (Inr u, tick w4)"
    unfolding reset_password_def reset_password_tx_def by (simp add: assms(3) bindE_def wrapE_def)
  then show ?thesis by blast
qed

lemma link_world_ok:
  "store_inv id (link_world sha)" "reliable (link_world sha)"
  "live_token sha (link_world sha) demo_token = Some (new_token sha demo_world ada)"
  "tables (link_world sha) = empty_tables\<lparr>users := [ada], password_reset_tokens := [new_token sha demo_world ada]\<rparr>"
proof -
  show "store_inv id (link_world sha)"
    using keeps_run[OF keeps_create_password_reset
        link_issued[of sha, unfolded create_password_reset_def] demo_world_inv(1)] .
  show "reliable (link_world sha)" by (simp add: link_world_def add_token_def reliable_def)
  show "live_token sha (link_world sha) demo_token = Some (new_token sha demo_world ada)"
    by (simp add: live_token_def link_world_def add_token_def new_token_def demo_token_def
        empty_tables_def live_at_def ResetTokenTTL_def)
  show "tables (link_world sha) = empty_tables\<lparr>users := [ada], password_reset_tokens := [new_token sha demo_world ada]\<rparr>"
    by (simp add: link_world_def add_token_def empty_tables_def)
qed

lemma new_password_ok [simp]: "validate_password ''new-password'' = None"
  by (simp add: validate_password_def PasswordMinLength_def passwordMaxBytes_def rune_count_ascii
      ascii_def)

lemma link_used:
  obtains u w' where "reset_password id sha demo_argon2id build demo_token ''new-password'' (link_world sha) = (Inr u, w')"
    "u_id u = 1" "u_email u = ''ada@example.com''"
proof -
  have "CreateHash demo_argon2id ''new-password'' s = Inr (hex_encode ''new-password'' @ ''$'' @ hex_encode s)" for s
    by (simp add: demo_argon2id_def)
  from reset_password_run[OF link_world_ok(1,2) new_password_ok link_world_ok(3) this]
  obtain u w' where r: "reset_password id sha demo_argon2id build demo_token ''new-password'' (link_world sha) = (Inr u, w')"
    by blast
  from reset_password_Inr[OF link_world_ok(1) r]
  have "u_id u = 1" "u_email u = ''ada@example.com''"
    by (auto simp: link_world_ok reset_tables_def new_token_def ada_def)
  with r that show thesis by blast
qed

theorem reset_password_success_witness:
  "\<exists>u w'. reset_password id id demo_argon2id (\<lambda>q. []) demo_token ''new-password'' (link_world id) = (Inr u, w') \<and>
     u_id u = 1 \<and> (\<forall>s \<in> set (password_reset_tokens (tables w')). t_user_id s = 1 \<longrightarrow> t_used_at s \<noteq> None)"
proof (rule link_used[where sha = id and build = "\<lambda>q. []"])
  fix u w'
  assume r: "reset_password id id demo_argon2id (\<lambda>q. []) demo_token ''new-password'' (link_world id) = (Inr u, w')"
    "u_id u = 1"
  with reset_password_success[OF link_world_ok(1) r(1)] show ?thesis by auto
qed

lemma keeps_fate_reset [keeps_intros]:
  "keeps (\<lambda>w. fate w = F) (reset_password_tx sha A build (conn lower) token pw)"
  unfolding reset_password_tx_def live_reset_token_tx_def by_id_tx_def
  by (intro keeps_intros) (simp_all add: keeps_intros)

lemma reset_password_keeps:
  assumes "store_inv lower w" and "reset_password lower sha A build token pw w = (r, w')"
  shows "store_inv lower w'" and "fate w' = fate w"
proof -
  note run = assms(2)[unfolded reset_password_def]
  show "store_inv lower w'" using keeps_run[OF keeps_reset_password run assms(1)] .
  show "fate w' = fate w" using keeps_run[OF keeps_fate_reset[where F = "fate w"] run] by simp
qed

text \<open>The refusal of a token that is not live, before any argon2 work.\<close>

lemma reset_password_dead_run:
  assumes "store_inv lower w" and "fate w (calls w) = Works"
    and "validate_password pw = None" and "live_token sha w token = None"
  shows "reset_password lower sha A build token pw w = (Inl (Sentinel ErrResetTokenInvalid), tick w)"
  using assms(2-4)
  by (simp add: reset_password_def reset_password_tx_def bindE_def live_reset_token_tx_run[OF assms(1)]
      token_result_def lookup_result_def)

text \<open>
  A token that is unknown, expired or already used is refused with the one error
  \<open>ErrResetTokenInvalid\<close>, by the check and by the reset alike, with the tables as they were and
  no argon2 work done.
\<close>

theorem reset_dead_token_refused:
  assumes "store_inv lower w" and "fate w (calls w) = Works" and "validate_password pw = None"
    and "\<forall>t \<in> set (password_reset_tokens (tables w)).
      t_token_hash t = hash_reset_token sha token \<longrightarrow> t_used_at t \<noteq> None \<or> t_expires_at t \<le> db_now w"
  shows "fst (check_reset_token lower sha token w) = Inl (Sentinel ErrResetTokenInvalid) \<and>
    fst (reset_password lower sha A build token pw w) = Inl (Sentinel ErrResetTokenInvalid) \<and>
    tables (snd (reset_password lower sha A build token pw w)) = tables w \<and>
    hash_ops (snd (reset_password lower sha A build token pw w)) = hash_ops w"
proof -
  have "live_token sha w token = None"
    using assms(4) by (force simp: live_token_def find_None_iff live_at_def)
  then show ?thesis
    by (simp add: check_reset_token_run[OF assms(1,2)] reset_password_dead_run[OF assms(1-3)])
qed

theorem reset_dead_token_refused_witness:
  "fst (reset_password id id demo_argon2id (\<lambda>q. []) ''guess'' ''new-password'' demo_world) =
     Inl (Sentinel ErrResetTokenInvalid)"
  using reset_dead_token_refused[OF demo_world_inv(1)[of id], of "''new-password''" id "''guess''"]
  by (simp add: empty_tables_def)

text \<open>
  Single use, and more: once a reset has succeeded, no token that was issued to that user
  works again, at any later time: both the check and a second reset answer
  \<open>ErrResetTokenInvalid\<close>.
\<close>

theorem reset_password_retires_all:
  assumes "store_inv lower w" and "reliable w"
    and "reset_password lower sha A build token pw w = (Inr u, w')"
    and "t \<in> set (password_reset_tokens (tables w))" and "t_user_id t = u_id u"
    and "t_token_hash t = hash_reset_token sha other" and "validate_password pw2 = None"
  shows "fst (check_reset_token lower sha other (w'\<lparr>db_now := now\<rparr>)) = Inl (Sentinel ErrResetTokenInvalid) \<and>
    fst (reset_password lower sha A build other pw2 (w'\<lparr>db_now := now\<rparr>)) =
      Inl (Sentinel ErrResetTokenInvalid)"
proof -
  let ?w = "w'\<lparr>db_now := now\<rparr>"
  note k = reset_password_keeps[OF assms(1,3)]
  have inv: "store_inv lower ?w" using k(1) by (simp add: store_inv_def)
  have f: "fate ?w (calls ?w) = Works" using k(2) assms(2) by (simp add: reliable_def)
  obtain r hash where tab: "tables w' = reset_tables (u_id u) hash (db_now w) (tables w)"
    using reset_password_Inr[OF assms(1,3)] by auto
  let ?t = "retire (u_id u) (db_now w) t"
  have mem: "?t \<in> set (password_reset_tokens (tables ?w))" using tab assms(4) by (simp add: reset_tables_def)
  have used: "t_used_at ?t \<noteq> None" using assms(5) by (simp add: retire_def)
  have "live_token sha ?w other = None"
  proof (rule ccontr)
    assume "live_token sha ?w other \<noteq> None"
    then obtain s where s: "live_token sha ?w other = Some s" by blast
    have "distinct (map t_token_hash (password_reset_tokens (tables ?w)))"
      using inv by (simp add: store_inv_def tables_inv_def)
    then have "s = ?t"
      using live_token_Some[OF s] mem assms(6) by (metis distinct_map inj_on_eq_iff retire_fields(3))
    with live_token_Some[OF s] used show False by (simp add: live_at_def)
  qed
  then show ?thesis
    by (simp add: check_reset_token_run[OF inv f] reset_password_dead_run[OF inv f assms(7)])
qed

theorem reset_password_retires_all_witness:
  "\<exists>u w'. reset_password id id demo_argon2id (\<lambda>q. []) demo_token ''new-password'' (link_world id) = (Inr u, w') \<and>
     fst (reset_password id id demo_argon2id (\<lambda>q. []) demo_token ''new-password'' (w'\<lparr>db_now := 1000000\<rparr>)) =
       Inl (Sentinel ErrResetTokenInvalid)"
proof (rule link_used[where sha = id and build = "\<lambda>q. []"])
  fix u w'
  assume r: "reset_password id id demo_argon2id (\<lambda>q. []) demo_token ''new-password'' (link_world id) = (Inr u, w')"
    "u_id u = 1"
  have t: "new_token id demo_world ada \<in> set (password_reset_tokens (tables (link_world id)))"
    "t_user_id (new_token id demo_world ada) = u_id u"
    "t_token_hash (new_token id demo_world ada) = hash_reset_token id demo_token"
    using r(2) by (simp_all add: link_world_ok new_token_def ada_def demo_token_def)
  from reset_password_retires_all[OF link_world_ok(1,2) r(1) t new_password_ok, of 1000000] r(1)
  show ?thesis by blast
qed

text \<open>
  C22: After a reset the new password signs the user in and every other password, the old one
  included, is refused.
\<close>

theorem reset_then_authenticate:
  assumes "argon2id_contract A" and "store_inv lower w" and "reliable w"
    and "reset_password lower sha A build token pw w = (Inr u, w')"
    and "lower (trim_space e) = lower (u_email u)"
  shows "fst (authenticate lower A dummy e q w') =
    (if q = pw then Inr u else Inl (Sentinel ErrInvalidCredentials))"
proof -
  note k = reset_password_keeps[OF assms(2,4)]
  obtain t :: reset_token and hash salt where r: "CreateHash A pw salt = Inr hash"
    "tables w' = reset_tables (t_user_id t) hash (db_now w) (tables w)"
    "u \<in> set (users (tables w'))" "u_id u = t_user_id t"
    using reset_password_Inr[OF assms(2,4)] by blast
  have "u_password_hash u = hash"
    using r(2-4) by (auto simp: reset_tables_def set_password_def split: if_splits)
  then have cmp: "ComparePasswordAndHash A q (u_password_hash u) = Inr (q = pw)"
    using r(1) assms(1) unfolding argon2id_contract_def by blast
  have known: "user_by_email lower (tables w') (trim_space e) = Some u"
    using user_by_email_mem[OF k(1) r(3)] assms(5) by blast
  have f: "fate w' n = Works" for n using k(2) assms(3) by (simp add: reliable_def)
  show ?thesis unfolding authenticate_known[OF k(1) f known] by (simp add: f cmp)
qed

theorem reset_then_authenticate_witness:
  "\<exists>u w'. reset_password id id demo_argon2id (\<lambda>q. []) demo_token ''new-password'' (link_world id) = (Inr u, w') \<and>
     fst (authenticate id demo_argon2id [] ''ada@example.com'' ''new-password'' w') = Inr u \<and>
     fst (authenticate id demo_argon2id [] ''ada@example.com'' ''correct-horse'' w') =
       Inl (Sentinel ErrInvalidCredentials)"
proof (rule link_used[where sha = id and build = "\<lambda>q. []"])
  fix u w'
  assume r: "reset_password id id demo_argon2id (\<lambda>q. []) demo_token ''new-password'' (link_world id) = (Inr u, w')"
    "u_email u = ''ada@example.com''"
  have e: "id (trim_space ''ada@example.com'') = id (u_email u)" using r(2) by simp
  show ?thesis
    using reset_then_authenticate[OF demo_argon2id_contract link_world_ok(1,2) r(1) e, of "[]"] r(1)
    by fastforce
qed

text \<open>
  The reset is all or nothing: run in a transaction, as the handler runs it, it leaves no
  trace in the tables when it ends in an error other than an unacknowledged commit.
\<close>

theorem reset_in_tx_atomic:
  assumes "pg_begin w = (Inr (), w1)"
    and "reset_password lower sha A build token pw w1 = (Inl e, w2)"
  shows "fst (in_tx (pg_pool lower) (\<lambda>tx. reset_password_tx sha A build tx token pw) w) = Inl e \<and>
    tables (snd (in_tx (pg_pool lower) (\<lambda>tx. reset_password_tx sha A build tx token pw) w)) = tables w"
  using pg.in_tx_error_atomic[where fn = "\<lambda>tx. reset_password_tx sha A build tx token pw"]
    reset_password_inside assms
  by (simp add: reset_password_def)

theorem reset_in_tx_atomic_witness:
  "tables (snd (in_tx (pg_pool id)
     (\<lambda>tx. reset_password_tx id demo_argon2id (\<lambda>q. []) tx ''guess'' ''new-password'') demo_world)) = tables demo_world"
proof -
  let ?w = "(tick demo_world)\<lparr>snapshot := tables demo_world\<rparr>"
  have b: "pg_begin demo_world = (Inr (), ?w)" by (simp add: pg_begin_def next_call_eq)
  have inv: "store_inv id ?w" using demo_world_inv(1)[of id] by (simp add: store_inv_def)
  have "live_token id ?w ''guess'' = None" by (simp add: live_token_def empty_tables_def)
  from reset_password_dead_run[OF inv _ new_password_ok this]
  have "reset_password id id demo_argon2id (\<lambda>q. []) ''guess'' ''new-password'' ?w =
    (Inl (Sentinel ErrResetTokenInvalid), tick ?w)" by simp
  from reset_in_tx_atomic[OF b this] show ?thesis by blast
qed

end
