(* ===== verification/Throttle.thy ===== *)
theory Throttle
  imports Store
begin

text \<open>
  \<open>web/throttle.go\<close> and its direct variants in \<open>web/conn.gen.go\<close>: attempts per key in the table
  \<open>throttle_attempts\<close>, counted over a sliding window of fifteen minutes.  The locale
  \<open>rate_limiter\<close> is what the handlers rely on; it is interpreted on the three operations here
  against the number of attempts a key has in the window.
\<close>

definition throttleLimit :: int where "throttleLimit = 5"
definition throttleWindow :: int where "throttleWindow = 15 * 60"

definition throttle_blocked_tx :: "(world, stmt, row) queryable \<Rightarrow> string \<Rightarrow> (world, gerr, bool) act" where
  "throttle_blocked_tx tx key =
     bindE (wrapE (errorf ''counting throttle attempts: '') (Query tx (CountAttempts key throttleWindow)))
       (\<lambda>rows. case collect_exactly_one_row scan_count rows of
          Inl NoRows \<Rightarrow> fail (errorf ''collecting throttle count: '' (External ''no rows in result set''))
        | Inl TooManyRows \<Rightarrow>
            fail (errorf ''collecting throttle count: '' (External ''too many rows in result set''))
        | Inl (OtherError e) \<Rightarrow> fail (errorf ''collecting throttle count: '' e)
        | Inr count \<Rightarrow> ret (count \<ge> throttleLimit))"

definition throttle_fail_tx :: "(world, stmt, row) queryable \<Rightarrow> string \<Rightarrow> (world, gerr, unit) act" where
  "throttle_fail_tx tx key =
     bindE (wrapE (errorf ''pruning throttle attempts: '') (Exec tx (PruneAttempts throttleWindow))) (\<lambda>_.
     bindE (wrapE (errorf ''recording throttle attempt: '') (Exec tx (InsertAttempt key))) (\<lambda>_.
     ret ()))"

definition throttle_reset_tx :: "(world, stmt, row) queryable \<Rightarrow> string \<Rightarrow> (world, gerr, unit) act" where
  "throttle_reset_tx tx key =
     bindE (wrapE (errorf ''clearing throttle attempts: '') (Exec tx (DeleteAttempts key))) (\<lambda>_. ret ())"

definition throttle_blocked :: "(string \<Rightarrow> string) \<Rightarrow> string \<Rightarrow> (world, gerr, bool) act" where
  "throttle_blocked lower key = throttle_blocked_tx (conn lower) key"

definition throttle_fail :: "(string \<Rightarrow> string) \<Rightarrow> string \<Rightarrow> (world, gerr, unit) act" where
  "throttle_fail lower key = throttle_fail_tx (conn lower) key"

definition throttle_reset :: "(string \<Rightarrow> string) \<Rightarrow> string \<Rightarrow> (world, gerr, unit) act" where
  "throttle_reset lower key = throttle_reset_tx (conn lower) key"

subsection \<open>The contract of a rate limiter\<close>

locale rate_limiter =
  fixes blocked :: "'k \<Rightarrow> ('w, 'e, bool) act"
    and record_attempt :: "'k \<Rightarrow> ('w, 'e, unit) act"
    and clear :: "'k \<Rightarrow> ('w, 'e, unit) act"
    and recent :: "'w \<Rightarrow> 'k \<Rightarrow> nat"
    and limit :: nat
    and ok :: "'w \<Rightarrow> bool"
  assumes blocked_spec: "ok w \<Longrightarrow>
      \<exists>w'. blocked k w = (Inr (limit \<le> recent w k), w') \<and> ok w' \<and> recent w' = recent w"
    and record_spec: "ok w \<Longrightarrow>
      \<exists>w'. record_attempt k w = (Inr (), w') \<and> ok w' \<and> recent w' = (recent w)(k := Suc (recent w k))"
    and clear_spec: "ok w \<Longrightarrow>
      \<exists>w'. clear k w = (Inr (), w') \<and> ok w' \<and> recent w' = (recent w)(k := 0)"
begin

text \<open>A run of recorded attempts, and what it does to every key.\<close>

fun record_all :: "'k list \<Rightarrow> 'w \<Rightarrow> 'w" where
  "record_all [] w = w"
| "record_all (k # ks) w = record_all ks (snd (record_attempt k w))"

lemma record_all_recent:
  "ok w \<Longrightarrow> ok (record_all ks w) \<and> recent (record_all ks w) k = recent w k + count_list ks k"
proof (induction ks arbitrary: w)
  case (Cons k' ks)
  obtain w' where "record_attempt k' w = (Inr (), w')" "ok w'"
    "recent w' = (recent w)(k' := Suc (recent w k'))"
    using record_spec[OF Cons.prems] by blast
  with Cons.IH[of w'] show ?case by simp
qed simp

lemma blocked_after:
  assumes "ok w"
  shows "fst (blocked k (record_all ks w)) = Inr (limit \<le> recent w k + count_list ks k)"
  using record_all_recent[OF assms, of ks k] blocked_spec[of "record_all ks w" k] by auto

lemma clear_unblocks:
  assumes "ok w" and "0 < limit"
  shows "fst (blocked k (snd (clear k w))) = Inr False"
    and "k' \<noteq> k \<Longrightarrow> fst (blocked k' (snd (clear k w))) = fst (blocked k' w)"
proof -
  obtain w' where c: "clear k w = (Inr (), w')" "ok w'" "recent w' = (recent w)(k := 0)"
    using clear_spec[OF assms(1)] by blast
  show "fst (blocked k (snd (clear k w))) = Inr False"
    using blocked_spec[OF c(2), of k] c assms(2) by auto
  show "fst (blocked k' (snd (clear k w))) = fst (blocked k' w)" if "k' \<noteq> k"
    using blocked_spec[OF c(2), of k'] blocked_spec[OF assms(1), of k'] c that by auto
qed

end

subsection \<open>The operations meet it\<close>

definition recent_attempts :: "world \<Rightarrow> string \<Rightarrow> nat" where
  "recent_attempts w key = length (filter
     (\<lambda>a. a_key a = key \<and> a_attempted_at a > db_now w - throttleWindow * 1000000)
     (throttle_attempts (tables w)))"

lemma throttle_blocked_run:
  assumes "fate w (calls w) = Works"
  shows "throttle_blocked lower key w = (Inr (throttleLimit \<le> int (recent_attempts w key)), tick w)"
  using assms
  by (simp add: throttle_blocked_def throttle_blocked_tx_def bindE_def wrapE_def pg_query_def
      next_call_eq recent_attempts_def)

lemma recent_attempts_tick [simp]: "recent_attempts (tick w) = recent_attempts w"
  by (rule ext) (simp add: recent_attempts_def)

text \<open>Pruning is invisible: what it deletes is already out of the window.\<close>

lemma recent_attempts_prune:
  "recent_attempts (after_stmt lower (PruneAttempts throttleWindow) w) = recent_attempts w"
proof -
  have "filter (\<lambda>a. a_key a = key \<and> a_attempted_at a > c) (filter (\<lambda>a. \<not> a_attempted_at a < c) xs) =
      filter (\<lambda>a. a_key a = key \<and> a_attempted_at a > c) xs" for key c and xs :: "throttle_attempt list"
    by (auto intro: filter_cong)
  then show ?thesis by (auto simp: recent_attempts_def Let_def)
qed

lemma recent_attempts_insert:
  "recent_attempts (after_stmt lower (InsertAttempt key) w) =
     (recent_attempts w)(key := Suc (recent_attempts w key))"
  by (rule ext) (simp add: recent_attempts_def throttleWindow_def)

lemma recent_attempts_delete:
  "recent_attempts (after_stmt lower (DeleteAttempts key) w) = (recent_attempts w)(key := 0)"
  by (rule ext) (auto simp: recent_attempts_def filter_empty_conv intro!: arg_cong[where f = length] filter_cong)

lemma throttle_exec_reliable:
  assumes "reliable w" and "q = PruneAttempts s \<or> q = InsertAttempt key \<or> q = DeleteAttempts key"
  shows "\<exists>t. pg_exec lower q w = (Inr t, after_stmt lower q (tick w))"
  using assms by (auto simp: pg_exec_reliable Let_def)

lemma throttle_fail_run:
  assumes "reliable w"
  shows "throttle_fail lower key w = (Inr (), after_stmt lower (InsertAttempt key)
    (tick (after_stmt lower (PruneAttempts throttleWindow) (tick w))))"
proof -
  obtain t where "pg_exec lower (PruneAttempts throttleWindow) w =
      (Inr t, after_stmt lower (PruneAttempts throttleWindow) (tick w))"
    using throttle_exec_reliable[OF assms] by blast
  moreover have "reliable (after_stmt lower (PruneAttempts throttleWindow) (tick w))"
    using assms by (simp del: run_stmt.simps)
  then obtain t' where "pg_exec lower (InsertAttempt key)
      (after_stmt lower (PruneAttempts throttleWindow) (tick w)) =
    (Inr t', after_stmt lower (InsertAttempt key) (tick (after_stmt lower (PruneAttempts throttleWindow) (tick w))))"
    using throttle_exec_reliable by blast
  ultimately show ?thesis
    by (simp add: throttle_fail_def throttle_fail_tx_def bindE_def wrapE_def del: run_stmt.simps)
qed

lemma throttle_reset_run:
  assumes "reliable w"
  shows "throttle_reset lower key w = (Inr (), after_stmt lower (DeleteAttempts key) (tick w))"
proof -
  obtain t where "pg_exec lower (DeleteAttempts key) w = (Inr t, after_stmt lower (DeleteAttempts key) (tick w))"
    using throttle_exec_reliable[OF assms] by blast
  then show ?thesis
    by (simp add: throttle_reset_def throttle_reset_tx_def bindE_def wrapE_def del: run_stmt.simps)
qed

interpretation signin_limit: rate_limiter "throttle_blocked lower" "throttle_fail lower"
  "throttle_reset lower" recent_attempts 5 reliable for lower
proof
  fix w k assume ok: "reliable w"
  then have f: "fate w (calls w) = Works" by (simp add: reliable_def)
  show "\<exists>w'. throttle_blocked lower k w = (Inr (5 \<le> recent_attempts w k), w') \<and> reliable w' \<and>
      recent_attempts w' = recent_attempts w"
    using ok by (simp add: throttle_blocked_run[OF f] throttleLimit_def)
  show "\<exists>w'. throttle_fail lower k w = (Inr (), w') \<and> reliable w' \<and>
      recent_attempts w' = (recent_attempts w)(k := Suc (recent_attempts w k))"
    using ok by (simp add: throttle_fail_run recent_attempts_insert recent_attempts_prune del: run_stmt.simps)
  show "\<exists>w'. throttle_reset lower k w = (Inr (), w') \<and> reliable w' \<and>
      recent_attempts w' = (recent_attempts w)(k := 0)"
    using ok by (simp add: throttle_reset_run recent_attempts_delete del: run_stmt.simps)
qed

definition fail_all :: "(string \<Rightarrow> string) \<Rightarrow> string list \<Rightarrow> world \<Rightarrow> world" where
  "fail_all lower ks w = fold (\<lambda>k w. snd (throttle_fail lower k w)) ks w"

lemma fail_all_record_all: "fail_all lower ks w = signin_limit.record_all lower ks w"
  by (induction ks arbitrary: w) (simp_all add: fail_all_def)

text \<open>
  C16: The limit: after any sequence of recorded attempts, on this key and on others, the key is
  blocked exactly when its attempts within the window have reached five; attempts on other keys
  do not count.
\<close>

theorem throttle_blocks_at_limit:
  assumes "reliable w"
  shows "fst (throttle_blocked lower k (fail_all lower ks w)) =
    Inr (5 \<le> recent_attempts w k + count_list ks k)"
  unfolding fail_all_record_all by (rule signin_limit.blocked_after[OF assms])

theorem throttle_blocks_at_limit_witness:
  "fst (throttle_blocked id ''k'' (fail_all id [''k'', ''k'', ''j'', ''k'', ''k''] fresh_world)) = Inr False \<and>
   fst (throttle_blocked id ''k'' (fail_all id [''k'', ''k'', ''j'', ''k'', ''k'', ''k''] fresh_world)) = Inr True"
proof -
  have "reliable fresh_world" "recent_attempts fresh_world ''k'' = 0"
    by (simp_all add: reliable_def fresh_world_def empty_tables_def recent_attempts_def)
  with throttle_blocks_at_limit[OF this(1), of id "''k''"] show ?thesis by simp
qed

text \<open>
  The window slides: fifteen minutes after the last attempt the key is free again, whatever
  was recorded before.
\<close>

theorem throttle_window_expires:
  assumes "\<forall>a \<in> set (throttle_attempts (tables w)). a_attempted_at a \<le> latest"
    and "db_now w \<ge> latest + 900000000" and "fate w (calls w) = Works"
  shows "throttle_blocked lower k w = (Inr False, tick w)"
proof -
  have "recent_attempts w k = 0"
    using assms(1,2) by (auto simp: recent_attempts_def filter_empty_conv throttleWindow_def)
  with throttle_blocked_run[OF assms(3)] show ?thesis by (simp add: throttleLimit_def)
qed

theorem throttle_window_expires_witness:
  "throttle_blocked id ''k'' (fresh_world\<lparr>db_now := 901000000,
     tables := empty_tables\<lparr>throttle_attempts := replicate 7 \<lparr>a_key = ''k'', a_attempted_at = 1000000\<rparr>\<rparr>\<rparr>) =
   (Inr False, tick (fresh_world\<lparr>db_now := 901000000,
     tables := empty_tables\<lparr>throttle_attempts := replicate 7 \<lparr>a_key = ''k'', a_attempted_at = 1000000\<rparr>\<rparr>\<rparr>))"
  by (rule throttle_window_expires[where latest = 1000000]) (simp_all add: fresh_world_def)

text \<open>
  Recording an attempt fails safe: however its two statements fail, no key loses an attempt
  that still counts, so an error never unblocks anyone; and when it reports success the attempt
  has been counted, on its own key only.
\<close>

theorem throttle_fail_safe:
  assumes "throttle_fail lower k w = (r, w')"
  shows "recent_attempts w k' \<le> recent_attempts w' k' \<and>
    (r = Inr () \<longrightarrow> recent_attempts w' = (recent_attempts w)(k := Suc (recent_attempts w k)))"
proof -
  let ?p = "after_stmt lower (PruneAttempts throttleWindow) (tick w)"
  have p: "recent_attempts w1 = recent_attempts w"
    if "pg_exec lower (PruneAttempts throttleWindow) w = (r1, w1)" for r1 w1
    using snd_pg_exec[of lower "PruneAttempts throttleWindow" w] that recent_attempts_prune[of lower "tick w"]
    by (auto simp del: run_stmt.simps)
  have i: "recent_attempts w1 k' \<le> recent_attempts w2 k' \<and>
      (\<forall>t. r2 = Inr t \<longrightarrow> recent_attempts w2 = (recent_attempts w1)(k := Suc (recent_attempts w1 k)))"
    if "pg_exec lower (InsertAttempt k) w1 = (r2, w2)" for w1 r2 w2
  proof -
    have "w2 = tick w1 \<or> w2 = after_stmt lower (InsertAttempt k) (tick w1)"
      using snd_pg_exec[of lower "InsertAttempt k" w1] that by simp
    moreover have "w2 = after_stmt lower (InsertAttempt k) (tick w1)" if "r2 = Inr t" for t
      using \<open>pg_exec lower (InsertAttempt k) w1 = (r2, w2)\<close> that
      by (auto simp: pg_exec_def next_call_eq split: outcome.splits)
    ultimately show ?thesis
      using recent_attempts_insert[of lower k "tick w1"] by (cases r2) (auto simp del: run_stmt.simps)
  qed
  obtain r1 w1 where e1: "pg_exec lower (PruneAttempts throttleWindow) w = (r1, w1)" by force
  obtain r2 w2 where e2: "pg_exec lower (InsertAttempt k) w1 = (r2, w2)" by force
  show ?thesis
    using assms p[OF e1] i[OF e2] e1 e2
    by (auto simp: throttle_fail_def throttle_fail_tx_def bindE_def wrapE_def split: sum.splits)
qed

theorem throttle_fail_safe_witness:
  "recent_attempts (snd (throttle_fail id ''k'' fresh_world)) ''k'' = 1"
proof -
  have "reliable fresh_world" by (simp add: reliable_def fresh_world_def)
  from throttle_fail_run[OF this, of id "''k''"]
  have "\<exists>w'. throttle_fail id ''k'' fresh_world = (Inr (), w')" by blast
  then obtain w' where w: "throttle_fail id ''k'' fresh_world = (Inr (), w')" by blast
  moreover have "recent_attempts fresh_world ''k'' = 0"
    by (simp add: fresh_world_def empty_tables_def recent_attempts_def)
  ultimately show ?thesis using throttle_fail_safe[OF w] by simp
qed

text \<open>
  A successful signin clears its own key and no other.
\<close>

theorem throttle_reset_own_key:
  assumes "reliable w"
  shows "fst (throttle_blocked lower k (snd (throttle_reset lower k w))) = Inr False \<and>
    (k' \<noteq> k \<longrightarrow> fst (throttle_blocked lower k' (snd (throttle_reset lower k w))) =
       fst (throttle_blocked lower k' w))"
  using signin_limit.clear_unblocks[OF assms] by simp

theorem throttle_reset_own_key_witness:
  "fst (throttle_blocked id ''k'' (snd (throttle_reset id ''k'' (fail_all id (replicate 9 ''k'') fresh_world)))) =
     Inr False"
proof -
  have "reliable fresh_world" by (simp add: reliable_def fresh_world_def)
  then have "reliable (fail_all id (replicate 9 ''k'') fresh_world)"
    unfolding fail_all_record_all using signin_limit.record_all_recent by blast
  from throttle_reset_own_key[OF this] show ?thesis by blast
qed

lemma keeps_throttle [keeps_intros]:
  "keeps (store_inv lower) (throttle_blocked_tx (conn lower) k)"
  "keeps (store_inv lower) (throttle_fail_tx (conn lower) k)"
  "keeps (store_inv lower) (throttle_reset_tx (conn lower) k)"
proof -
  show "keeps (store_inv lower) (throttle_blocked_tx (conn lower) k)"
    unfolding throttle_blocked_tx_def
    by (intro keeps_bindE keeps_wrapE) (auto intro: keeps_intros split: sum.split collect_error.split)
qed (unfold throttle_fail_tx_def throttle_reset_tx_def, (intro keeps_intros; simp add: keeps_intros)+)

end
