(* ===== verification/Web_Base.thy ===== *)
theory Web_Base
  imports Reset Throttle
begin

text \<open>
  What every handler of the package \<open>web\<close> works on: the request, the response being written, the
  request's session and the world behind them, as one state \<open>web\<close>; handlers and middleware as
  functions on it.

  Third-party code is the parameter record \<open>app\<close>: the session manager \<open>scs\<close>, argon2, SHA-256,
  \<open>url.Parse\<close>, the case tables of Unicode, Postgres' \<open>lower\<close>, and the templ runtime that turns a
  page of \<open>views\<close> into bytes.  \<open>scs_contract\<close> is the documented behaviour of \<open>scs\<close>.
\<close>

record request =
  Method :: string
  Path :: string
  RequestURI :: string
  Host :: string
  URL_Scheme :: string
  TLS :: bool
  Header :: "string \<Rightarrow> string"
  RealIP :: string
  FormParse :: "gerr option"
  FormValue :: "string \<Rightarrow> string"
  QueryParam :: "string \<Rightarrow> string"
  ContentLength :: int

text \<open>The pages of the package \<open>views\<close> with their arguments, and the layout's data.\<close>

datatype page =
    SigninPage string
  | PasswordResetRequestPage string
  | PasswordResetConfirmPage string
  | HomePage string
  | GalleryPage
  | ErrorPage nat string string

record flash =
  f_kind :: string
  f_message :: string
  f_key :: string

record layout_data =
  ld_title :: string
  ld_user :: "user option"
  ld_flash :: "flash option"
  ld_head_extras :: "string option"

datatype body = NoBody | Html string | Text string | JsonError string nat | Asset string

record response =
  committed :: bool
  status :: nat
  headers :: "string \<rightharpoonup> string"
  body :: body

record 's scs =
  GetString :: "'s \<Rightarrow> string \<Rightarrow> string"
  GetInt64 :: "'s \<Rightarrow> string \<Rightarrow> int"
  PutString :: "string \<Rightarrow> string \<Rightarrow> 's \<Rightarrow> 's"
  PutInt64 :: "string \<Rightarrow> int \<Rightarrow> 's \<Rightarrow> 's"
  RemoveKey :: "string \<Rightarrow> 's \<Rightarrow> 's"
  PopString :: "string \<Rightarrow> 's \<Rightarrow> string \<times> 's"
  RenewToken :: "'s \<Rightarrow> 's"
  Destroy :: "'s \<Rightarrow> 's"
  SessionToken :: "'s \<Rightarrow> string"

text \<open>
  The documentation of \<open>scs\<close>: values under keys, zero values where a key is missing or of another
  type, a pop reads and removes, a renewed session has another token and the same data, a
  destroyed one has no data.
\<close>

definition scs_contract :: "'s scs \<Rightarrow> bool" where
  "scs_contract S \<longleftrightarrow>
     (\<forall>s k k' v. GetString S (PutString S k v s) k' = (if k' = k then v else GetString S s k')) \<and>
     (\<forall>s k k' v. GetInt64 S (PutString S k v s) k' = (if k' = k then 0 else GetInt64 S s k')) \<and>
     (\<forall>s k k' i. GetInt64 S (PutInt64 S k i s) k' = (if k' = k then i else GetInt64 S s k')) \<and>
     (\<forall>s k k' i. GetString S (PutInt64 S k i s) k' = (if k' = k then [] else GetString S s k')) \<and>
     (\<forall>s k k'. GetString S (RemoveKey S k s) k' = (if k' = k then [] else GetString S s k')) \<and>
     (\<forall>s k k'. GetInt64 S (RemoveKey S k s) k' = (if k' = k then 0 else GetInt64 S s k')) \<and>
     (\<forall>s k. PopString S k s = (GetString S s k, RemoveKey S k s)) \<and>
     (\<forall>s k. GetString S (RenewToken S s) k = GetString S s k) \<and>
     (\<forall>s k. GetInt64 S (RenewToken S s) k = GetInt64 S s k) \<and>
     (\<forall>s k. GetString S (Destroy S s) k = [] \<and> GetInt64 S (Destroy S s) k = 0) \<and>
     (\<forall>s. SessionToken S (RenewToken S s) \<noteq> SessionToken S s) \<and>
     (\<forall>s k v i. SessionToken S (PutString S k v s) = SessionToken S s \<and>
        SessionToken S (PutInt64 S k i s) = SessionToken S s \<and>
        SessionToken S (RemoveKey S k s) = SessionToken S s)"

lemma scs_laws:
  assumes "scs_contract S"
  shows "GetString S (PutString S k v s) k' = (if k' = k then v else GetString S s k')"
    "GetInt64 S (PutString S k v s) k' = (if k' = k then 0 else GetInt64 S s k')"
    "GetInt64 S (PutInt64 S k i s) k' = (if k' = k then i else GetInt64 S s k')"
    "GetString S (PutInt64 S k i s) k' = (if k' = k then [] else GetString S s k')"
    "GetString S (RemoveKey S k s) k' = (if k' = k then [] else GetString S s k')"
    "GetInt64 S (RemoveKey S k s) k' = (if k' = k then 0 else GetInt64 S s k')"
    "PopString S k s = (GetString S s k, RemoveKey S k s)"
    "GetString S (RenewToken S s) k = GetString S s k"
    "GetInt64 S (RenewToken S s) k = GetInt64 S s k"
    "GetString S (Destroy S s) k = []" "GetInt64 S (Destroy S s) k = 0"
    "SessionToken S (RenewToken S s) \<noteq> SessionToken S s"
    "SessionToken S (PutString S k v s) = SessionToken S s"
    "SessionToken S (PutInt64 S k i s) = SessionToken S s"
    "SessionToken S (RemoveKey S k s) = SessionToken S s"
  using assms by (simp_all add: scs_contract_def)

record 's app =
  lower_of :: "string \<Rightarrow> string"
  sha_of :: "string \<Rightarrow> string"
  argon :: argon2id
  dummy_hash :: string
  build_sql :: "stmt \<Rightarrow> string"
  unicode_lower :: "nat \<Rightarrow> nat"
  unicode_fold :: "nat \<Rightarrow> nat"
  sessions :: "'s scs"
  url_parse :: "string \<Rightarrow> gerr + string \<times> string"
  render :: "string \<Rightarrow> layout_data \<Rightarrow> page \<Rightarrow> gerr + string"
  status_text :: "nat \<Rightarrow> string"
  head_extras :: string
  static_asset :: "string \<Rightarrow> (string \<times> string) option"
  ui_asset :: "string \<Rightarrow> nat \<times> string \<times> string"
  dev_mode :: bool
  prod_mode :: bool

text \<open>One request span as the middleware \<open>Tracing\<close> ends it.\<close>

record span =
  sp_name :: string
  sp_path :: string
  sp_client :: string
  sp_request_id :: string
  sp_status :: nat
  sp_error :: "gerr option"
  sp_failed :: bool

text \<open>
  What the package logs: the request log (\<open>LogInfo\<close>, \<open>LogError\<close>), a failed request, a failed mutation, an
  internal error of the API, and a throttle that could not be cleared.
\<close>

datatype log_line =
    LogInfo string nat string
  | LogError string nat string string
  | LogFailed string string gerr
  | LogMutation string gerr
  | LogInternal string string gerr
  | LogThrottle gerr

text \<open>What Sentry gets of a request that failed.\<close>

record report =
  rp_error :: gerr
  rp_request :: "string \<times> string"
  rp_request_id :: string
  rp_user :: "int option"

text \<open>
  \<open>cu\<close> is the user \<open>LoadUser\<close> put into the request's context, \<open>csp_nonce\<close> the nonce of its pages and
  \<open>open_span\<close> the span \<open>Tracing\<close> opened in it; \<open>captured\<close> is what Sentry got, \<open>spans\<close> what the tracer
  got, \<open>web_log\<close> the lines logged; \<open>fresh_id\<close> is the id echo's middleware draws for a request without one.
\<close>

record 's web =
  world_of :: world
  session :: 's
  cu :: "user option"
  csp_nonce :: string
  resp :: response
  captured :: "report list"
  open_span :: "span option"
  spans :: "span list"
  web_log :: "log_line list"
  fresh_id :: string

type_synonym ('s, 'a) wact = "('s web, gerr, 'a) act"
type_synonym 's handler = "request \<Rightarrow> ('s, unit) wact"

text \<open>An operation of a domain package, run by a handler.\<close>

definition domain :: "(world, gerr, 'a) act \<Rightarrow> ('s, 'a) wact" where
  "domain m = (\<lambda>c. case m (world_of c) of (r, w) \<Rightarrow> (r, c\<lparr>world_of := w\<rparr>))"

definition log_to :: "log_line \<Rightarrow> ('s, unit) wact" where
  "log_to l = modify (\<lambda>c. c\<lparr>web_log := web_log c @ [l]\<rparr>)"

definition sess_get :: "('s \<Rightarrow> 'a) \<Rightarrow> ('s, 'a) wact" where
  "sess_get f = gets (\<lambda>c. f (session c))"

definition sess_do :: "('s \<Rightarrow> 's) \<Rightarrow> ('s, unit) wact" where
  "sess_do f = modify (\<lambda>c. c\<lparr>session := f (session c)\<rparr>)"

definition sess_pop :: "'s app \<Rightarrow> string \<Rightarrow> ('s, string) wact" where
  "sess_pop P k = (\<lambda>c. case PopString (sessions P) k (session c) of (v, s) \<Rightarrow> (Inr v, c\<lparr>session := s\<rparr>))"

text \<open>
  \<open>Destroy\<close> and \<open>RenewToken\<close> delete the stored session first, which can fail; then they leave
  the request's session alone.
\<close>

definition sess_store :: "('s \<Rightarrow> 's) \<Rightarrow> ('s, unit) wact" where
  "sess_store f = bindE (domain (external_call id)) (\<lambda>_. sess_do f)"

text \<open>echo's responses: the header is written, then the body, whose write can fail.\<close>

definition redirect :: "nat \<Rightarrow> string \<Rightarrow> ('s, unit) wact" where
  "redirect code path = modify (\<lambda>c. c\<lparr>resp := (resp c)\<lparr>committed := True, status := code,
     headers := (headers (resp c))(''Location'' \<mapsto> path)\<rparr>\<rparr>)"

definition blob :: "nat \<Rightarrow> body \<Rightarrow> string \<Rightarrow> ('s, unit) wact" where
  "blob code b mime =
     bindE (modify (\<lambda>c. c\<lparr>resp := (resp c)\<lparr>committed := True, status := code,
        headers := (headers (resp c))(''Content-Type'' \<mapsto> mime)\<rparr>\<rparr>)) (\<lambda>_.
     bindE (domain (external_call id)) (\<lambda>_.
     modify (\<lambda>c. c\<lparr>resp := (resp c)\<lparr>body := b\<rparr>\<rparr>)))"

definition html_mime :: string where "html_mime = ''text/html; charset=UTF-8''"
definition json_mime :: string where "json_mime = ''application/json''"
definition text_mime :: string where "text_mime = ''text/plain; charset=UTF-8''"

lemma domain_run: "domain m c = (fst (m (world_of c)), c\<lparr>world_of := snd (m (world_of c))\<rparr>)"
  by (simp add: domain_def split: prod.split)

lemma domain_eq: "m (world_of c) = (r, w) \<Longrightarrow> domain m c = (r, c\<lparr>world_of := w\<rparr>)"
  by (simp add: domain_def)

lemma sess_get_run [simp]: "sess_get f c = (Inr (f (session c)), c)"
  by (simp add: sess_get_def)

definition sent_header :: "'s web \<Rightarrow> string \<Rightarrow> string" where
  "sent_header c k = (case headers (resp c) k of None \<Rightarrow> [] | Some v \<Rightarrow> v)"

lemma log_to_run [simp]: "log_to l c = (Inr (), c\<lparr>web_log := web_log c @ [l]\<rparr>)"
  by (simp add: log_to_def)

lemma sess_do_run [simp]: "sess_do f c = (Inr (), c\<lparr>session := f (session c)\<rparr>)"
  by (simp add: sess_do_def)

lemma sess_store_run:
  "sess_store f c = (case external_call id (world_of c) of
     (Inl e, w) \<Rightarrow> (Inl e, c\<lparr>world_of := w\<rparr>)
   | (Inr _, w) \<Rightarrow> (Inr (), c\<lparr>world_of := w, session := f (session c)\<rparr>))"
  by (simp add: sess_store_def bindE_def domain_def split: prod.split sum.split)

lemma sess_store_reliable:
  "reliable (world_of c) \<Longrightarrow>
   sess_store f c = (Inr (), c\<lparr>world_of := tick (world_of c), session := f (session c)\<rparr>)"
  by (simp add: sess_store_run external_call_reliable)

lemma keeps_domain [keeps_intros]:
  "keeps I m \<Longrightarrow> keeps (\<lambda>c. I (world_of c)) (domain m)"
  by (simp add: keeps_def domain_run)

lemma keeps_sess [keeps_intros]:
  "(\<And>c. I c \<Longrightarrow> I (c\<lparr>session := f (session c)\<rparr>)) \<Longrightarrow> keeps I (sess_do f)"
  "keeps I (sess_get g)"
  by (simp_all add: keeps_def)

subsection \<open>Sessions in memory, for the witnesses\<close>

datatype sval = SvStr string | SvInt int

type_synonym mem_session = "(string \<rightharpoonup> sval) \<times> nat"

definition mem_scs :: "mem_session scs" where
  "mem_scs = \<lparr>
     GetString = (\<lambda>s k. case fst s k of Some (SvStr v) \<Rightarrow> v | _ \<Rightarrow> []),
     GetInt64 = (\<lambda>s k. case fst s k of Some (SvInt i) \<Rightarrow> i | _ \<Rightarrow> 0),
     PutString = (\<lambda>k v s. ((fst s)(k \<mapsto> SvStr v), snd s)),
     PutInt64 = (\<lambda>k i s. ((fst s)(k \<mapsto> SvInt i), snd s)),
     RemoveKey = (\<lambda>k s. ((fst s)(k := None), snd s)),
     PopString = (\<lambda>k s. (case fst s k of Some (SvStr v) \<Rightarrow> v | _ \<Rightarrow> [], ((fst s)(k := None), snd s))),
     RenewToken = (\<lambda>s. (fst s, Suc (snd s))),
     Destroy = (\<lambda>s. (Map.empty, Suc (snd s))),
     SessionToken = (\<lambda>s. replicate (snd s) (CHR ''t''))\<rparr>"

lemma mem_scs_contract: "scs_contract mem_scs"
  by (auto simp: scs_contract_def mem_scs_def)

definition empty_response :: response where
  "empty_response = \<lparr>committed = False, status = 0, headers = Map.empty, body = NoBody\<rparr>"

definition demo_app :: "mem_session app" where
  "demo_app = \<lparr>lower_of = id, sha_of = id, argon = demo_argon2id, dummy_hash = ''decoy$'',
     build_sql = (\<lambda>q. []), unicode_lower = id, unicode_fold = id, sessions = mem_scs,
     url_parse = (\<lambda>s. Inr (''http'', s)), render = (\<lambda>n d p. Inr (ld_title d)),
     status_text = (\<lambda>n. ''status''), head_extras = [],
     static_asset = (\<lambda>p. None), ui_asset = (\<lambda>p. (404, [], [])), dev_mode = False, prod_mode = True\<rparr>"

definition demo_request :: request where
  "demo_request = \<lparr>Method = ''GET'', Path = ''/'', RequestURI = ''/'', Host = ''app.example.com'',
     URL_Scheme = [], TLS = False, Header = (\<lambda>h. []), RealIP = ''10.0.0.1'', FormParse = None,
     FormValue = (\<lambda>k. []), QueryParam = (\<lambda>k. []), ContentLength = 0\<rparr>"

definition demo_web :: "mem_session web" where
  "demo_web = \<lparr>world_of = demo_world, session = (Map.empty, 0), cu = None, csp_nonce = [],
     resp = empty_response, captured = [], open_span = None, spans = [], web_log = [], fresh_id = []\<rparr>"

end
