(* ===== verification/Flash.thy ===== *)
theory Flash
  imports Web_Base
begin

text \<open>\<open>web/flash.go\<close>: the one-shot message kept in the session until the next page shows it.\<close>

definition set_keyed_flash :: "'s app \<Rightarrow> string \<Rightarrow> string \<Rightarrow> string \<Rightarrow> ('s, unit) wact" where
  "set_keyed_flash P kind key msg =
     bindE (sess_do (PutString (sessions P) ''flash_kind'' kind)) (\<lambda>_.
     bindE (sess_do (PutString (sessions P) ''flash_msg'' msg)) (\<lambda>_.
     if key = [] then sess_do (RemoveKey (sessions P) ''flash_key'')
     else sess_do (PutString (sessions P) ''flash_key'' key)))"

definition set_flash :: "'s app \<Rightarrow> string \<Rightarrow> string \<Rightarrow> ('s, unit) wact" where
  "set_flash P kind msg = set_keyed_flash P kind [] msg"

definition take_flash :: "'s app \<Rightarrow> ('s, flash option) wact" where
  "take_flash P =
     bindE (sess_pop P ''flash_kind'') (\<lambda>kind.
     bindE (sess_pop P ''flash_msg'') (\<lambda>msg.
     bindE (sess_pop P ''flash_key'') (\<lambda>key.
     if msg = [] then ret None
     else ret (Some \<lparr>f_kind = (if kind = [] then ''ok'' else kind), f_message = msg, f_key = key\<rparr>))))"

text \<open>The session after each, in closed form.\<close>

definition flashed :: "'s scs \<Rightarrow> string \<Rightarrow> string \<Rightarrow> string \<Rightarrow> 's \<Rightarrow> 's" where
  "flashed S kind key msg s =
     (let s = PutString S ''flash_msg'' msg (PutString S ''flash_kind'' kind s) in
      if key = [] then RemoveKey S ''flash_key'' s else PutString S ''flash_key'' key s)"

definition unflashed :: "'s scs \<Rightarrow> 's \<Rightarrow> 's" where
  "unflashed S s = RemoveKey S ''flash_key'' (RemoveKey S ''flash_msg'' (RemoveKey S ''flash_kind'' s))"

definition pending_flash :: "'s scs \<Rightarrow> 's \<Rightarrow> flash option" where
  "pending_flash S s =
     (if GetString S s ''flash_msg'' = [] then None
      else Some \<lparr>f_kind = (if GetString S s ''flash_kind'' = [] then ''ok'' else GetString S s ''flash_kind''),
                 f_message = GetString S s ''flash_msg'', f_key = GetString S s ''flash_key''\<rparr>)"

lemma set_keyed_flash_run:
  "set_keyed_flash P kind key msg c = (Inr (), c\<lparr>session := flashed (sessions P) kind key msg (session c)\<rparr>)"
  by (simp add: set_keyed_flash_def bindE_def flashed_def)

lemma set_flash_run:
  "set_flash P kind msg c = (Inr (), c\<lparr>session := flashed (sessions P) kind [] msg (session c)\<rparr>)"
  by (simp add: set_flash_def set_keyed_flash_run)

lemma take_flash_run:
  assumes "scs_contract (sessions P)"
  shows "take_flash P c =
    (Inr (pending_flash (sessions P) (session c)), c\<lparr>session := unflashed (sessions P) (session c)\<rparr>)"
  by (simp add: take_flash_def bindE_def sess_pop_def scs_laws[OF assms] pending_flash_def unflashed_def)

text \<open>The keys of the sign-in, which a flash must not touch.\<close>

lemma flash_frame:
  assumes "scs_contract S" and "k \<notin> {''flash_kind'', ''flash_msg'', ''flash_key''}"
  shows "GetString S (flashed S kind key msg s) k = GetString S s k"
    "GetInt64 S (flashed S kind key msg s) k = GetInt64 S s k"
    "GetString S (unflashed S s) k = GetString S s k" "GetInt64 S (unflashed S s) k = GetInt64 S s k"
  using assms(2) by (auto simp: flashed_def unflashed_def Let_def scs_laws[OF assms(1)])

lemma pending_flashed:
  assumes "scs_contract S"
  shows "pending_flash S (flashed S kind key msg s) =
    (if msg = [] then None else Some \<lparr>f_kind = (if kind = [] then ''ok'' else kind), f_message = msg, f_key = key\<rparr>)"
    "pending_flash S (unflashed S s) = None"
  by (auto simp: pending_flash_def flashed_def unflashed_def Let_def scs_laws[OF assms])

text \<open>
  A flash is shown once: the next take returns exactly the kind, message and field key that
  were set, over whatever flash was pending before, and the take after that returns nothing; the
  signed-in user, the password epoch and the return path of the session are untouched.
\<close>

theorem flash_one_shot:
  assumes "scs_contract (sessions P)" and "msg \<noteq> []" and "kind \<noteq> []"
    and "set_keyed_flash P kind key msg c = (r, c1)"
    and "take_flash P c1 = (r1, c2)" and "take_flash P c2 = (r2, c3)"
  shows "r1 = Inr (Some \<lparr>f_kind = kind, f_message = msg, f_key = key\<rparr>) \<and> r2 = Inr None \<and>
    (\<forall>k \<in> {''user_id'', ''password_epoch'', ''after_signin''}.
       GetString (sessions P) (session c3) k = GetString (sessions P) (session c) k \<and>
       GetInt64 (sessions P) (session c3) k = GetInt64 (sessions P) (session c) k)"
  using assms(2-6)
  by (auto simp: take_flash_run[OF assms(1)] set_keyed_flash_run pending_flashed[OF assms(1)]
      flash_frame[OF assms(1)])

theorem flash_one_shot_witness:
  "let c1 = snd (set_keyed_flash demo_app ''error'' ''email'' ''taken'' demo_web);
       c2 = snd (take_flash demo_app c1) in
   fst (take_flash demo_app c1) = Inr (Some \<lparr>f_kind = ''error'', f_message = ''taken'', f_key = ''email''\<rparr>) \<and>
   fst (take_flash demo_app c2) = Inr None"
proof -
  have "scs_contract (sessions demo_app)" by (simp add: demo_app_def mem_scs_contract)
  from flash_one_shot[OF this _ _ surjective_pairing surjective_pairing surjective_pairing,
      of "''taken''" "''error''" "''email''" demo_web]
  show ?thesis by (simp add: Let_def)
qed

end
