(* ===== verification/Secure.thy ===== *)
theory Secure
  imports Flash
begin

text \<open>
  \<open>web/secure.go\<close>: the response headers, the same-origin gate in front of every POST, and the
  redirect that only goes to a path of the application.
\<close>

text \<open>\<open>base64.RawStdEncoding\<close>: the URL alphabet with the last two symbols replaced.\<close>

definition std_symbol :: "char \<Rightarrow> char" where
  "std_symbol c = (if c = CHR ''-'' then CHR ''+'' else if c = CHR ''_'' then CHR ''/'' else c)"

definition base64_std_encode :: "string \<Rightarrow> string" where
  "base64_std_encode s = map std_symbol (base64_encode s)"

definition quoted :: "string \<Rightarrow> string" where
  "quoted s = CHR 0x27 # s @ [CHR 0x27]"

definition content_security_policy :: "string \<Rightarrow> string" where
  "content_security_policy n =
     ''default-src '' @ quoted ''self'' @ ''; '' @
     ''script-src '' @ quoted ''self'' @ '' '' @ quoted (''nonce-'' @ n) @ ''; '' @
     ''style-src '' @ quoted ''self'' @ '' '' @ quoted ''unsafe-inline'' @ ''; '' @
     ''img-src '' @ quoted ''self'' @ '' data:; '' @
     ''form-action '' @ quoted ''self'' @ ''; '' @
     ''frame-ancestors '' @ quoted ''none'' @ ''; '' @
     ''base-uri '' @ quoted ''self''"

definition set_header :: "string \<Rightarrow> string \<Rightarrow> ('s, unit) wact" where
  "set_header k v = modify (\<lambda>c. c\<lparr>resp := (resp c)\<lparr>headers := (headers (resp c))(k \<mapsto> v)\<rparr>\<rparr>)"

definition secure_headers :: "'s app \<Rightarrow> 's handler \<Rightarrow> 's handler" where
  "secure_headers P next req =
     bindE (wrapE (errorf ''generating csp nonce: '') (domain rand_read)) (\<lambda>nonce.
     let n = base64_std_encode nonce in
     bindE (set_header ''Content-Security-Policy'' (content_security_policy n)) (\<lambda>_.
     bindE (set_header ''X-Content-Type-Options'' ''nosniff'') (\<lambda>_.
     bindE (set_header ''X-Frame-Options'' ''DENY'') (\<lambda>_.
     bindE (set_header ''Referrer-Policy'' ''strict-origin-when-cross-origin'') (\<lambda>_.
     bindE (if prod_mode P
            then set_header ''Strict-Transport-Security'' ''max-age=31536000; includeSubDomains''
            else ret ()) (\<lambda>_.
     bindE (modify (\<lambda>c. c\<lparr>csp_nonce := n\<rparr>)) (\<lambda>_.
     next req)))))))"

definition request_scheme :: "request \<Rightarrow> string" where
  "request_scheme r =
     (if Header r ''X-Forwarded-Proto'' \<noteq> [] then Header r ''X-Forwarded-Proto''
      else if URL_Scheme r \<noteq> [] then URL_Scheme r
      else if TLS r then ''https''
      else ''http'')"

definition same_origin_request :: "'s app \<Rightarrow> request \<Rightarrow> bool" where
  "same_origin_request P r =
     (if Method r \<noteq> ''POST'' then True
      else if has_prefix (Path r) ''/api/inngest'' then True
      else if Header r ''Origin'' \<noteq> [] then
        (case url_parse P (Header r ''Origin'') of
           Inl _ \<Rightarrow> False
         | Inr (scheme, host) \<Rightarrow>
             equal_fold (unicode_fold P) scheme (request_scheme r) \<and>
             equal_fold (unicode_fold P) host (Host r))
      else Header r ''Sec-Fetch-Site'' = ''same-origin'' \<or> Header r ''Sec-Fetch-Site'' = ''none'')"

definition same_origin_post :: "'s app \<Rightarrow> 's handler \<Rightarrow> 's handler" where
  "same_origin_post P next req =
     (if \<not> same_origin_request P req then fail (HTTPError 403 ''forbidden'' None) else next req)"

definition safe_redirect_path :: "string \<Rightarrow> bool" where
  "safe_redirect_path path \<longleftrightarrow>
     has_prefix path ''/'' \<and> \<not> has_prefix path ''//'' \<and> \<not> has_prefix path [CHR ''/'', CHR 0x5C]"

definition safe_redirect :: "string \<Rightarrow> ('s, unit) wact" where
  "safe_redirect path =
     (let path = (if \<not> safe_redirect_path path then ''/'' else path) in
      wrapE (errorf (''redirecting to '' @ path @ '': '')) (redirect 303 path))"

subsection \<open>What the policy admits\<close>

text \<open>
  A policy as a browser reads it (CSP Level 3): directives between semicolons, a name and source expressions
  between spaces, the first directive of a name counts, and \<open>default-src\<close> stands in for a missing
  \<open>script-src\<close>.  A script is admitted if one source expression admits it; an expression that is neither
  \<open>'self'\<close>, \<open>'none'\<close> nor a nonce is counted as one that admits everything.
\<close>

definition csp_directive :: "string \<Rightarrow> string \<Rightarrow> string list option" where
  "csp_directive policy name =
     map_option tl (find (\<lambda>ws. ws \<noteq> [] \<and> hd ws = name)
       (map (\<lambda>d. filter (\<lambda>w. w \<noteq> []) (split_on CHR '' '' d)) (split_on CHR '';'' policy)))"

record page_script =
  from_own_origin :: bool
  script_nonce :: "string option"

definition source_admits :: "page_script \<Rightarrow> string \<Rightarrow> bool" where
  "source_admits s src =
     (if src = quoted ''self'' then from_own_origin s
      else if src = quoted ''none'' then False
      else if has_prefix src (CHR 0x27 # ''nonce-'') then script_nonce s = Some (butlast (drop 7 src))
      else True)"

definition admits_script :: "string \<Rightarrow> page_script \<Rightarrow> bool" where
  "admits_script policy s =
     (case csp_directive policy ''script-src'' of
        Some srcs \<Rightarrow> list_ex (source_admits s) srcs
      | None \<Rightarrow> (case csp_directive policy ''default-src'' of None \<Rightarrow> True | Some srcs \<Rightarrow> list_ex (source_admits s) srcs))"

lemma nonce_plain:
  "CHR '' '' \<notin> set (base64_std_encode s)" "CHR '';'' \<notin> set (base64_std_encode s)"
proof -
  have "list_all (\<lambda>c. std_symbol c \<noteq> CHR '' '' \<and> std_symbol c \<noteq> CHR '';'') b64_alphabet"
    by (simp add: std_symbol_def b64_alphabet_def)
  then have "\<forall>c \<in> set (base64_encode s). std_symbol c \<noteq> CHR '' '' \<and> std_symbol c \<noteq> CHR '';''"
    using base64_alphabet[of s] by (auto simp: list_all_iff)
  then show "CHR '' '' \<notin> set (base64_std_encode s)" "CHR '';'' \<notin> set (base64_std_encode s)"
    by (auto simp: base64_std_encode_def)
qed

text \<open>The directives of the application's policy.\<close>

definition policy_texts :: "string \<Rightarrow> string list" where
  "policy_texts n = [''default-src '' @ quoted ''self'', '' script-src '' @ quoted ''self'' @ '' '' @ quoted (''nonce-'' @ n),
     '' style-src '' @ quoted ''self'' @ '' '' @ quoted ''unsafe-inline'', '' img-src '' @ quoted ''self'' @ '' data:'',
     '' form-action '' @ quoted ''self'', '' frame-ancestors '' @ quoted ''none'', '' base-uri '' @ quoted ''self'']"

lemma policy_split:
  assumes "CHR '';'' \<notin> set n"
  shows "split_on CHR '';'' (content_security_policy n) = policy_texts n"
proof -
  have join: "content_security_policy n = join '';'' (policy_texts n)"
    by (simp add: content_security_policy_def policy_texts_def quoted_def)
  show ?thesis unfolding join
    by (rule split_on_join) (use assms in \<open>simp_all add: policy_texts_def quoted_def\<close>)
qed

lemma script_words:
  assumes "CHR '' '' \<notin> set n"
  shows "split_on CHR '' '' ('' script-src '' @ quoted ''self'' @ '' '' @ quoted (''nonce-'' @ n)) =
    [[], ''script-src'', quoted ''self'', quoted (''nonce-'' @ n)]"
proof -
  have join: "'' script-src '' @ quoted ''self'' @ '' '' @ quoted (''nonce-'' @ n) =
      join '' '' [[], ''script-src'', quoted ''self'', quoted (''nonce-'' @ n)]"
    by (simp add: quoted_def)
  show ?thesis unfolding join
    by (rule split_on_join) (use assms in \<open>simp_all add: quoted_def\<close>)
qed

lemma policy_directives:
  assumes "n = base64_std_encode bytes"
  shows "map (\<lambda>d. filter (\<lambda>w. w \<noteq> []) (split_on CHR '' '' d)) (split_on CHR '';'' (content_security_policy n)) =
    [[''default-src'', quoted ''self''], [''script-src'', quoted ''self'', quoted (''nonce-'' @ n)],
     [''style-src'', quoted ''self'', quoted ''unsafe-inline''], [''img-src'', quoted ''self'', ''data:''],
     [''form-action'', quoted ''self''], [''frame-ancestors'', quoted ''none''], [''base-uri'', quoted ''self'']]"
proof -
  have n: "CHR '' '' \<notin> set n" "CHR '';'' \<notin> set n" using nonce_plain[of bytes] assms by simp_all
  have q: "quoted s \<noteq> []" for s by (simp add: quoted_def)
  have w: "split_on CHR '' '' (''default-src '' @ quoted ''self'') = [''default-src'', quoted ''self'']"
    "split_on CHR '' '' ('' style-src '' @ quoted ''self'' @ '' '' @ quoted ''unsafe-inline'') =
       [[], ''style-src'', quoted ''self'', quoted ''unsafe-inline'']"
    "split_on CHR '' '' ('' img-src '' @ quoted ''self'' @ '' data:'') = [[], ''img-src'', quoted ''self'', ''data:'']"
    "split_on CHR '' '' ('' form-action '' @ quoted ''self'') = [[], ''form-action'', quoted ''self'']"
    "split_on CHR '' '' ('' frame-ancestors '' @ quoted ''none'') = [[], ''frame-ancestors'', quoted ''none'']"
    "split_on CHR '' '' ('' base-uri '' @ quoted ''self'') = [[], ''base-uri'', quoted ''self'']"
    by (simp_all add: quoted_def)
  show ?thesis
    unfolding policy_split[OF n(2)] policy_texts_def list.map script_words[OF n(1)] w
    by (simp only: filter.simps q if_True if_False not_False_eq_True list.distinct simp_thms)
qed

lemma policy_admits:
  assumes "n = base64_std_encode bytes"
  shows "admits_script (content_security_policy n) s \<longleftrightarrow> from_own_origin s \<or> script_nonce s = Some n"
    and "csp_directive (content_security_policy n) ''default-src'' = Some [quoted ''self'']"
    and "csp_directive (content_security_policy n) ''form-action'' = Some [quoted ''self'']"
    and "csp_directive (content_security_policy n) ''frame-ancestors'' = Some [quoted ''none'']"
    and "csp_directive (content_security_policy n) ''base-uri'' = Some [quoted ''self'']"
proof -
  have "csp_directive (content_security_policy n) ''script-src'' = Some [quoted ''self'', quoted (''nonce-'' @ n)]"
    by (simp add: csp_directive_def policy_directives[OF assms])
  moreover have "source_admits s (quoted (''nonce-'' @ n)) \<longleftrightarrow> script_nonce s = Some n"
    by (simp add: source_admits_def quoted_def has_prefix_iff)
  moreover have "source_admits s (quoted ''self'') \<longleftrightarrow> from_own_origin s" by (simp add: source_admits_def)
  ultimately show "admits_script (content_security_policy n) s \<longleftrightarrow> from_own_origin s \<or> script_nonce s = Some n"
    by (simp add: admits_script_def)
  show "csp_directive (content_security_policy n) ''default-src'' = Some [quoted ''self'']"
    "csp_directive (content_security_policy n) ''form-action'' = Some [quoted ''self'']"
    "csp_directive (content_security_policy n) ''frame-ancestors'' = Some [quoted ''none'']"
    "csp_directive (content_security_policy n) ''base-uri'' = Some [quoted ''self'']"
    by (simp_all add: csp_directive_def policy_directives[OF assms])
qed

subsection \<open>Redirects stay in the application\<close>

text \<open>
  How a browser reads a \<open>Location\<close> (WHATWG): leading control characters and spaces and every tab
  and newline are dropped; then two slashes, of either kind, start a host, and one starts a path
  of the same origin.
\<close>

definition url_cleaned :: "string \<Rightarrow> string" where
  "url_cleaned s = filter (\<lambda>c. byte c \<notin> {9, 10, 13 :: nat}) (dropWhile (\<lambda>c. byte c \<le> (32 :: nat)) s)"

definition slash :: "char \<Rightarrow> bool" where
  "slash c \<longleftrightarrow> c = CHR ''/'' \<or> c = CHR 0x5C"

fun same_origin_path :: "string \<Rightarrow> bool" where
  "same_origin_path (a # b # s) = (slash a \<and> \<not> slash b)"
| "same_origin_path [a] = slash a"
| "same_origin_path [] = False"

lemma safe_redirect_run:
  "safe_redirect path c = (Inr (), c\<lparr>resp := (resp c)\<lparr>committed := True, status := 303,
     headers := (headers (resp c))(''Location'' \<mapsto> if safe_redirect_path path then path else ''/'')\<rparr>\<rparr>)"
  by (simp add: safe_redirect_def redirect_def wrapE_def)

text \<open>
  C25: Wherever a handler asks to go, the redirect is a 303 to a path of the application: the
  asked-for path if it is local, and \<open>/\<close> otherwise; a browser resolves it on the same origin,
  provided the path has no tab or newline in it.
\<close>

theorem safe_redirect_stays_local:
  assumes "\<forall>c \<in> set path. byte c \<notin> {9, 10, 13 :: nat}"
    and "safe_redirect path c = (r, c')"
  shows "r = Inr () \<and> status (resp c') = 303 \<and>
    (\<exists>loc. headers (resp c') ''Location'' = Some loc \<and> same_origin_path (url_cleaned loc) \<and>
       (loc = path \<or> loc = ''/'') \<and> (loc = path \<longleftrightarrow> safe_redirect_path path \<or> path = ''/''))"
proof -
  have safe: "same_origin_path (url_cleaned path)" if "safe_redirect_path path"
  proof -
    from that obtain s where p: "path = CHR ''/'' # s" by (auto simp: safe_redirect_path_def has_prefix_iff)
    have "url_cleaned path = path" using assms(1) unfolding url_cleaned_def p
      by (auto simp: filter_id_conv)
    with that p show ?thesis by (cases s) (auto simp: safe_redirect_path_def slash_def)
  qed
  have root: "same_origin_path (url_cleaned ''/'')" by (simp add: url_cleaned_def slash_def)
  show ?thesis
    using assms(2) safe root by (auto simp: safe_redirect_run)
qed

theorem safe_redirect_stays_local_witness:
  "headers (resp (snd (safe_redirect ''//evil.example'' demo_web))) ''Location'' = Some ''/'' \<and>
   headers (resp (snd (safe_redirect ''/orders?page=2'' demo_web))) ''Location'' = Some ''/orders?page=2''"
  using safe_redirect_stays_local[OF _ surjective_pairing, of "''//evil.example''" demo_web]
    safe_redirect_stays_local[OF _ surjective_pairing, of "''/orders?page=2''" demo_web]
  by (auto simp: safe_redirect_path_def)

text \<open>Without that proviso the check does not suffice: a tab hides the second slash.\<close>

lemma safe_redirect_tab:
  "safe_redirect_path (''/'' @ chr 9 # ''/evil.example'') \<and>
   \<not> same_origin_path (url_cleaned (''/'' @ chr 9 # ''/evil.example''))"
  by (simp add: safe_redirect_path_def url_cleaned_def slash_def chr_eval)

subsection \<open>The gate in front of every POST\<close>

text \<open>
  A POST that a page of the origin \<open>scheme://host\<close> made a browser send (Fetch): its \<open>Origin\<close> is that origin,
  or the opaque one, \<open>null\<close>, in which \<open>url.Parse\<close> finds no host; a browser that sends none says in
  \<open>Sec-Fetch-Site\<close> that the request comes from another site, or says nothing.  A form cannot set
  \<open>X-Forwarded-Proto\<close>, so \<open>request_scheme\<close> is the application's own.
\<close>

definition posted_by :: "'s app \<Rightarrow> string \<Rightarrow> string \<Rightarrow> request \<Rightarrow> bool" where
  "posted_by P scheme host req \<longleftrightarrow> Method req = ''POST'' \<and>
     (if Header req ''Origin'' \<noteq> []
      then url_parse P (Header req ''Origin'') = Inr (scheme, host) \<or>
        Header req ''Origin'' = ''null'' \<and> url_parse P ''null'' = Inr ([], [])
      else Header req ''Sec-Fetch-Site'' \<in> {''cross-site'', ''same-site'', []})"

lemma posted_by_other:
  assumes "posted_by P scheme host req" and "\<not> has_prefix (Path req) ''/api/inngest''"
    and "ascii scheme" and "ascii host" and "ascii (request_scheme req)" and "ascii (Host req)" and "Host req \<noteq> []"
    and "to_lower id scheme \<noteq> to_lower id (request_scheme req) \<or> to_lower id host \<noteq> to_lower id (Host req)"
  shows "\<not> same_origin_request P req"
proof -
  have "\<not> equal_fold (unicode_fold P) [] (Host req)"
    using assms(6,7) equal_fold_ascii[of "[]" "Host req" "unicode_fold P" id] by (simp add: to_lower_def ascii_def)
  with assms show ?thesis
    using equal_fold_ascii[OF assms(3,5), of "unicode_fold P" id] equal_fold_ascii[OF assms(4,6), of "unicode_fold P" id]
    by (auto simp: posted_by_def same_origin_request_def split: if_splits)
qed

text \<open>
  A cross-site form post gets nowhere: a POST whose Origin names another scheme or host, or
  which carries neither an Origin nor a \<open>Sec-Fetch-Site\<close> of \<open>same-origin\<close> or \<open>none\<close>, is answered 403
  with no handler run and nothing changed; every other request reaches its handler unchanged.
  Paths under \<open>/api/inngest\<close>, which are signed, are exempt.
\<close>

theorem same_origin_gate:
  assumes "Method req = ''POST''" and "\<not> has_prefix (Path req) ''/api/inngest''"
    and "url_parse P (Header req ''Origin'') = Inr (scheme, host)"
    and "ok = (if Header req ''Origin'' \<noteq> []
       then equal_fold (unicode_fold P) scheme (request_scheme req) \<and> equal_fold (unicode_fold P) host (Host req)
       else Header req ''Sec-Fetch-Site'' \<in> {''same-origin'', ''none''})"
  shows "same_origin_post P next req c =
    (if ok then next req c else (Inl (HTTPError 403 ''forbidden'' None), c))"
  using assms by (simp add: same_origin_post_def same_origin_request_def)

theorem same_origin_gate_witness:
  "same_origin_post demo_app (\<lambda>req. ret ()) (demo_request\<lparr>Method := ''POST'',
     Header := (\<lambda>h. if h = ''Origin'' then ''evil.example'' else [])\<rparr>) demo_web =
     (Inl (HTTPError 403 ''forbidden'' None), demo_web) \<and>
   same_origin_post demo_app (\<lambda>req. ret ()) (demo_request\<lparr>Method := ''POST'',
     Header := (\<lambda>h. if h = ''Origin'' then ''app.example.com'' else [])\<rparr>) demo_web = (Inr (), demo_web)"
proof -
  have differ: "\<not> equal_fold id ''evil.example'' ''app.example.com''"
  proof
    assume "equal_fold id ''evil.example'' ''app.example.com''"
    then have "rune_count ''evil.example'' = rune_count ''app.example.com''"
      unfolding equal_fold_def rune_count_def by (rule map_eq_imp_length_eq)
    then show False by (simp add: rune_count_ascii ascii_def)
  qed
  let ?r = "\<lambda>og. demo_request\<lparr>Method := ''POST'', Header := (\<lambda>h. if h = ''Origin'' then og else [])\<rparr>"
  have scheme: "request_scheme (?r og) = ''http''" for og by (simp add: request_scheme_def demo_request_def)
  show ?thesis
    using same_origin_gate[of "?r ''evil.example''" demo_app "''http''" "''evil.example''" _ "\<lambda>req. ret ()" demo_web]
      same_origin_gate[of "?r ''app.example.com''" demo_app "''http''" "''app.example.com''" _ "\<lambda>req. ret ()" demo_web]
      differ scheme
    by (simp add: demo_app_def demo_request_def)
qed

end
