(* ===== verification/Web_Auth.thy ===== *)
theory Web_Auth
  imports Secure
begin

text \<open>
  \<open>web/auth.go\<close>: who is signed in.  \<open>LoadUser\<close> resolves the session to a user once per request,
  \<open>RequireUser\<close>, \<open>RequirePolicy\<close> and \<open>RequireRole\<close> gate handlers on it.  \<open>session_user\<close> is the
  specification: the account the session names, provided its password is still the one the
  session signed in with.
\<close>

function (sequential) itoa_nat :: "nat \<Rightarrow> string" where
  "itoa_nat n = (if n < 10 then [chr (48 + n)] else itoa_nat (n div 10) @ [chr (48 + n mod 10)])"
  by auto
termination by (relation "measure id") auto

definition itoa :: "int \<Rightarrow> string" where
  "itoa i = (if i < 0 then CHR ''-'' # itoa_nat (nat (- i)) else itoa_nat (nat i))"

declare itoa_nat.simps [simp del]

definition current_user :: "('s, user option) wact" where
  "current_user = gets cu"

definition load_user :: "'s app \<Rightarrow> 's handler \<Rightarrow> 's handler" where
  "load_user P next req =
     bindE (sess_get (\<lambda>s. GetInt64 (sessions P) s ''user_id'')) (\<lambda>i.
     if i = 0 then next req
     else bindE (attempt (domain (by_id (lower_of P) i))) (\<lambda>r.
       case r of
         Inl err \<Rightarrow>
           if errors_is err ErrNotFound
           then bindE (sess_do (RemoveKey (sessions P) ''user_id'')) (\<lambda>_. next req)
           else fail (errorf (''loading session user '' @ itoa i @ '': '') err)
       | Inr u \<Rightarrow>
           bindE (sess_get (\<lambda>s. GetString (sessions P) s ''password_epoch'')) (\<lambda>epoch.
           if epoch \<noteq> password_epoch (sha_of P) u
           then bindE (wrapE (errorf ''destroying stale-epoch session: '')
                  (sess_store (Destroy (sessions P)))) (\<lambda>_. next req)
           else bindE (modify (\<lambda>c. c\<lparr>cu := Some u\<rparr>)) (\<lambda>_. next req))))"

definition require_user :: "'s app \<Rightarrow> 's handler \<Rightarrow> 's handler" where
  "require_user P next req =
     bindE current_user (\<lambda>u.
     if u = None
     then bindE (sess_do (PutString (sessions P) ''after_signin'' (RequestURI req))) (\<lambda>_.
            safe_redirect ''/signin'')
     else next req)"

definition require_policy :: "'s app \<Rightarrow> (user \<Rightarrow> gerr option) \<Rightarrow> 's handler \<Rightarrow> 's handler" where
  "require_policy P policy next =
     require_user P (\<lambda>req. bindE current_user (\<lambda>u.
       case u of
         None \<Rightarrow> fail (External ''nil pointer dereference'')
       | Some v \<Rightarrow>
           (case policy v of
              Some err \<Rightarrow> fail (HTTPError 403 ''forbidden'' (Some err))
            | None \<Rightarrow> next req)))"

definition require_role :: "'s app \<Rightarrow> string \<Rightarrow> 's handler \<Rightarrow> 's handler" where
  "require_role P role =
     require_policy P (\<lambda>u. if \<not> has_role u role
       then Some (Wrap [] (Sentinel ErrMissingRole) ('': '' @ role)) else None)"

subsection \<open>Who the session is\<close>

definition session_user :: "'s app \<Rightarrow> tables \<Rightarrow> 's \<Rightarrow> user option" where
  "session_user P T s =
     (if GetInt64 (sessions P) s ''user_id'' = 0 then None
      else case user_by_id T (GetInt64 (sessions P) s ''user_id'') of
        None \<Rightarrow> None
      | Some u \<Rightarrow>
          if GetString (sessions P) s ''password_epoch'' = password_epoch (sha_of P) u then Some u
          else None)"

lemma session_user_users: "users T = users T' \<Longrightarrow> session_user P T s = session_user P T' s"
  by (simp add: session_user_def user_by_id_def)

text \<open>The state in which \<open>LoadUser\<close> hands over, when every call works.\<close>

definition after_load :: "'s app \<Rightarrow> 's web \<Rightarrow> 's web" where
  "after_load P c =
     (let S = sessions P; i = GetInt64 S (session c) ''user_id'' in
      if i = 0 then c
      else let c1 = c\<lparr>world_of := tick (world_of c)\<rparr> in
        case user_by_id (tables (world_of c)) i of
          None \<Rightarrow> c1\<lparr>session := RemoveKey S ''user_id'' (session c)\<rparr>
        | Some u \<Rightarrow>
            if GetString S (session c) ''password_epoch'' = password_epoch (sha_of P) u
            then c1\<lparr>cu := Some u\<rparr>
            else c1\<lparr>world_of := tick (tick (world_of c)), session := Destroy S (session c)\<rparr>)"

lemma by_id_web:
  assumes "store_inv (lower_of P) (world_of c)"
  shows "domain (by_id (lower_of P) i) c =
    (lookup_result (fate (world_of c) (calls (world_of c))) (user_by_id (tables (world_of c)) i),
     c\<lparr>world_of := tick (world_of c)\<rparr>)"
  using by_id_tx_run[OF assms, of i] by (simp add: domain_run by_id_def)

lemma load_user_run:
  assumes "store_inv (lower_of P) (world_of c)" and "reliable (world_of c)"
  shows "load_user P next req c = next req (after_load P c)"
  using assms(2)
  by (auto simp: load_user_def after_load_def bindE_def attempt_def by_id_web[OF assms(1)]
      lookup_result_def reliable_def[of "world_of c"] Let_def wrapE_def sess_store_reliable
      split: option.split)

lemma after_load_user:
  assumes "cu c = None"
  shows "cu (after_load P c) = session_user P (tables (world_of c)) (session c)"
  using assms by (simp add: after_load_def session_user_def Let_def split: option.split)

lemma after_load_world [simp]:
  "tables (world_of (after_load P c)) = tables (world_of c)"
  "store_inv lower (world_of (after_load P c)) = store_inv lower (world_of c)"
  "reliable (world_of (after_load P c)) = reliable (world_of c)"
  "outbox (world_of (after_load P c)) = outbox (world_of c)"
  "enqueued (world_of (after_load P c)) = enqueued (world_of c)"
  "resp (after_load P c) = resp c" "captured (after_load P c) = captured c"
  by (simp_all add: after_load_def Let_def split: option.split)

text \<open>
  \<open>LoadUser\<close> hands the request on as exactly the user the session is: the account with the
  session's user id while the session's password epoch is that account's, and nobody otherwise;
  a session left from before a password change is destroyed, one of a deleted account loses its
  user id; nothing in the tables changes.
\<close>

theorem load_user_spec:
  assumes "scs_contract (sessions P)" and "store_inv (lower_of P) (world_of c)"
    and "reliable (world_of c)" and "cu c = None"
  shows "\<exists>c'. load_user P next req c = next req c' \<and>
    cu c' = session_user P (tables (world_of c)) (session c) \<and> tables (world_of c') = tables (world_of c) \<and>
    (cu c' = None \<longrightarrow> GetInt64 (sessions P) (session c') ''user_id'' = 0) \<and>
    (cu c' \<noteq> None \<longrightarrow> session c' = session c)"
proof -
  have "cu (after_load P c) = None \<longrightarrow> GetInt64 (sessions P) (session (after_load P c)) ''user_id'' = 0"
    "cu (after_load P c) \<noteq> None \<longrightarrow> session (after_load P c) = session c"
    using assms(4) by (auto simp: after_load_def Let_def scs_laws[OF assms(1)] split: option.splits)
  then show ?thesis
    using load_user_run[OF assms(2,3), of "next" req] after_load_user[OF assms(4), of P]
    by (intro exI[of _ "after_load P c"]) simp
qed

text \<open>The demo user's session.\<close>

definition ada_web :: "mem_session web" where
  "ada_web = demo_web\<lparr>session := ([''user_id'' \<mapsto> SvInt 1,
     ''password_epoch'' \<mapsto> SvStr (hex_encode (u_password_hash ada))], 0)\<rparr>"

lemma ada_web_fields [simp]:
  "world_of ada_web = demo_world" "cu ada_web = None" "resp ada_web = empty_response"
  "world_of demo_web = demo_world" "cu demo_web = None" "resp demo_web = empty_response"
  "lower_of demo_app = id" "sha_of demo_app = id" "argon demo_app = demo_argon2id"
  "dummy_hash demo_app = ''decoy$''" "unicode_lower demo_app = id"
  by (simp_all add: ada_web_def demo_web_def demo_app_def)

lemma demo_app_sessions: "scs_contract (sessions demo_app)"
  by (simp add: demo_app_def mem_scs_contract)

lemma ada_session: "session_user demo_app (tables demo_world) (session ada_web) = Some ada"
proof -
  have "user_by_id (tables demo_world) 1 = Some ada"
    using user_by_id_mem[OF demo_world_inv(1)[of id], of ada] by (simp add: ada_def)
  then show ?thesis
    by (simp add: session_user_def ada_web_def demo_app_def mem_scs_def password_epoch_def
        del: demo_world_fields)
qed

theorem load_user_spec_witness:
  "\<exists>c'. load_user demo_app (\<lambda>req. ret ()) demo_request ada_web = (Inr (), c') \<and> cu c' = Some ada"
  using load_user_spec[OF demo_app_sessions, of ada_web "\<lambda>req. ret ()" demo_request]
    demo_world_inv ada_session by (auto simp del: demo_world_fields)

text \<open>
  \<open>LoadUser\<close> fails closed: however the database and the session store behave, the handler
  either does not run, and the request ends in an error, or runs as nobody, or as the user the
  session really is.
\<close>

theorem load_user_fails_closed:
  assumes "store_inv (lower_of P) (world_of c)" and "cu c = None"
  shows "(\<exists>e c'. load_user P next req c = (Inl e, c') \<and> cu c' = None \<and> resp c' = resp c \<and>
      tables (world_of c') = tables (world_of c)) \<or>
    (\<exists>c'. load_user P next req c = next req c' \<and> tables (world_of c') = tables (world_of c) \<and>
      (cu c' = None \<or> cu c' = session_user P (tables (world_of c)) (session c)))"
proof -
  let ?S = "sessions P" and ?w = "world_of c" and ?c1 = "c\<lparr>world_of := tick (world_of c)\<rparr>"
  let ?i = "GetInt64 ?S (session c) ''user_id''"
  let ?r = "lookup_result (fate ?w (calls ?w)) (user_by_id (tables ?w) ?i)"
  show ?thesis
  proof (cases "?i = 0")
    case True
    then have "load_user P next req c = next req c" by (simp add: load_user_def bindE_def)
    with assms(2) show ?thesis by blast
  next
    case False
    show ?thesis
    proof (cases ?r)
      case (Inl err)
      show ?thesis
      proof (cases "errors_is err ErrNotFound")
        case True
        then have "load_user P next req c = next req (?c1\<lparr>session := RemoveKey ?S ''user_id'' (session c)\<rparr>)"
          using False Inl by (simp add: load_user_def bindE_def attempt_def by_id_web[OF assms(1)])
        with assms(2) show ?thesis by fastforce
      next
        case nf: False
        then have "load_user P next req c = (Inl (errorf (''loading session user '' @ itoa ?i @ '': '') err), ?c1)"
          using False Inl by (simp add: load_user_def bindE_def attempt_def by_id_web[OF assms(1)])
        with assms(2) show ?thesis by fastforce
      qed
    next
      case (Inr u)
      show ?thesis
      proof (cases "GetString ?S (session c) ''password_epoch'' = password_epoch (sha_of P) u")
        case True
        then have "load_user P next req c = next req (?c1\<lparr>cu := Some u\<rparr>)"
          using False Inr by (simp add: load_user_def bindE_def attempt_def by_id_web[OF assms(1)])
        moreover have "session_user P (tables ?w) (session c) = Some u"
          using False True lookup_result_Inr[OF Inr] by (simp add: session_user_def)
        ultimately show ?thesis by fastforce
      next
        case stale: False
        obtain r w2 where d: "external_call id (tick ?w) = (r, w2)" by force
        have w2: "tables w2 = tables ?w" using d
          by (auto simp: external_call_def next_call_eq split: outcome.splits)
        have "load_user P next req c =
            (case r of Inl e \<Rightarrow> (Inl (errorf ''destroying stale-epoch session: '' e), c\<lparr>world_of := w2\<rparr>)
             | Inr _ \<Rightarrow> next req (c\<lparr>world_of := w2, session := Destroy ?S (session c)\<rparr>))"
          using False Inr stale d
          by (simp add: load_user_def bindE_def attempt_def by_id_web[OF assms(1)] sess_store_run
              wrapE_def split: sum.split)
        with w2 assms(2) show ?thesis by (cases r) fastforce+
      qed
    qed
  qed
qed

theorem load_user_fails_closed_witness:
  "let c = ada_web\<lparr>world_of := demo_world\<lparr>fate := (\<lambda>n. Refused ''connection refused'')\<rparr>\<rparr> in
   (\<exists>e c'. load_user demo_app (\<lambda>req. ret ()) demo_request c = (Inl e, c') \<and> cu c' = None) \<or>
   (\<exists>c'. load_user demo_app (\<lambda>req. ret ()) demo_request c = (Inr (), c') \<and>
      (cu c' = None \<or> cu c' = Some ada))"
proof -
  let ?c = "ada_web\<lparr>world_of := demo_world\<lparr>fate := (\<lambda>n. Refused ''connection refused'')\<rparr>\<rparr>"
  have "store_inv (lower_of demo_app) (world_of ?c)"
    using demo_world_inv(1)[of id] by (simp add: store_inv_def)
  moreover have "session_user demo_app (tables (world_of ?c)) (session ?c) = Some ada"
    using ada_session by simp
  ultimately show ?thesis
    using load_user_fails_closed[of demo_app ?c "\<lambda>req. ret ()" demo_request] by (auto simp: Let_def)
qed

subsection \<open>The gates\<close>

lemma current_user_run [simp]: "current_user c = (Inr (cu c), c)"
  by (simp add: current_user_def)

lemma signin_path_safe [simp]: "safe_redirect_path ''/signin''" "safe_redirect_path ''/password-reset''"
  "safe_redirect_path ''/''"
  by (simp_all add: safe_redirect_path_def)

lemma require_user_run:
  "require_user P next req c =
     (if cu c = None
      then (Inr (), c\<lparr>session := PutString (sessions P) ''after_signin'' (RequestURI req) (session c),
              resp := (resp c)\<lparr>committed := True, status := 303,
                headers := (headers (resp c))(''Location'' \<mapsto> ''/signin'')\<rparr>\<rparr>)
      else next req c)"
  by (simp add: require_user_def bindE_def safe_redirect_run)

text \<open>
  A page behind \<open>RequireUser\<close> is served to a signed-in user only: anyone else is sent to
  \<open>/signin\<close> with the handler not run, the page remembered for after the sign-in, and nothing
  changed outside the session.
\<close>

theorem require_user_gate:
  assumes "scs_contract (sessions P)"
  shows "(cu c \<noteq> None \<longrightarrow> require_user P next req c = next req c) \<and>
    (cu c = None \<longrightarrow> (\<exists>c'. require_user P next req c = (Inr (), c') \<and>
       status (resp c') = 303 \<and> headers (resp c') ''Location'' = Some ''/signin'' \<and>
       body (resp c') = body (resp c) \<and> world_of c' = world_of c \<and>
       GetString (sessions P) (session c') ''after_signin'' = RequestURI req \<and>
       (\<forall>k. k \<noteq> ''after_signin'' \<longrightarrow>
         GetString (sessions P) (session c') k = GetString (sessions P) (session c) k \<and>
         GetInt64 (sessions P) (session c') k = GetInt64 (sessions P) (session c) k)))"
  by (simp add: require_user_run scs_laws[OF assms])

theorem require_user_gate_witness:
  "\<exists>c'. require_user demo_app (\<lambda>req. fail (External ''ran'')) demo_request demo_web = (Inr (), c') \<and>
     headers (resp c') ''Location'' = Some ''/signin''"
  using require_user_gate[OF demo_app_sessions, of demo_web "\<lambda>req. fail (External ''ran'')" demo_request]
  by auto

text \<open>
  \<open>RequireRole\<close> runs the handler for a signed-in user with the role and for nobody else:
  without the role the answer is a 403 whose cause is \<open>errMissingRole\<close> and nothing changes, and
  signed out it is the redirect to \<open>/signin\<close>.
\<close>

theorem require_role_gate:
  "require_role P role next req c =
     (case cu c of
        None \<Rightarrow> require_user P next req c
      | Some u \<Rightarrow>
          if \<exists>rs. u_roles u = Some rs \<and> role \<in> set rs then next req c
          else (Inl (HTTPError 403 ''forbidden'' (Some (Wrap [] (Sentinel ErrMissingRole) ('': '' @ role)))), c))"
  by (auto simp: require_role_def require_policy_def require_user_run bindE_def has_role_def
      split: option.splits)

text \<open>A session after a reset: signed out if it is of that account, as it was otherwise.\<close>

lemma reset_session_user:
  assumes "store_inv (lower_of P) w"
    and "reset_password (lower_of P) (sha_of P) (argon P) build token pw w = (Inr u, w')"
    and "session_user P (tables w) s = Some v"
    and "u_id v = u_id u \<longrightarrow> sha_of P (u_password_hash u) \<noteq> sha_of P (u_password_hash v)"
  shows "session_user P (tables w') s = (if u_id v = u_id u then None else Some v)"
proof -
  let ?i = "GetInt64 (sessions P) s ''user_id''"
  obtain t hash where r: "tables w' = reset_tables (u_id u) hash (db_now w) (tables w)"
    "u \<in> set (users (tables w'))"
    using reset_password_Inr[OF assms(1,2)] by auto
  have inv: "store_inv (lower_of P) w'" using reset_password_keeps(1)[OF assms(1,2)] .
  have v: "?i \<noteq> 0" "user_by_id (tables w) ?i = Some v"
    "GetString (sessions P) s ''password_epoch'' = password_epoch (sha_of P) v"
    using assms(3) by (auto simp: session_user_def split: if_splits option.splits)
  note v' = user_by_id_Some[OF v(2)]
  show ?thesis
  proof (cases "u_id v = u_id u")
    case True
    then have "user_by_id (tables w') ?i = Some u" using user_by_id_mem[OF inv r(2)] v' by simp
    with True v assms(4) show ?thesis
      by (simp add: session_user_def password_epoch_def hex_encode_inj)
  next
    case False
    then have "v \<in> set (users (tables w'))"
      using v' r(1) by (force simp: reset_tables_def set_password_def)
    with user_by_id_mem[OF inv this] v v' False show ?thesis by (simp add: session_user_def)
  qed
qed

lemma reset_hash:
  assumes "store_inv lower w" and "reset_password lower sha A build token pw w = (Inr u, w')"
  obtains salt where "CreateHash A pw salt = Inr (u_password_hash u)"
proof -
  obtain t :: reset_token and hash salt where r: "CreateHash A pw salt = Inr hash"
    "tables w' = reset_tables (t_user_id t) hash (db_now w) (tables w)"
    "u \<in> set (users (tables w'))" "u_id u = t_user_id t"
    using reset_password_Inr[OF assms] by blast
  then have "u_password_hash u = hash" by (auto simp: reset_tables_def set_password_def split: if_splits)
  with r(1) that show thesis by blast
qed

text \<open>
  C13: A password reset signs every session of that account out and no other.  Take a session that
  \<open>LoadUser\<close> resolves to \<open>v\<close>, a password reset that succeeds after it, and any later request with the same
  session.  If the reset was of \<open>v\<close>, then whatever database and session store do, \<open>LoadUser\<close> either ends
  the request in an error, with nothing answered, or runs the handler as nobody, and when every call works the
  session no longer names an account.  If it was of another account, the handler runs as \<open>v\<close>.  The new hash
  must not be the old one - the old one refuses the new password, or the salt made another - and SHA-256
  must not collide on the two.
\<close>

theorem reset_signs_out_sessions:
  assumes "store_inv (lower_of P) (world_of c0)" and "scs_contract (sessions P)" and "argon2id_contract (argon P)"
    and "load_user P (\<lambda>r. ret ()) req0 c0 = (Inr (), c1)" and "cu c0 = None" and "cu c1 = Some v"
    and "reset_password (lower_of P) (sha_of P) (argon P) build token pw (world_of c0) = (Inr u, w')"
    and "u_id v = u_id u \<longrightarrow> ComparePasswordAndHash (argon P) pw (u_password_hash v) \<noteq> Inr True \<or>
      u_password_hash u \<noteq> u_password_hash v"
    and "sha_of P (u_password_hash u) = sha_of P (u_password_hash v) \<longrightarrow> u_password_hash u = u_password_hash v"
    and "store_inv (lower_of P) (world_of c)" and "tables (world_of c) = tables w'"
    and "session c = session c0" and "cu c = None"
  shows "(u_id v = u_id u \<longrightarrow>
      (\<exists>e c'. load_user P next req c = (Inl e, c') \<and> cu c' = None \<and> resp c' = resp c) \<or>
      (\<exists>c'. load_user P next req c = next req c' \<and> cu c' = None)) \<and>
    (u_id v = u_id u \<and> reliable (world_of c) \<longrightarrow>
      (\<exists>c'. load_user P next req c = next req c' \<and> cu c' = None \<and>
        GetInt64 (sessions P) (session c') ''user_id'' = 0)) \<and>
    (u_id v \<noteq> u_id u \<and> reliable (world_of c) \<longrightarrow>
      (\<exists>c'. load_user P next req c = next req c' \<and> cu c' = Some v \<and> session c' = session c))"
proof -
  have v: "session_user P (tables (world_of c0)) (session c0) = Some v"
    using load_user_fails_closed[OF assms(1,5), of "\<lambda>r. ret ()" req0] assms(4,6) by auto
  obtain salt where "CreateHash (argon P) pw salt = Inr (u_password_hash u)"
    using reset_hash[OF assms(1,7)] by blast
  then have "ComparePasswordAndHash (argon P) pw (u_password_hash u) = Inr True"
    using assms(3) by (simp add: argon2id_contract_def)
  then have now: "session_user P (tables (world_of c)) (session c) = (if u_id v = u_id u then None else Some v)"
    using reset_session_user[OF assms(1,7) v] assms(8,9,11,12) by auto
  note closed = load_user_fails_closed[OF assms(10,13), of "next" req, unfolded now]
  note spec = load_user_spec[OF assms(2,10) _ assms(13), of "next" req, unfolded now]
  show ?thesis using closed spec by (auto split: if_splits)
qed

theorem reset_signs_out_sessions_witness:
  "\<exists>u w' c'. reset_password id id demo_argon2id (\<lambda>q. []) demo_token ''new-password'' (link_world id) = (Inr u, w') \<and>
     u_id u = u_id ada \<and> cu (snd (load_user demo_app (\<lambda>r. ret ()) demo_request (ada_web\<lparr>world_of := link_world id\<rparr>))) = Some ada \<and>
     load_user demo_app (\<lambda>r. ret ()) demo_request (ada_web\<lparr>world_of := w'\<rparr>) = (Inr (), c') \<and> cu c' = None \<and>
     GetInt64 (sessions demo_app) (session c') ''user_id'' = 0"
proof (rule link_used[where sha = id and build = "\<lambda>q. []"])
  fix u w'
  assume r: "reset_password id id demo_argon2id (\<lambda>q. []) demo_token ''new-password'' (link_world id) = (Inr u, w')"
    "u_id u = 1"
  let ?c0 = "ada_web\<lparr>world_of := link_world id\<rparr>"
  have s: "session_user demo_app (tables (link_world id)) (session ada_web) = Some ada"
    using ada_session session_user_users[of "tables (link_world id)" "tables demo_world" demo_app]
    by (simp add: link_world_ok(4) del: demo_world_fields(4))
  obtain c1 where c1: "load_user demo_app (\<lambda>r. ret ()) demo_request ?c0 = (Inr (), c1)" "cu c1 = Some ada"
    using load_user_spec[OF demo_app_sessions, of ?c0 "\<lambda>r. ret ()" demo_request] link_world_ok(1,2)[of id] s by auto
  obtain salt where "CreateHash demo_argon2id ''new-password'' salt = Inr (u_password_hash u)"
    using reset_hash[OF link_world_ok(1) r(1)] by blast
  then have "ComparePasswordAndHash demo_argon2id ''correct-horse'' (u_password_hash u) = Inr False"
    using demo_argon2id_contract by (simp add: argon2id_contract_def)
  then have h: "u_password_hash u \<noteq> u_password_hash ada" using demo_compare by auto
  have k: "store_inv id w'" "reliable w'"
    using reset_password_keeps[OF link_world_ok(1) r(1)] link_world_ok(2)[of id] by (simp_all add: reliable_def)
  show ?thesis
    using reset_signs_out_sessions[of demo_app ?c0 demo_request c1 ada "\<lambda>q. []" demo_token "''new-password''" u w'
        "ada_web\<lparr>world_of := w'\<rparr>" "\<lambda>r. ret ()" demo_request]
      demo_app_sessions demo_argon2id_contract c1 r h k link_world_ok(1)[of id]
    by (auto simp: ada_def)
qed

end
