(* ===== verification/Pages.thy ===== *)
theory Pages
  imports Web_Auth
begin

text \<open>
  Answers: pages in the layout (\<open>web/render.go\<close>), failures (\<open>web/errors.go\<close>,
  \<open>web/apierror/apierror.go\<close>), forms and the POST-redirect-GET of mutations (\<open>web/forms.go\<close>),
  and the design gallery (\<open>web/handlers_design.go\<close>).
\<close>

definition render_page_data ::
  "'s app \<Rightarrow> string \<Rightarrow> string option \<Rightarrow> (layout_data \<Rightarrow> page) \<Rightarrow> ('s, unit) wact" where
  "render_page_data P title extras mk =
     bindE current_user (\<lambda>u.
     bindE (take_flash P) (\<lambda>fl.
     let data = \<lparr>ld_title = title, ld_user = u, ld_flash = fl, ld_head_extras = extras\<rparr>;
         data = (if ld_title data = [] then data\<lparr>ld_title := ''app''\<rparr> else data) in
     bindE (gets csp_nonce) (\<lambda>n.
     case render P n data (mk data) of
       Inl err \<Rightarrow> fail (errorf (''rendering '' @ ld_title data @ '': '') err)
     | Inr bytes \<Rightarrow>
         wrapE (errorf (''writing '' @ ld_title data @ '': '')) (blob 200 (Html bytes) html_mime))))"

definition render_page :: "'s app \<Rightarrow> string \<Rightarrow> string option \<Rightarrow> page \<Rightarrow> ('s, unit) wact" where
  "render_page P title extras pg = render_page_data P title extras (\<lambda>_. pg)"

definition report_of :: "request \<Rightarrow> gerr \<Rightarrow> 's web \<Rightarrow> report" where
  "report_of req err c =
     \<lparr>rp_error = err, rp_request = (Method req, RequestURI req),
      rp_request_id = sent_header c ''X-Request-Id'', rp_user = map_option u_id (cu c)\<rparr>"

definition capture_error :: "request \<Rightarrow> gerr \<Rightarrow> ('s, unit) wact" where
  "capture_error req err = modify (\<lambda>c. c\<lparr>captured := captured c @ [report_of req err c]\<rparr>)"

definition wants_html :: "request \<Rightarrow> bool" where
  "wants_html r = contains (Header r ''Accept'') ''text/html''"

definition apierror_json :: "nat \<Rightarrow> string \<Rightarrow> ('s, unit) wact" where
  "apierror_json code message =
     wrapE (errorf ''rendering api error: '') (blob code (JsonError message code) json_mime)"

definition apierror_internal :: "request \<Rightarrow> gerr \<Rightarrow> ('s, unit) wact" where
  "apierror_internal req err =
     bindE (log_to (LogInternal (Method req) (RequestURI req) err)) (\<lambda>_.
     apierror_json 500 ''Internal Server Error'')"

text \<open>\<open>_ = f(...)\<close>: the effect happens, the error is dropped.\<close>

definition ignore_error :: "('s, unit) wact \<Rightarrow> ('s, unit) wact" where
  "ignore_error m = bindE (attempt m) (\<lambda>_. ret ())"

text \<open>\<open>http.Error\<close> of the standard library.\<close>

definition http_error :: "string \<Rightarrow> nat \<Rightarrow> ('s, unit) wact" where
  "http_error msg code =
     bindE (set_header ''X-Content-Type-Options'' ''nosniff'') (\<lambda>_.
     ignore_error (blob code (Text (msg @ [CHR 0x0A])) ''text/plain; charset=utf-8''))"

definition error_handler :: "'s app \<Rightarrow> request \<Rightarrow> gerr \<Rightarrow> ('s, unit) wact" where
  "error_handler P req err =
     bindE (gets (\<lambda>c. committed (resp c))) (\<lambda>done.
     if done then ret ()
     else
       let code = (if status_code err = 0 then 500 else status_code err) in
       bindE (if code \<ge> 500
              then bindE (log_to (LogFailed (Method req) (RequestURI req) err)) (\<lambda>_. capture_error req err)
              else ret ()) (\<lambda>_.
       if \<not> wants_html req then ignore_error (apierror_json code (status_text P code))
       else
         let detail = (if dev_mode P then err_text err else []) in
         bindE current_user (\<lambda>u.
         let data = \<lparr>ld_title = status_text P code, ld_user = u, ld_flash = None, ld_head_extras = None\<rparr> in
         bindE (gets csp_nonce) (\<lambda>n.
         case render P n data (ErrorPage code (status_text P code) detail) of
           Inl renderErr \<Rightarrow> http_error (status_text P code) code
         | Inr bytes \<Rightarrow> ignore_error (blob code (Html bytes) html_mime)))))"

definition parse_form :: "request \<Rightarrow> ('s, unit) wact" where
  "parse_form req =
     (case FormParse req of
        Some err \<Rightarrow> fail (HTTPError 400 ''malformed form'' (Some err))
      | None \<Rightarrow> ret ())"

definition user_message :: "gerr \<Rightarrow> string \<Rightarrow> string" where
  "user_message err fallback = (case errors_as_user err of Some m \<Rightarrow> m | None \<Rightarrow> fallback)"

record form_result =
  Err :: "gerr option"
  ErrorFlashKey :: string
  OKMessage :: string
  RedirectTo :: string

definition finish_mutation :: "'s app \<Rightarrow> request \<Rightarrow> form_result \<Rightarrow> ('s, unit) wact" where
  "finish_mutation P req result =
     (case Err result of
        Some err \<Rightarrow>
          bindE (log_to (LogMutation (Path req) err)) (\<lambda>_.
          bindE (if errors_as_user err = None then capture_error req err else ret ()) (\<lambda>_.
          bindE (set_keyed_flash P ''error'' (ErrorFlashKey result)
                   (user_message err ''could not save changes'')) (\<lambda>_.
          safe_redirect (RedirectTo result))))
      | None \<Rightarrow>
          bindE (set_flash P ''ok'' (OKMessage result)) (\<lambda>_.
          safe_redirect (RedirectTo result)))"

definition design_showcase :: "'s app \<Rightarrow> 's handler" where
  "design_showcase P req =
     (if prod_mode P then fail (HTTPError 404 ''Not Found'' None)
      else render_page P ''Design system'' (Some (head_extras P)) GalleryPage)"

subsection \<open>Runs\<close>

lemma blob_run:
  "blob code b mime c =
     (let c1 = c\<lparr>resp := (resp c)\<lparr>committed := True, status := code,
            headers := (headers (resp c))(''Content-Type'' \<mapsto> mime)\<rparr>,
          world_of := snd (external_call id (world_of c))\<rparr> in
      case fst (external_call id (world_of c)) of
        Inl e \<Rightarrow> (Inl e, c1)
      | Inr _ \<Rightarrow> (Inr (), c1\<lparr>resp := (resp c1)\<lparr>body := b\<rparr>\<rparr>))"
  by (simp add: blob_def bindE_def domain_def Let_def split: prod.split sum.split)

lemma blob_reliable:
  "reliable (world_of c) \<Longrightarrow> blob code b mime c =
     (Inr (), c\<lparr>resp := (resp c)\<lparr>committed := True, status := code,
            headers := (headers (resp c))(''Content-Type'' \<mapsto> mime), body := b\<rparr>,
          world_of := tick (world_of c)\<rparr>)"
  by (simp add: blob_run external_call_reliable Let_def)

lemma ignore_error_run: "ignore_error m c = (Inr (), snd (m c))"
  by (simp add: ignore_error_def bindE_def attempt_def split: prod.split)

text \<open>The data a page is rendered with.\<close>

definition page_data :: "'s app \<Rightarrow> string \<Rightarrow> string option \<Rightarrow> 's web \<Rightarrow> layout_data" where
  "page_data P title extras c =
     \<lparr>ld_title = (if title = [] then ''app'' else title), ld_user = cu c,
      ld_flash = pending_flash (sessions P) (session c), ld_head_extras = extras\<rparr>"

lemma render_page_run:
  assumes "scs_contract (sessions P)"
  shows "render_page P title extras pg c =
    (let d = page_data P title extras c; c1 = c\<lparr>session := unflashed (sessions P) (session c)\<rparr> in
     case render P (csp_nonce c) d pg of
       Inl err \<Rightarrow> (Inl (errorf (''rendering '' @ ld_title d @ '': '') err), c1)
     | Inr bytes \<Rightarrow> wrapE (errorf (''writing '' @ ld_title d @ '': '')) (blob 200 (Html bytes) html_mime) c1)"
  by (simp add: render_page_def render_page_data_def bindE_def take_flash_run[OF assms] page_data_def
      Let_def split: sum.split)

lemma render_page_reliable:
  assumes "scs_contract (sessions P)" and "reliable (world_of c)"
    and "render P (csp_nonce c) (page_data P title extras c) pg = Inr bytes"
  shows "render_page P title extras pg c = (Inr (), c\<lparr>session := unflashed (sessions P) (session c),
     resp := (resp c)\<lparr>committed := True, status := 200,
            headers := (headers (resp c))(''Content-Type'' \<mapsto> html_mime), body := Html bytes\<rparr>,
          world_of := tick (world_of c)\<rparr>)"
  using assms(2,3) by (simp add: render_page_run[OF assms(1)] Let_def wrapE_def blob_reliable)

subsection \<open>Failures\<close>

lemma blob_resp:
  "committed (resp (snd (blob code b mime c)))" "status (resp (snd (blob code b mime c))) = code"
  "captured (snd (blob code b mime c)) = captured c" "cu (snd (blob code b mime c)) = cu c"
  by (simp_all add: blob_run Let_def split: sum.split)

definition error_status :: "gerr \<Rightarrow> nat" where
  "error_status err = (if status_code err = 0 then 500 else status_code err)"

text \<open>The page of an error, or why it could not be rendered.\<close>

definition error_page_of :: "'s app \<Rightarrow> 's web \<Rightarrow> gerr \<Rightarrow> gerr + string" where
  "error_page_of P c err =
     (let txt = status_text P (error_status err) in
      render P (csp_nonce c) \<lparr>ld_title = txt, ld_user = cu c, ld_flash = None, ld_head_extras = None\<rparr>
        (ErrorPage (error_status err) txt (if dev_mode P then err_text err else [])))"

definition error_body :: "'s app \<Rightarrow> request \<Rightarrow> 's web \<Rightarrow> gerr \<Rightarrow> body \<times> string" where
  "error_body P req c err =
     (let code = error_status err in
      if \<not> wants_html req then (JsonError (status_text P code) code, json_mime)
      else case error_page_of P c err of
           Inl _ \<Rightarrow> (Text (status_text P code @ [CHR 0x0A]), ''text/plain; charset=utf-8'')
         | Inr bytes \<Rightarrow> (Html bytes, html_mime))"

definition reported :: "request \<Rightarrow> gerr \<Rightarrow> 's web \<Rightarrow> 's web" where
  "reported req err c =
     (if error_status err \<ge> 500
      then c\<lparr>web_log := web_log c @ [LogFailed (Method req) (RequestURI req) err],
             captured := captured c @ [report_of req err c]\<rparr>
      else c)"

text \<open>The request as the answer to an error finds it; the plain fallback sets a header of its own.\<close>

definition prepared :: "'s app \<Rightarrow> request \<Rightarrow> gerr \<Rightarrow> 's web \<Rightarrow> 's web" where
  "prepared P req err c =
     (if wants_html req \<and> isl (error_page_of P c err)
      then (reported req err c)\<lparr>resp := (resp c)\<lparr>headers :=
              (headers (resp c))(''X-Content-Type-Options'' \<mapsto> ''nosniff'')\<rparr>\<rparr>
      else reported req err c)"

lemma report_of_log [simp]: "report_of req err (c\<lparr>web_log := ls\<rparr>) = report_of req err c"
  by (simp add: report_of_def sent_header_def)

lemma reported_fields [simp]:
  "cu (reported req err c) = cu c" "resp (reported req err c) = resp c" "session (reported req err c) = session c"
  "world_of (reported req err c) = world_of c" "csp_nonce (reported req err c) = csp_nonce c"
  "spans (reported req err c) = spans c" "open_span (reported req err c) = open_span c"
  "fresh_id (reported req err c) = fresh_id c"
  "captured (reported req err c) =
     captured c @ (if error_status err \<ge> 500 then [report_of req err c] else [])"
  by (simp_all add: reported_def)

lemma prepared_fields [simp]:
  "cu (prepared P req err c) = cu c" "session (prepared P req err c) = session c"
  "world_of (prepared P req err c) = world_of c" "csp_nonce (prepared P req err c) = csp_nonce c"
  "spans (prepared P req err c) = spans c" "open_span (prepared P req err c) = open_span c"
  "fresh_id (prepared P req err c) = fresh_id c"
  "captured (prepared P req err c) =
     captured c @ (if error_status err \<ge> 500 then [report_of req err c] else [])"
  "committed (resp (prepared P req err c)) = committed (resp c)" "body (resp (prepared P req err c)) = body (resp c)"
  by (simp_all add: prepared_def)

lemma error_handler_eq:
  "error_handler P req err c =
     (if committed (resp c) then (Inr (), c)
      else (Inr (), snd (blob (error_status err) (fst (error_body P req c err))
              (snd (error_body P req c err)) (prepared P req err c))))"
proof (cases "committed (resp c)")
  case False
  have r: "(if error_status err \<ge> 500
      then bindE (log_to (LogFailed (Method req) (RequestURI req) err)) (\<lambda>_. capture_error req err)
      else ret ()) c = (Inr (), reported req err c)"
    by (simp add: capture_error_def reported_def bindE_def report_of_def sent_header_def)
  show ?thesis
    using False
    unfolding error_handler_def error_status_def[symmetric] Let_def
    by (simp add: bindE_def r ignore_error_run apierror_json_def http_error_def set_header_def current_user_def
        error_body_def error_page_of_def prepared_def Let_def split: sum.split)
qed (simp add: error_handler_def bindE_def)

text \<open>
  Every failure is answered once: a response that has already started is left alone;
  otherwise it gets the status of the error (500 if it has none), and Sentry gets the error if and
  only if that status is 500 or more, with the id of the signed-in user and nothing else about
  them.  The handler itself never fails.
\<close>

theorem error_handler_answers:
  assumes "error_handler P req err c = (r, c')"
  shows "r = Inr () \<and> (committed (resp c) \<longrightarrow> c' = c) \<and>
    (\<not> committed (resp c) \<longrightarrow> committed (resp c') \<and>
       status (resp c') = (if status_code err = 0 then 500 else status_code err) \<and>
       captured c' = captured c @ (if status (resp c') \<ge> 500 then [report_of req err c] else []))"
  using assms by (cases "committed (resp c)")
    (auto simp: error_handler_eq blob_resp simp flip: error_status_def)

theorem error_handler_answers_witness:
  "status (resp (snd (error_handler demo_app demo_request (External ''boom'') demo_web))) = 500 \<and>
   captured (snd (error_handler demo_app demo_request (External ''boom'') demo_web)) =
     [\<lparr>rp_error = External ''boom'', rp_request = (''GET'', ''/''), rp_request_id = [], rp_user = None\<rparr>]"
  using error_handler_answers[OF surjective_pairing, of demo_app demo_request "External ''boom''" demo_web]
  by (simp add: empty_response_def demo_web_def report_of_def sent_header_def demo_request_def)

text \<open>
  Internal detail stays inside: outside development, two errors with the same status give
  byte for byte the same response, whatever their texts, causes and types.
\<close>

theorem error_handler_no_leak:
  assumes "\<not> dev_mode P" and "status_code e1 = status_code e2"
  shows "resp (snd (error_handler P req e1 c)) = resp (snd (error_handler P req e2 c))"
proof -
  have e: "error_status e1 = error_status e2" using assms(2) by (simp add: error_status_def)
  have p: "error_page_of P c e1 = error_page_of P c e2"
    using assms(1) by (simp add: error_page_of_def e)
  have "error_body P req c e1 = error_body P req c e2" unfolding error_body_def e p ..
  moreover have "resp (prepared P req e1 c) = resp (prepared P req e2 c)" by (simp add: prepared_def p)
  ultimately show ?thesis by (simp add: error_handler_eq e blob_run Let_def split: sum.split)
qed

theorem error_handler_no_leak_witness:
  "resp (snd (error_handler demo_app demo_request (Sentinel ErrTooManyRows) demo_web)) =
   resp (snd (error_handler demo_app demo_request (External ''password=hunter2'') demo_web))"
  by (rule error_handler_no_leak) (simp_all add: demo_app_def)

text \<open>
  \<open>FinishMutation\<close> is POST-redirect-GET: the answer is always a 303 to a local path and the next
  page shows a flash; a failure shows the error's own text only if it was written for users, is
  reported to Sentry exactly when it was not, and never becomes an error of the request.
\<close>

theorem finish_mutation_prg:
  assumes "scs_contract (sessions P)" and "finish_mutation P req result c = (r, c')"
    and "OKMessage result \<noteq> []"
  shows "r = Inr () \<and> status (resp c') = 303 \<and>
    (\<exists>loc. headers (resp c') ''Location'' = Some loc \<and> safe_redirect_path loc) \<and>
    (case Err result of
       None \<Rightarrow> captured c' = captured c \<and> pending_flash (sessions P) (session c') =
         Some \<lparr>f_kind = ''ok'', f_message = OKMessage result, f_key = []\<rparr>
     | Some err \<Rightarrow>
         (case errors_as_user err of
            Some m \<Rightarrow> captured c' = captured c \<and> (m \<noteq> [] \<longrightarrow> pending_flash (sessions P) (session c') =
              Some \<lparr>f_kind = ''error'', f_message = m, f_key = ErrorFlashKey result\<rparr>)
          | None \<Rightarrow> captured c' = captured c @ [report_of req err c] \<and>
              pending_flash (sessions P) (session c') =
              Some \<lparr>f_kind = ''error'', f_message = ''could not save changes'', f_key = ErrorFlashKey result\<rparr>))"
  using assms(2,3)
  by (auto simp: finish_mutation_def bindE_def capture_error_def set_keyed_flash_run set_flash_run
      safe_redirect_run pending_flashed[OF assms(1)] user_message_def split: option.splits)

theorem finish_mutation_prg_witness:
  "let c' = snd (finish_mutation demo_app demo_request \<lparr>Err = Some (External ''pq: deadlock''), ErrorFlashKey = ''name'',
         OKMessage = ''saved'', RedirectTo = ''https://evil.example''\<rparr> demo_web) in
   status (resp c') = 303 \<and> map rp_error (captured c') = [External ''pq: deadlock''] \<and>
   pending_flash (sessions demo_app) (session c') =
     Some \<lparr>f_kind = ''error'', f_message = ''could not save changes'', f_key = ''name''\<rparr>"
  using finish_mutation_prg[OF demo_app_sessions surjective_pairing,
      where req = demo_request and result = "\<lparr>Err = Some (External ''pq: deadlock''), ErrorFlashKey = ''name'', OKMessage = ''saved'',
           RedirectTo = ''https://evil.example''\<rparr>" and c = demo_web]
  by (simp add: Let_def demo_web_def report_of_def)

end
