(* ===== verification/Jobs.thy ===== *)
theory Jobs
  imports Reset
begin

text \<open>
  Background work and mail: \<open>mailer/mailer.go\<close>, \<open>mailer/ses.go\<close>, \<open>jobs/jobs.go\<close>, \<open>jobs/errors.go\<close> and
  \<open>jobs/password_reset_email.go\<close>.  The queue is River, whose insert is a call that may fail and,
  if it has its effect, adds the job to \<open>enqueued\<close>; a sender's message goes to \<open>outbox\<close>.  The locale
  \<open>mail_sender\<close> is the interface \<open>mailer.Sender\<close>; both implementations are interpreted.
\<close>

subsection \<open>Senders\<close>

definition deliver :: "message \<Rightarrow> world \<Rightarrow> world" where
  "deliver msg w = w\<lparr>outbox := outbox w @ [msg]\<rparr>"

definition log_send :: "message \<Rightarrow> (world, gerr, unit) act" where
  "log_send msg = bindE (modify (deliver msg)) (\<lambda>_. ret ())"

text \<open>What the SES client is sent, and what SES does with it: every address of it gets the message.\<close>

record ses_input =
  FromEmailAddress :: string
  ToAddresses :: "string list"
  SubjectData :: string
  TextData :: string

definition send_email_input :: "string \<Rightarrow> message \<Rightarrow> ses_input" where
  "send_email_input sent_from msg =
     \<lparr>FromEmailAddress = sent_from, ToAddresses = [m_to msg], SubjectData = m_subject msg, TextData = m_body msg\<rparr>"

definition ses_accept :: "ses_input \<Rightarrow> world \<Rightarrow> world" where
  "ses_accept inp w = fold (\<lambda>addr. deliver \<lparr>m_to = addr, m_subject = SubjectData inp, m_body = TextData inp\<rparr>)
     (ToAddresses inp) w"

lemma ses_accept_input [simp]: "ses_accept (send_email_input sent_from msg) = deliver msg"
  by (cases msg) (simp add: ses_accept_def send_email_input_def fun_eq_iff)

definition ses_send :: "string \<Rightarrow> message \<Rightarrow> (world, gerr, unit) act" where
  "ses_send sent_from msg =
     wrapE (errorf ''sending via ses: '') (external_call (ses_accept (send_email_input sent_from msg)))"

text \<open>The sender with the log, and the one that holds an SES client and the sender's address.\<close>

datatype sender = LogSender | SES string

text \<open>\<open>mailer.Send\<close> through the process-wide \<open>Outbox\<close>.\<close>

fun send :: "sender \<Rightarrow> message \<Rightarrow> (world, gerr, unit) act" where
  "send LogSender msg = log_send msg"
| "send (SES sent_from) msg = ses_send sent_from msg"

locale mail_sender =
  fixes post :: "'m \<Rightarrow> ('w, 'e, unit) act"
    and delivered :: "'w \<Rightarrow> 'm list"
    and rest :: "'w \<Rightarrow> 'r"
  assumes post_ok: "post m w = (Inr u, w') \<Longrightarrow> delivered w' = delivered w @ [m]"
    and post_err: "post m w = (Inl e, w') \<Longrightarrow> delivered w' = delivered w \<or> delivered w' = delivered w @ [m]"
    and post_rest: "rest (snd (post m w)) = rest w"
begin

text \<open>At-least-once: retrying until the first success delivers, and only ever this message.\<close>

fun retry :: "nat \<Rightarrow> 'm \<Rightarrow> 'w \<Rightarrow> bool \<times> 'w" where
  "retry 0 m w = (False, w)"
| "retry (Suc n) m w = (case post m w of (Inr _, w') \<Rightarrow> (True, w') | (Inl _, w') \<Rightarrow> retry n m w')"

lemma retry_delivers:
  "retry n m w = (b, w') \<Longrightarrow>
   \<exists>k. k \<le> n \<and> delivered w' = delivered w @ replicate k m \<and> (b \<longrightarrow> 0 < k) \<and> rest w' = rest w"
proof (induction n arbitrary: w)
  case (Suc n)
  obtain r w1 where p: "post m w = (r, w1)" by force
  have frame: "rest w1 = rest w" using post_rest[of m w] p by simp
  show ?case
  proof (cases r)
    case (Inr u)
    with Suc.prems p post_ok[of m w u w1] frame show ?thesis by (intro exI[of _ 1]) auto
  next
    case (Inl e)
    with Suc.prems p have "retry n m w1 = (b, w')" by simp
    then obtain k where k: "k \<le> n" "delivered w' = delivered w1 @ replicate k m" "b \<longrightarrow> 0 < k"
      "rest w' = rest w1" using Suc.IH by blast
    from post_err[of m w e w1] p Inl consider "delivered w1 = delivered w" | "delivered w1 = delivered w @ [m]"
      by blast
    then show ?thesis
    proof cases
      case 1
      with k frame show ?thesis by (intro exI[of _ k]) auto
    next
      case 2
      with k frame show ?thesis by (intro exI[of _ "Suc k"]) auto
    qed
  qed
qed auto

end

definition mail_rest :: "world \<Rightarrow> tables \<times> job_args list" where
  "mail_rest w = (tables w, enqueued w)"

interpretation outbox_sender: mail_sender "send s" outbox mail_rest for s
proof
  fix m w u w' e
  show "send s m w = (Inr u, w') \<Longrightarrow> outbox w' = outbox w @ [m]"
    by (cases s) (auto simp: log_send_def ses_send_def deliver_def external_call_def next_call_eq
        split: outcome.splits)
  show "send s m w = (Inl e, w') \<Longrightarrow> outbox w' = outbox w \<or> outbox w' = outbox w @ [m]"
    by (cases s) (auto simp: log_send_def ses_send_def deliver_def external_call_def next_call_eq
        wrapE_def split: outcome.splits prod.splits sum.splits)
  show "mail_rest (snd (send s m w)) = mail_rest w"
    by (cases s) (auto simp: log_send_def ses_send_def deliver_def external_call_def next_call_eq
        mail_rest_def split: outcome.splits)
qed

subsection \<open>The queue\<close>

definition insert_standalone :: "job_args \<Rightarrow> (world, gerr, unit) act" where
  "insert_standalone args =
     wrapE (errorf ''enqueueing standalone job: '')
       (external_call (\<lambda>w. w\<lparr>enqueued := enqueued w @ [args]\<rparr>))"

definition stop :: "(world, gerr, unit) act" where
  "stop =
     bindE (attempt (external_call id)) (\<lambda>r.
     case r of
       Inr _ \<Rightarrow> ret ()
     | Inl err \<Rightarrow> wrapE (errorf ''cancelling running jobs: '') (external_call id))"

definition start :: "(world, gerr, unit) act" where
  "start = wrapE (errorf ''starting river client: '') (external_call id)"

subsection \<open>Failed jobs\<close>

record job_row =
  j_id :: int
  j_kind :: string
  j_attempt :: int
  j_max_attempts :: int
  j_queue :: string

record sentry_event =
  ev_error :: gerr
  ev_job :: job_row
  ev_trace :: "string option"

definition capture_job_failure :: "job_row \<Rightarrow> gerr \<Rightarrow> string \<Rightarrow> sentry_event list" where
  "capture_job_failure job err trace =
     [\<lparr>ev_error = err, ev_job = job, ev_trace = (if trace = [] then None else Some trace)\<rparr>]"

definition handle_error :: "job_row \<Rightarrow> gerr \<Rightarrow> sentry_event list" where
  "handle_error job err =
     (if j_attempt job < j_max_attempts job then [] else capture_job_failure job err [])"

definition handle_panic :: "job_row \<Rightarrow> string \<Rightarrow> string \<Rightarrow> sentry_event list" where
  "handle_panic job val trace =
     capture_job_failure job (Wrap [] (Sentinel ErrJobPanic) ('': '' @ val)) trace"

text \<open>
  A job that keeps failing is reported once, when its last attempt is over, however many
  attempts it had; a panic is reported at once.
\<close>

lemma failures_report_once:
  assumes "1 \<le> n"
  shows "concat (map (\<lambda>a. handle_error (job\<lparr>j_attempt := a, j_max_attempts := n\<rparr>) err) [1..n]) =
      [\<lparr>ev_error = err, ev_job = job\<lparr>j_attempt := n, j_max_attempts := n\<rparr>, ev_trace = None\<rparr>]"
proof -
  have "[1..n] = [1..n - 1] @ [n]" using assms by (simp add: upto_rec2)
  moreover have "concat (map (\<lambda>a. handle_error (job\<lparr>j_attempt := a, j_max_attempts := n\<rparr>) err) [1..n - 1]) = []"
    by (auto simp: handle_error_def)
  ultimately show ?thesis by (simp add: handle_error_def capture_job_failure_def)
qed

lemma panic_reports: "length (handle_panic job val trace) = 1 \<and>
    errors_is (ev_error (hd (handle_panic job val trace))) ErrJobPanic"
  by (simp add: handle_panic_def capture_job_failure_def)

subsection \<open>The reset e-mail\<close>

definition newline :: string where "newline = [CHR 0x0A]"

definition reset_link :: "string \<Rightarrow> string \<Rightarrow> string" where
  "reset_link baseURL token = baseURL @ ''/password-reset/confirm?token='' @ token"

definition reset_message :: "string \<Rightarrow> string \<Rightarrow> message" where
  "reset_message email link =
     \<lparr>m_to = email, m_subject = ''Reset your password'',
      m_body = ''A password reset was requested for this address.'' @ newline @ newline @
        ''Reset your password: '' @ link @ newline @ newline @
        ''The link expires in an hour. If you didn'' @ [CHR 0x27] @ ''t ask for this, ignore this email.''\<rparr>"

fun work ::
  "(string \<Rightarrow> string) \<Rightarrow> (string \<Rightarrow> string) \<Rightarrow> sender \<Rightarrow> string \<Rightarrow> job_args \<Rightarrow> (world, gerr, unit) act"
where
  "work lower sha s baseURL (PasswordResetEmailArgs email) =
     bindE (attempt (create_password_reset lower sha email)) (\<lambda>r.
     case r of
       Inl err \<Rightarrow>
         if errors_is err ErrNotFound then ret ()
         else fail (errorf ''creating reset token: '' err)
     | Inr (token, _) \<Rightarrow> send s (reset_message email (reset_link baseURL token)))"

text \<open>An account that is gone by the time the job runs: nothing is issued or sent.\<close>

lemma build_token_error: "build_token rm i now = Inl e \<Longrightarrow> \<not> errors_is e t"
  by (auto simp: build_token_def bindS_def int_col_def str_col_def time_col_def used_col_def
      not_null_violation_def split: sum.splits option.splits gval.splits)

lemma insert_token_rows:
  "(\<exists>t. fst (insert_token rm w) = Rows [TokenRow t]) \<or>
   (\<exists>e. fst (insert_token rm w) = RowsErr e \<and> (\<forall>t. \<not> errors_is e t))"
  using build_token_error[of rm "token_seq w" "db_now w"]
  by (auto simp: insert_token_def Let_def split: sum.split)

lemma create_password_reset_not_found:
  assumes "store_inv lower w" and "create_password_reset lower sha email w = (Inl e, w')"
  shows "errors_is e ErrNotFound \<longrightarrow>
    fate w (calls w) = Works \<and> user_by_email lower (tables w) (trim_space email) = None"
proof
  assume nf: "errors_is e ErrNotFound"
  let ?r = "lookup_result (fate w (calls w)) (user_by_email lower (tables w) (trim_space email))"
  show "fate w (calls w) = Works \<and> user_by_email lower (tables w) (trim_space email) = None"
  proof (cases ?r)
    case (Inl e0)
    then have "e = e0"
      using assms(2) by (simp add: create_password_reset_def create_password_reset_tx_def bindE_def
          by_email_tx_run[OF assms(1)])
    with Inl nf lookup_result_not_found show ?thesis by blast
  next
    case (Inr u)
    have ins: "\<not> errors_is e1 ErrNotFound"
      if "insert_tx scan_token (conn lower) (InsertResetToken rm) v = (Inl e1, w1)" for rm v e1 w1
      using that insert_token_rows[of rm "tick v"]
      by (auto simp: insert_tx_def find_exactly_one_tx_def bindE_eq_Inl wrapE_eq_Inl pg_query_def
          next_call_eq split: outcome.splits prod.splits)
    from assms(2) Inr nf ins show ?thesis
      by (auto simp: create_password_reset_def create_password_reset_tx_def bindE_def wrapE_def
          by_email_tx_run[OF assms(1)] rand_read_def Let_def split: prod.splits sum.splits)
  qed
qed

text \<open>
  The reset e-mail that is reported as sent carries a working link, however calls fail: the
  worker sent exactly one message, to the address of the job, whose link holds a token of which
  the table keeps the digest, unused, for the account behind the address, with an hour to live.
\<close>

theorem work_sends_working_link:
  assumes "store_inv lower w" and "work lower sha s baseURL (PasswordResetEmailArgs email) w = (Inr (), w')"
    and "user_by_email lower (tables w) (trim_space email) = Some u"
  shows "\<exists>token t. outbox w' = outbox w @ [reset_message email (reset_link baseURL token)] \<and>
    password_reset_tokens (tables w') = password_reset_tokens (tables w) @ [t] \<and>
    t_token_hash t = hash_reset_token sha token \<and> t_user_id t = u_id u \<and> t_used_at t = None \<and>
    t_expires_at t = app_now w + 3600000000 \<and> users (tables w') = users (tables w)"
proof -
  obtain r w1 where c: "create_password_reset lower sha email w = (r, w1)" by force
  show ?thesis
  proof (cases r)
    case (Inl e)
    with c have "\<not> errors_is e ErrNotFound"
      using create_password_reset_not_found[OF assms(1)] assms(3) by fastforce
    with Inl c assms(2) show ?thesis by (simp add: bindE_def attempt_def)
  next
    case (Inr p)
    obtain token v where p: "p = (token, v)" by force
    with Inr c have r: "create_password_reset lower sha email w = (Inr (token, v), w1)" by simp
    note i = create_password_reset_Inr[OF assms(1) r]
    have s: "send s (reset_message email (reset_link baseURL token)) w1 = (Inr (), w')"
      using assms(2) r by (simp add: bindE_def attempt_def)
    have "outbox w' = outbox w1 @ [reset_message email (reset_link baseURL token)]"
      using outbox_sender.post_ok[OF s] .
    moreover have "tables w' = tables w1"
      using outbox_sender.post_rest[of s "reset_message email (reset_link baseURL token)" w1] s
      by (simp add: mail_rest_def)
    moreover have "v = u" using i assms(3) by simp
    ultimately show ?thesis
      using i by (intro exI[of _ token] exI[of _ "new_token sha w u"])
        (simp add: add_token_def new_token_def ResetTokenTTL_def salted_def)
  qed
qed

theorem work_sends_working_link_witness:
  "\<exists>w' token. work id id (SES ''mail@app'') ''https://app'' (PasswordResetEmailArgs ''ada@example.com'') demo_world = (Inr (), w') \<and>
     outbox w' = [reset_message ''ada@example.com'' (reset_link ''https://app'' token)]"
proof -
  have "reliable (link_world id)" by (rule link_world_ok)
  then have w: "work id id (SES ''mail@app'') ''https://app'' (PasswordResetEmailArgs ''ada@example.com'') demo_world =
      (Inr (), deliver (reset_message ''ada@example.com'' (reset_link ''https://app'' demo_token))
        (tick (link_world id)))"
    by (simp add: bindE_def attempt_def link_issued ses_send_def wrapE_def external_call_reliable)
  have u: "user_by_email id (tables demo_world) (trim_space ''ada@example.com'') = Some ada" by simp
  from work_sends_working_link[OF demo_world_inv(1) w u] w show ?thesis by fastforce
qed

text \<open>An address without an account: the job is done, and nothing was issued or sent.\<close>

lemma work_vanished:
  assumes "store_inv lower w" and "fate w (calls w) = Works"
    and "user_by_email lower (tables w) (trim_space email) = None"
  shows "work lower sha s baseURL (PasswordResetEmailArgs email) w = (Inr (), tick w)"
  using assms(2,3)
  by (simp add: bindE_def attempt_def create_password_reset_def create_password_reset_tx_def
      by_email_tx_run[OF assms(1)] lookup_result_def)

end
