(* ===== verification/Handlers.thy ===== *)
theory Handlers
  imports Pages Jobs
begin

text \<open>
  \<open>web/handlers_auth.go\<close>: signing in and out, asking for a password reset and confirming it, and
  the home page.
\<close>

definition signin_key :: "'s app \<Rightarrow> request \<Rightarrow> string \<Rightarrow> string" where
  "signin_key P req email = RealIP req @ ''|'' @ to_lower (unicode_lower P) email"

definition reset_key :: "'s app \<Rightarrow> request \<Rightarrow> string \<Rightarrow> string" where
  "reset_key P req email = ''reset|'' @ RealIP req @ ''|'' @ to_lower (unicode_lower P) email"

definition signin_form :: "'s app \<Rightarrow> 's handler" where
  "signin_form P req =
     bindE current_user (\<lambda>u.
     if u \<noteq> None then safe_redirect ''/''
     else render_page P ''Sign in'' None (SigninPage []))"

text \<open>What a successful sign-in does to the session, and where it goes from there.\<close>

definition open_session :: "'s app \<Rightarrow> user \<Rightarrow> ('s, unit) wact" where
  "open_session P u =
     bindE (wrapE (errorf ''renewing session: '') (sess_store (RenewToken (sessions P)))) (\<lambda>_.
     bindE (sess_do (PutInt64 (sessions P) ''user_id'' (u_id u))) (\<lambda>_.
     bindE (sess_do (PutString (sessions P) ''password_epoch'' (password_epoch (sha_of P) u))) (\<lambda>_.
     bindE (sess_pop P ''after_signin'') (\<lambda>path.
     safe_redirect path))))"

definition signin_submit :: "'s app \<Rightarrow> 's handler" where
  "signin_submit P req =
     bindE (parse_form req) (\<lambda>_.
     let email = trim_space (FormValue req ''email'');
         password = FormValue req ''password'';
         key = signin_key P req email in
     bindE (wrapE (errorf ''checking signin throttle: '')
         (domain (throttle_blocked (lower_of P) key))) (\<lambda>blocked.
     if blocked then
       bindE (set_flash P ''error'' (''too many failed attempts '' @ em_dash @ '' try again later'')) (\<lambda>_.
       render_page P ''Sign in'' None (SigninPage email))
     else
       bindE (attempt (domain (authenticate (lower_of P) (argon P) (dummy_hash P) email password))) (\<lambda>r.
       case r of
         Inl err \<Rightarrow>
           if errors_is err ErrInvalidCredentials then
             bindE (wrapE (errorf ''recording failed signin: '')
                 (domain (throttle_fail (lower_of P) key))) (\<lambda>_.
             bindE (set_flash P ''error'' ''invalid email or password'') (\<lambda>_.
             render_page P ''Sign in'' None (SigninPage email)))
           else fail (errorf ''authenticating: '' err)
       | Inr u \<Rightarrow>
           bindE (attempt (domain (throttle_reset (lower_of P) key))) (\<lambda>cleared.
           bindE (case cleared of Inl err \<Rightarrow> log_to (LogThrottle err) | Inr _ \<Rightarrow> ret ()) (\<lambda>_.
           open_session P u)))))"

definition password_reset_request_form :: "'s app \<Rightarrow> 's handler" where
  "password_reset_request_form P req =
     render_page P ''Reset password'' None (PasswordResetRequestPage [])"

definition password_reset_request :: "'s app \<Rightarrow> 's handler" where
  "password_reset_request P req =
     bindE (parse_form req) (\<lambda>_.
     let email = trim_space (FormValue req ''email'');
         key = reset_key P req email in
     bindE (wrapE (errorf ''checking reset throttle: '')
         (domain (throttle_blocked (lower_of P) key))) (\<lambda>blocked.
     if blocked then
       bindE (set_flash P ''error'' (''too many reset requests '' @ em_dash @ '' try again later'')) (\<lambda>_.
       render_page P ''Reset password'' None (PasswordResetRequestPage email))
     else
       bindE (wrapE (errorf ''recording reset request: '')
           (domain (throttle_fail (lower_of P) key))) (\<lambda>_.
       bindE (attempt (domain (by_email (lower_of P) email))) (\<lambda>r.
       bindE (case r of
           Inl err \<Rightarrow>
             if \<not> errors_is err ErrNotFound then fail (errorf ''looking up reset account: '' err)
             else ret ()
         | Inr u \<Rightarrow>
             wrapE (errorf ''enqueueing reset email: '')
               (domain (insert_standalone (PasswordResetEmailArgs (u_email u))))) (\<lambda>_.
       bindE (set_flash P ''ok'' ''if that email has an account, a reset link is on the way'') (\<lambda>_.
       safe_redirect ''/signin''))))))"

definition dead_link :: "'s app \<Rightarrow> ('s, unit) wact" where
  "dead_link P =
     bindE (set_flash P ''error''
       (''that reset link is no longer valid '' @ em_dash @ '' request a new one'')) (\<lambda>_.
     safe_redirect ''/password-reset'')"

definition password_reset_confirm_form :: "'s app \<Rightarrow> 's handler" where
  "password_reset_confirm_form P req =
     (let token = QueryParam req ''token'' in
      bindE (attempt (domain (check_reset_token (lower_of P) (sha_of P) token))) (\<lambda>r.
      case r of
        Inl err \<Rightarrow>
          if errors_is err ErrResetTokenInvalid then dead_link P
          else fail (errorf ''checking reset token: '' err)
      | Inr _ \<Rightarrow>
          render_page P ''Choose a new password'' None (PasswordResetConfirmPage token)))"

definition password_policy_message :: "gerr \<Rightarrow> string" where
  "password_policy_message err =
     (if errors_is err ErrPasswordRequired then ''password is required''
      else if errors_is err ErrPasswordTooShort then
        ''password must be at least '' @ itoa (int PasswordMinLength) @ '' characters''
      else if errors_is err ErrPasswordTooLong then ''that password is too long''
      else [])"

definition password_reset_confirm :: "'s app \<Rightarrow> 's handler" where
  "password_reset_confirm P req =
     bindE (parse_form req) (\<lambda>_.
     let token = FormValue req ''token'';
         password = FormValue req ''password'' in
     bindE (attempt (domain (in_tx (pg_pool (lower_of P))
         (\<lambda>tx. reset_password_tx (sha_of P) (argon P) (build_sql P) tx token password)))) (\<lambda>r.
     case r of
       Inl err \<Rightarrow>
         if errors_is err ErrResetTokenInvalid then dead_link P
         else if password_policy_message err \<noteq> [] then
           bindE (set_flash P ''error'' (password_policy_message err)) (\<lambda>_.
           render_page P ''Choose a new password'' None (PasswordResetConfirmPage token))
         else fail (errorf ''resetting password: '' err)
     | Inr _ \<Rightarrow>
         bindE (set_flash P ''ok''
           (''password updated '' @ em_dash @ '' sign in with your new password'')) (\<lambda>_.
         safe_redirect ''/signin'')))"

definition signout :: "'s app \<Rightarrow> 's handler" where
  "signout P req =
     bindE (wrapE (errorf ''destroying session: '') (sess_store (Destroy (sessions P)))) (\<lambda>_.
     safe_redirect ''/signin'')"

definition home :: "'s app \<Rightarrow> 's handler" where
  "home P req =
     bindE current_user (\<lambda>u.
     case u of
       None \<Rightarrow> fail (External ''nil pointer dereference'')
     | Some v \<Rightarrow> render_page P ''Home'' None (HomePage (u_name v)))"

subsection \<open>What a handler leaves alone\<close>

definition login :: "'s scs \<Rightarrow> 's \<Rightarrow> int \<times> string" where
  "login S s = (GetInt64 S s ''user_id'', GetString S s ''password_epoch'')"

text \<open>The accounts are \<open>U\<close> and the session is signed in as \<open>L\<close>.\<close>

definition same :: "'s app \<Rightarrow> user list \<Rightarrow> int \<times> string \<Rightarrow> 's web \<Rightarrow> bool" where
  "same P U L c \<longleftrightarrow> users (tables (world_of c)) = U \<and> login (sessions P) (session c) = L"

definition users_safe :: "stmt \<Rightarrow> bool" where
  "users_safe q \<longleftrightarrow> (case q of InsertUser _ \<Rightarrow> False | SetPassword _ _ \<Rightarrow> False | _ \<Rightarrow> True)"

lemma users_after_stmt: "users_safe q \<Longrightarrow> users (tables (after_stmt lower q w)) = users (tables w)"
  by (cases q) (auto simp: users_safe_def Let_def insert_token_def split: prod.splits sum.splits if_splits)

abbreviation keeps_users :: "user list \<Rightarrow> (world, gerr, 'a) act \<Rightarrow> bool" where
  "keeps_users U m \<equiv> keeps (\<lambda>w. users (tables w) = U) m"

lemma keeps_users_stmt:
  "users_safe q \<Longrightarrow> keeps_users U (pg_query lower q)" "users_safe q \<Longrightarrow> keeps_users U (pg_exec lower q)"
proof -
  assume q: "users_safe q"
  show "keeps_users U (pg_query lower q)"
    unfolding keeps_def using snd_pg_query[of lower q] users_after_stmt[OF q, of lower]
    by (metis insertE singletonD tick_fields(1))
  show "keeps_users U (pg_exec lower q)"
    unfolding keeps_def using snd_pg_exec[of lower q] users_after_stmt[OF q, of lower]
    by (metis insertE singletonD tick_fields(1))
qed

lemma keeps_users_domain [keeps_intros]:
  "keeps_users U (throttle_blocked lower k)" "keeps_users U (throttle_fail lower k)"
  "keeps_users U (throttle_reset lower k)" "keeps_users U (by_email lower e)" "keeps_users U (by_id lower i)"
  "keeps_users U (authenticate lower A dummy e p)" "keeps_users U (check_reset_token lower sha t)"
  "keeps_users U (insert_standalone args)" "keeps_users U (external_call id)" "keeps_users U rand_read"
proof -
  have s: "users_safe (CountAttempts k n)" "users_safe (PruneAttempts n)" "users_safe (InsertAttempt k)"
    "users_safe (DeleteAttempts k)" "users_safe (SelectUserByEmail k)" "users_safe (SelectUserById m)"
    "users_safe (SelectLiveToken k)" for k n m by (simp_all add: users_safe_def)
  note q = keeps_users_stmt[where lower = lower and U = U]
  have cmp: "keeps_users U (compare_password A p h)" for h
    by (auto simp: keeps_def compare_password_run split: option.split)
  show "keeps_users U (throttle_blocked lower k)"
    unfolding throttle_blocked_def throttle_blocked_tx_def
    by (intro keeps_bindE keeps_wrapE) (auto intro: keeps_intros q s split: sum.split collect_error.split)
  show "keeps_users U (throttle_fail lower k)" "keeps_users U (throttle_reset lower k)"
    unfolding throttle_fail_def throttle_fail_tx_def throttle_reset_def throttle_reset_tx_def
    by (intro keeps_bindE keeps_wrapE keeps_ret; simp add: q s)+
  show "keeps_users U (by_email lower e)" "keeps_users U (by_id lower i)"
    unfolding by_email_def by_email_tx_def by_id_def by_id_tx_def
    by (intro keeps_find_exactly_one_tx; simp add: q s)+
  show "keeps_users U (authenticate lower A dummy e p)"
    unfolding authenticate_def authenticate_tx_def by_email_tx_def
    by (intro keeps_intros cmp) (simp add: q s)
  show "keeps_users U (check_reset_token lower sha t)"
    unfolding check_reset_token_def check_reset_token_tx_def live_reset_token_tx_def
    by (intro keeps_intros) (simp add: q s)
qed (auto simp: keeps_def insert_standalone_def external_call_def next_call_eq rand_read_def wrapE_def
    split: outcome.split prod.splits sum.splits)

lemma same_domain [keeps_intros]: "keeps_users U m \<Longrightarrow> keeps (same P U L) (domain m)"
  by (simp add: keeps_def same_def domain_run)

lemma same_modify:
  "(\<And>c. world_of (f c) = world_of c) \<Longrightarrow> (\<And>c. session (f c) = session c) \<Longrightarrow> keeps (same P U L) (modify f)"
  by (simp add: keeps_def same_def)

lemma same_response [keeps_intros]:
  "keeps (same P U L) (safe_redirect path)" "keeps (same P U L) (blob code b mime)"
  "keeps (same P U L) (set_header k v)" "keeps (same P U L) (capture_error req e)" "keeps (same P U L) (log_to l)"
  "keeps (same P U L) (parse_form req)" "keeps (same P U L) current_user" "keeps (same P U L) (gets f)"
proof -
  have "keeps (same P U L) (modify (\<lambda>c. c\<lparr>resp := g c\<rparr>))" for g by (rule same_modify) auto
  then show "keeps (same P U L) (blob code b mime)"
    unfolding blob_def by (intro keeps_bindE keeps_domain same_domain) (auto intro: keeps_intros)
qed (auto simp: keeps_def same_def safe_redirect_run set_header_def capture_error_def parse_form_def
    split: option.split)

lemma same_flash [keeps_intros]:
  "scs_contract (sessions P) \<Longrightarrow> keeps (same P U L) (set_flash P kind msg)"
  "scs_contract (sessions P) \<Longrightarrow> keeps (same P U L) (take_flash P)"
  by (simp_all add: keeps_def same_def set_flash_run take_flash_run login_def flash_frame)

lemma same_render_page [keeps_intros]:
  assumes "scs_contract (sessions P)"
  shows "keeps (same P U L) (render_page P title extras pg)"
  unfolding render_page_def render_page_data_def Let_def
  by (intro keeps_bindE keeps_intros assms)

lemma same_ignore_error [keeps_intros]: "keeps I m \<Longrightarrow> keeps I (ignore_error m)"
  unfolding ignore_error_def by (intro keeps_intros)

lemma same_error_handler:
  assumes "scs_contract (sessions P)"
  shows "keeps (same P U L) (error_handler P req err)"
  unfolding error_handler_def apierror_json_def http_error_def Let_def by (intro keeps_intros)

text \<open>Every handler but the sign-in, the sign-out and the reset leaves both alone.\<close>

lemma same_handlers:
  assumes "scs_contract (sessions P)"
  shows "keeps (same P U L) (signin_form P req)" "keeps (same P U L) (password_reset_request_form P req)"
    "keeps (same P U L) (password_reset_request P req)" "keeps (same P U L) (password_reset_confirm_form P req)"
    "keeps (same P U L) (home P req)" "keeps (same P U L) (design_showcase P req)"
    "keeps (same P U L) (dead_link P)"
proof -
  show d: "keeps (same P U L) (dead_link P)"
    unfolding dead_link_def by (intro keeps_intros assms)
  show "keeps (same P U L) (password_reset_confirm_form P req)"
    unfolding password_reset_confirm_form_def Let_def by (intro keeps_intros assms d)
qed (unfold signin_form_def password_reset_request_form_def password_reset_request_def home_def
    design_showcase_def Let_def, (intro keeps_intros assms; fail)+)

lemma same_keeps_run:
  assumes "keeps (same P U L) m" and "same P U L c" and "(r, c') = m c"
  shows "same P U L c'"
  using keeps_run[OF assms(1)] assms(2,3) by metis

lemma same_domain_run:
  assumes "keeps_users U m" and "m w = (r, w')" and "same P U L (c\<lparr>world_of := w\<rparr>)"
  shows "same P U L (c\<lparr>world_of := w'\<rparr>)"
  using assms(3) keeps_run[OF assms(1,2)] by (simp add: same_def)

subsection \<open>Signing in\<close>

lemma throttle_blocked_Inr:
  assumes "throttle_blocked lower key w = (Inr b, w')"
  shows "b \<longleftrightarrow> 5 \<le> recent_attempts w key" and "w' = tick w"
proof -
  have "fate w (calls w) = Works"
    using assms by (cases "fate w (calls w)") (auto simp: throttle_blocked_def throttle_blocked_tx_def
        bindE_def wrapE_def pg_query_def next_call_eq)
  from assms throttle_blocked_run[OF this, of lower key]
  show "b \<longleftrightarrow> 5 \<le> recent_attempts w key" "w' = tick w" by (auto simp: throttleLimit_def)
qed

lemma open_session_run:
  assumes "scs_contract (sessions P)" and "open_session P u c = (r, c')"
  shows "(\<exists>e. r = Inl e \<and> session c' = session c \<and> tables (world_of c') = tables (world_of c)) \<or>
    (r = Inr () \<and> login (sessions P) (session c') = (u_id u, password_epoch (sha_of P) u) \<and>
     SessionToken (sessions P) (session c') \<noteq> SessionToken (sessions P) (session c) \<and>
     tables (world_of c') = tables (world_of c) \<and> status (resp c') = 303)"
proof -
  obtain r1 w1 where d: "external_call id (world_of c) = (r1, w1)" by force
  have w1: "tables w1 = tables (world_of c)"
    using d by (auto simp: external_call_def next_call_eq split: outcome.splits)
  show ?thesis
    using assms(2) w1 d
    by (cases r1) (auto simp: open_session_def bindE_def sess_store_run wrapE_def sess_pop_def
        scs_laws[OF assms(1)] safe_redirect_run login_def)
qed

lemma signin_submit_cases:
  assumes "scs_contract (sessions P)" and "store_inv (lower_of P) (world_of c)"
    and "signin_submit P req c = (r, c')"
  shows "users (tables (world_of c')) = users (tables (world_of c)) \<and>
    (login (sessions P) (session c') = login (sessions P) (session c) \<or>
     (\<exists>u \<in> set (users (tables (world_of c))).
        login (sessions P) (session c') = (u_id u, password_epoch (sha_of P) u) \<and>
        SessionToken (sessions P) (session c') \<noteq> SessionToken (sessions P) (session c) \<and>
        lower_of P (u_email u) = lower_of P (trim_space (FormValue req ''email'')) \<and>
        ComparePasswordAndHash (argon P) (FormValue req ''password'') (u_password_hash u) = Inr True \<and>
        recent_attempts (world_of c) (signin_key P req (trim_space (FormValue req ''email''))) < 5))"
proof -
  let ?U = "users (tables (world_of c))" and ?L = "login (sessions P) (session c)"
  let ?email = "trim_space (FormValue req ''email'')"
  let ?key = "signin_key P req ?email"
  have unchanged: ?thesis if "same P ?U ?L c'" using that by (simp add: same_def)
  have here: "same P ?U ?L c" by (simp add: same_def)
  have page: "keeps (same P ?U ?L) (bindE (set_flash P k m) (\<lambda>_. render_page P t x pg))" for k m t x pg
    by (intro keeps_intros assms(1))
  show ?thesis
  proof (cases "FormParse req")
    case (Some e)
    with assms(3) have "c' = c" by (simp add: signin_submit_def parse_form_def)
    with here unchanged show ?thesis by simp
  next
    case None
    obtain rb w1 where b: "throttle_blocked (lower_of P) ?key (world_of c) = (rb, w1)" by force
    let ?c1 = "c\<lparr>world_of := w1\<rparr>"
    have s1: "same P ?U ?L ?c1"
      using same_domain_run[OF keeps_users_domain(1) b, of P ?U ?L c] here by simp
    show ?thesis
    proof (cases rb)
      case (Inl e)
      with assms(3) None b have "c' = ?c1"
        by (simp add: signin_submit_def parse_form_def bindE_def wrapE_def domain_def Let_def)
      with s1 unchanged show ?thesis by simp
    next
      case (Inr blk)
      note blocked = throttle_blocked_Inr[OF b[unfolded Inr]]
      show ?thesis
      proof (cases blk)
        case True
        with assms(3) None b Inr have "(r, c') = bindE (set_flash P ''error''
            (''too many failed attempts '' @ em_dash @ '' try again later'')) (\<lambda>_.
            render_page P ''Sign in'' None (SigninPage ?email)) ?c1"
          by (simp add: signin_submit_def parse_form_def bindE_def wrapE_def domain_def Let_def)
        with same_keeps_run[OF page s1] unchanged show ?thesis by blast
      next
        case False
        obtain ra w2 where a: "authenticate (lower_of P) (argon P) (dummy_hash P) ?email
            (FormValue req ''password'') w1 = (ra, w2)" by force
        let ?c2 = "c\<lparr>world_of := w2\<rparr>"
        have s2: "same P ?U ?L ?c2"
          using same_domain_run[OF keeps_users_domain(6) a s1] .
        show ?thesis
        proof (cases ra)
          case (Inl e)
          have "(r, c') = (if errors_is e ErrInvalidCredentials then
              bindE (wrapE (errorf ''recording failed signin: '')
                (domain (throttle_fail (lower_of P) ?key))) (\<lambda>_.
              bindE (set_flash P ''error'' ''invalid email or password'') (\<lambda>_.
              render_page P ''Sign in'' None (SigninPage ?email)))
            else fail (errorf ''authenticating: '' e)) ?c2"
            using assms(3) None b Inr False a Inl
            by (simp add: signin_submit_def parse_form_def bindE_def wrapE_def attempt_def domain_def Let_def)
          moreover have "keeps (same P ?U ?L) (if errors_is e ErrInvalidCredentials then
              bindE (wrapE (errorf ''recording failed signin: '')
                (domain (throttle_fail (lower_of P) ?key))) (\<lambda>_.
              bindE (set_flash P ''error'' ''invalid email or password'') (\<lambda>_.
              render_page P ''Sign in'' None (SigninPage ?email)))
            else fail (errorf ''authenticating: '' e))"
            by (intro keeps_intros assms(1))
          ultimately show ?thesis using same_keeps_run[OF _ s2] unchanged by blast
        next
          case (Inr u)
          obtain rt w3 where t: "throttle_reset (lower_of P) ?key w2 = (rt, w3)" by force
          obtain ls where opened: "open_session P u (c\<lparr>world_of := w3, web_log := ls\<rparr>) = (r, c')"
          proof (cases rt)
            case (Inl e)
            show thesis
              by (rule that[of "web_log c @ [LogThrottle e]"])
                (use assms(3) None b \<open>rb = Inr blk\<close> False a Inr t Inl in
                  \<open>simp add: signin_submit_def parse_form_def bindE_def wrapE_def attempt_def domain_def Let_def\<close>)
          next
            case (Inr v)
            show thesis
              by (rule that[of "web_log c"])
                (use assms(3) None b \<open>rb = Inr blk\<close> False a \<open>ra = Inr u\<close> t Inr in
                  \<open>simp add: signin_submit_def parse_form_def bindE_def wrapE_def attempt_def domain_def Let_def\<close>)
          qed
          have s3: "same P ?U ?L (c\<lparr>world_of := w3, web_log := ls\<rparr>)"
            using same_domain_run[OF keeps_users_domain(3) t s2] by (simp add: same_def)
          have sound: "u \<in> set ?U" "lower_of P (u_email u) = lower_of P ?email"
            "ComparePasswordAndHash (argon P) (FormValue req ''password'') (u_password_hash u) = Inr True"
          proof -
            have "store_inv (lower_of P) w1" using assms(2) blocked(2) by simp
            from authenticate_inr[OF this a[unfolded Inr]] blocked(2)
            show "u \<in> set ?U" "lower_of P (u_email u) = lower_of P ?email"
              "ComparePasswordAndHash (argon P) (FormValue req ''password'') (u_password_hash u) = Inr True"
              by simp_all
          qed
          from open_session_run[OF assms(1) opened] show ?thesis
            using s3 sound blocked(1) False by (auto simp: same_def)
        qed
      qed
    qed
  qed
qed

text \<open>
  C12: Nobody is signed in without the password: however the calls fail, after \<open>POST /signin\<close> either
  the session's login and the accounts are what they were, or the session belongs to an account
  whose email is the one posted (up to case) and whose stored hash accepted the password posted,
  while the key had fewer than five recent failures; then the session has a new token, so that a
  token planted before the sign-in is worthless.
\<close>

theorem signin_submit_sound:
  assumes "scs_contract (sessions P)" and "store_inv (lower_of P) (world_of c)"
    and "signin_submit P req c = (r, c')"
  shows "users (tables (world_of c')) = users (tables (world_of c)) \<and>
    (login (sessions P) (session c') = login (sessions P) (session c) \<or>
     (\<exists>u \<in> set (users (tables (world_of c))).
        login (sessions P) (session c') = (u_id u, password_epoch (sha_of P) u) \<and>
        SessionToken (sessions P) (session c') \<noteq> SessionToken (sessions P) (session c) \<and>
        lower_of P (u_email u) = lower_of P (trim_space (FormValue req ''email'')) \<and>
        ComparePasswordAndHash (argon P) (FormValue req ''password'') (u_password_hash u) = Inr True \<and>
        recent_attempts (world_of c) (signin_key P req (trim_space (FormValue req ''email''))) < 5))"
  using signin_submit_cases[OF assms] .

text \<open>The run of a sign-in when every call works.\<close>

lemma throttle_blocked_reliable:
  "reliable w \<Longrightarrow> throttle_blocked lower key w = (Inr (5 \<le> recent_attempts w key), tick w)"
  using throttle_blocked_run[of w lower key] by (simp add: reliable_def throttleLimit_def)

lemma signin_blocked_run:
  assumes "reliable (world_of c)" and "FormParse req = None"
    and "5 \<le> recent_attempts (world_of c) (signin_key P req (trim_space (FormValue req ''email'')))"
  shows "signin_submit P req c =
    bindE (set_flash P ''error'' (''too many failed attempts '' @ em_dash @ '' try again later'')) (\<lambda>_.
      render_page P ''Sign in'' None (SigninPage (trim_space (FormValue req ''email''))))
      (c\<lparr>world_of := tick (world_of c)\<rparr>)"
proof -
  let ?check = "wrapE (errorf ''checking signin throttle: '') (domain (throttle_blocked (lower_of P)
      (signin_key P req (trim_space (FormValue req ''email'')))))"
  have "?check c = (Inr True, c\<lparr>world_of := tick (world_of c)\<rparr>)"
    using assms(1,3) by (simp add: wrapE_def domain_def throttle_blocked_reliable)
  note checked = bindE_Inr[where m = ?check and w = c, OF this]
  show ?thesis using assms(2) by (simp add: signin_submit_def parse_form_def Let_def checked)
qed

lemma signin_success_run:
  assumes "scs_contract (sessions P)" and "store_inv (lower_of P) (world_of c)" and "reliable (world_of c)"
    and "FormParse req = None"
    and "recent_attempts (world_of c) (signin_key P req (trim_space (FormValue req ''email''))) < 5"
    and "user_by_email (lower_of P) (tables (world_of c)) (trim_space (FormValue req ''email'')) = Some u"
    and "ComparePasswordAndHash (argon P) (FormValue req ''password'') (u_password_hash u) = Inr True"
  shows "\<exists>c'. signin_submit P req c = (Inr (), c') \<and>
    login (sessions P) (session c') = (u_id u, password_epoch (sha_of P) u) \<and>
    SessionToken (sessions P) (session c') \<noteq> SessionToken (sessions P) (session c) \<and>
    status (resp c') = 303 \<and>
    headers (resp c') ''Location'' = Some (let path = GetString (sessions P) (session c) ''after_signin'' in
      if safe_redirect_path path then path else ''/'') \<and>
    recent_attempts (world_of c') = (recent_attempts (world_of c))
      (signin_key P req (trim_space (FormValue req ''email'')) := 0)"
proof -
  let ?w = "world_of c" and ?email = "trim_space (FormValue req ''email'')"
  let ?key = "signin_key P req ?email" and ?S = "sessions P"
  let ?w1 = "tick ?w"
  let ?w2 = "hashed (tick (tick ?w1))"
  let ?w3 = "after_stmt (lower_of P) (DeleteAttempts ?key) (tick ?w2)"
  have a: "authenticate (lower_of P) (argon P) (dummy_hash P) ?email (FormValue req ''password'') ?w1 = (Inr u, ?w2)"
    using authenticate_known[of "lower_of P" ?w1 ?email u "argon P" "dummy_hash P" "FormValue req ''password''"]
      assms(2,3,6,7) by (simp add: reliable_def)
  have t: "throttle_reset (lower_of P) ?key ?w2 = (Inr (), ?w3)"
    using throttle_reset_run[of ?w2 "lower_of P" ?key] assms(3) by (simp del: run_stmt.simps)
  have r3: "reliable ?w3" using assms(3) by (simp del: run_stmt.simps)
  have attempts: "recent_attempts (tick ?w3) = (recent_attempts ?w)(?key := 0)"
    using recent_attempts_delete[of "lower_of P" ?key "tick ?w2"]
    by (simp add: recent_attempts_def[abs_def] del: run_stmt.simps)
  have "signin_submit P req c = open_session P u (c\<lparr>world_of := ?w3\<rparr>)"
    using assms(3-5) a t
    by (simp add: signin_submit_def parse_form_def Let_def bindE_def wrapE_def attempt_def
        domain_def throttle_blocked_reliable del: run_stmt.simps)
  moreover have "\<exists>c'. open_session P u (c\<lparr>world_of := ?w3\<rparr>) = (Inr (), c') \<and> login ?S (session c') = (u_id u, password_epoch (sha_of P) u) \<and>
      SessionToken ?S (session c') \<noteq> SessionToken ?S (session c) \<and> status (resp c') = 303 \<and>
      headers (resp c') ''Location'' = Some (let path = GetString ?S (session c) ''after_signin'' in
        if safe_redirect_path path then path else ''/'') \<and>
      recent_attempts (world_of c') = (recent_attempts ?w)(?key := 0)"
    using r3 attempts
    by (simp add: open_session_def bindE_def wrapE_def sess_store_reliable sess_pop_def
        scs_laws[OF assms(1)] safe_redirect_run login_def Let_def del: run_stmt.simps)
  ultimately show ?thesis by (simp del: run_stmt.simps)
qed

theorem signin_submit_sound_witness:
  "\<exists>c'. signin_submit demo_app (demo_request\<lparr>Method := ''POST'', FormValue := (\<lambda>k.
       if k = ''email'' then ''ada@example.com'' else ''correct-horse'')\<rparr>) demo_web = (Inr (), c') \<and>
     users (tables (world_of c')) = [ada] \<and> login mem_scs (session c') = (1, hex_encode (u_password_hash ada)) \<and>
     SessionToken mem_scs (session c') \<noteq> SessionToken mem_scs (session demo_web)"
proof -
  let ?req = "demo_request\<lparr>Method := ''POST'', FormValue := (\<lambda>k.
       if k = ''email'' then ''ada@example.com'' else ''correct-horse'')\<rparr>"
  have S: "sessions demo_app = mem_scs" by (simp add: demo_app_def)
  have n: "recent_attempts demo_world k = 0" for k by (simp add: recent_attempts_def empty_tables_def)
  have f: "FormParse ?req = None" by (simp add: demo_request_def)
  have m: "fst (login mem_scs (session demo_web)) = 0" by (simp add: login_def demo_web_def mem_scs_def)
  obtain c' where c: "signin_submit demo_app ?req demo_web = (Inr (), c')"
    "login mem_scs (session c') = (u_id ada, password_epoch id ada)"
    "SessionToken mem_scs (session c') \<noteq> SessionToken mem_scs (session demo_web)"
    using signin_success_run[OF demo_app_sessions, of demo_web ?req ada] demo_world_inv f n demo_compare S
    by auto
  with signin_submit_sound[OF demo_app_sessions _ c(1)] demo_world_inv show ?thesis
    by (simp add: password_epoch_def ada_def)
qed

end
