(* ===== verification/Router.thy ===== *)
theory Router
  imports Handlers Env_Config
begin

text \<open>
  The request chain: \<open>web/router.go\<close> (middleware in the order \<open>Router\<close> installs it, and the
  routes), \<open>web/tracing.go\<close>, and \<open>web/sessions.go\<close>.  echo's own middleware is modelled by what
  the code asks of it: \<open>RequestID\<close> takes the id the client sent, or draws one, and returns it as a
  header; \<open>BodyLimit\<close> refuses a declared length over its bound; the request logger with
  \<open>HandleError\<close> answers an error on the way out and passes it on.  \<open>LoadAndSave\<close> lends the request
  its session, the field \<open>session\<close> of the state; nothing that a handler calls panics, so \<open>Recover\<close>
  passes everything on.
\<close>

subsection \<open>Configuration of the sessions\<close>

record session_config =
  Lifetime :: int
  IdleTimeout :: int
  CookieName :: string
  CookieHttpOnly :: bool
  CookieSameSite :: string
  CookieSecure :: bool

definition session_settings :: "string \<Rightarrow> session_config" where
  "session_settings appEnv =
     \<lparr>Lifetime = 30 * 24 * 3600, IdleTimeout = 7 * 24 * 3600, CookieName = ''session'',
      CookieHttpOnly = True, CookieSameSite = ''Lax'', CookieSecure = (appEnv = Production)\<rparr>"

definition web_configure :: "string \<Rightarrow> 's app \<Rightarrow> 's app \<times> session_config" where
  "web_configure appEnv P =
     (P\<lparr>dev_mode := (appEnv = Development), prod_mode := (appEnv = Production)\<rparr>,
      session_settings appEnv)"

subsection \<open>Middleware\<close>

definition body_limit :: "int \<Rightarrow> 's handler \<Rightarrow> 's handler" where
  "body_limit n next req =
     (if ContentLength req > n then fail (HTTPError 413 ''Request Entity Too Large'' None) else next req)"

text \<open>\<open>echo.ResolveResponseStatus\<close>: what was sent, or else what the error will be answered with.\<close>

definition resolve_status :: "response \<Rightarrow> gerr + unit \<Rightarrow> nat" where
  "resolve_status rs r =
     (if committed rs then status rs
      else case r of Inl e \<Rightarrow> (if status_code e = 0 then 500 else status_code e)
        | Inr _ \<Rightarrow> (if status rs = 0 then 200 else status rs))"

definition request_id :: "'s handler \<Rightarrow> 's handler" where
  "request_id next req =
     bindE (gets fresh_id) (\<lambda>fresh.
     bindE (set_header ''X-Request-Id''
         (if Header req ''X-Request-Id'' \<noteq> [] then Header req ''X-Request-Id'' else fresh)) (\<lambda>_.
     next req))"

text \<open>\<open>requestIDOnSpan\<close>: on the span of the request's context, if there is one.\<close>

definition request_id_on_span :: "'s handler \<Rightarrow> 's handler" where
  "request_id_on_span next req =
     bindE (gets (\<lambda>c. sent_header c ''X-Request-Id'')) (\<lambda>rid.
     bindE (if rid \<noteq> []
            then modify (\<lambda>c. c\<lparr>open_span := map_option (\<lambda>sp. sp\<lparr>sp_request_id := rid\<rparr>) (open_span c)\<rparr>)
            else ret ()) (\<lambda>_.
     next req))"

definition started_span :: "(request \<Rightarrow> string) \<Rightarrow> request \<Rightarrow> span" where
  "started_span route_path req =
     \<lparr>sp_name = Method req @ '' '' @ route_path req, sp_path = Path req, sp_client = RealIP req,
      sp_request_id = [], sp_status = 0, sp_error = None, sp_failed = False\<rparr>"

definition end_span :: "gerr + unit \<Rightarrow> 's web \<Rightarrow> 's web" where
  "end_span r c =
     (let code = resolve_status (resp c) r;
          finish = (\<lambda>sp. sp\<lparr>sp_status := code,
            sp_error := (case r of Inl e \<Rightarrow> Some e | Inr _ \<Rightarrow> None), sp_failed := (code \<ge> 500)\<rparr>) in
      c\<lparr>spans := spans c @ (case open_span c of None \<Rightarrow> [] | Some sp \<Rightarrow> [finish sp]), open_span := None\<rparr>)"

definition tracing :: "(request \<Rightarrow> string) \<Rightarrow> 's handler \<Rightarrow> 's handler" where
  "tracing route_path next req = (\<lambda>c.
     case next req (c\<lparr>open_span := Some (started_span route_path req)\<rparr>) of
       (r, c') \<Rightarrow> (r, end_span r c'))"

text \<open>The id on a line of the request log: the client's, or else the one of the response.\<close>

definition logged_id :: "request \<Rightarrow> 's web \<Rightarrow> string" where
  "logged_id req c =
     (if Header req ''X-Request-Id'' \<noteq> [] then Header req ''X-Request-Id'' else sent_header c ''X-Request-Id'')"

definition request_logger :: "'s app \<Rightarrow> 's handler \<Rightarrow> 's handler" where
  "request_logger P next req = (\<lambda>c.
     case next req c of
       (Inl e, c') \<Rightarrow>
         let c2 = snd (error_handler P req e c') in
         (Inl e, c2\<lparr>web_log := web_log c2 @
            [LogError (RequestURI req) (resolve_status (resp c2) (Inl e)) (err_text e) (logged_id req c2)]\<rparr>)
     | (Inr u, c') \<Rightarrow>
         (Inr u, c'\<lparr>web_log := web_log c' @
            [LogInfo (Method req @ '' '' @ RequestURI req) (resolve_status (resp c') (Inr u)) (logged_id req c')]\<rparr>))"

subsection \<open>Routes\<close>

definition health :: "'s handler" where
  "health req = blob 200 (Text ''A-OK!'') text_mime"

definition ready :: "'s handler" where
  "ready req =
     bindE (attempt (domain (external_call id))) (\<lambda>r.
     case r of
       Inl _ \<Rightarrow> fail (HTTPError 503 ''database unreachable'' None)
     | Inr _ \<Rightarrow> blob 200 (Text ''ready'') text_mime)"

text \<open>
  \<open>e.Static\<close> serves the files of the public directory, by their path in it; \<open>/ui/\<close> goes to a handler
  of the package \<open>gesso/ui\<close>, which writes its own answer, whatever the status.
\<close>

definition static_file :: "'s app \<Rightarrow> 's handler" where
  "static_file P req =
     (case static_asset P (drop (length ''/public'') (Path req)) of
        None \<Rightarrow> fail (HTTPError 404 ''Not Found'' None)
      | Some (mime, bytes) \<Rightarrow> blob 200 (Asset bytes) mime)"

definition ui_assets :: "'s app \<Rightarrow> 's handler" where
  "ui_assets P req =
     (case ui_asset P (drop (length ''/ui/'') (Path req)) of
        (code, mime, bytes) \<Rightarrow> ignore_error (blob code (Asset bytes) mime))"

datatype route_name =
    Static | UiAssets | Health | Ready | Design | SigninGet | SigninPost | SignoutPost
  | ResetGet | ResetPost | ConfirmGet | ConfirmPost | HomeGet

definition routes :: "(string \<times> string \<times> route_name) list" where
  "routes =
     [(''GET'', ''/health'', Health), (''GET'', ''/ready'', Ready), (''GET'', ''/design'', Design),
      (''GET'', ''/signin'', SigninGet), (''POST'', ''/signin'', SigninPost), (''POST'', ''/signout'', SignoutPost),
      (''GET'', ''/password-reset'', ResetGet), (''POST'', ''/password-reset'', ResetPost),
      (''GET'', ''/password-reset/confirm'', ConfirmGet), (''POST'', ''/password-reset/confirm'', ConfirmPost),
      (''GET'', ''/'', HomeGet)]"

definition find_route :: "request \<Rightarrow> route_name option" where
  "find_route req =
     (if Method req = ''GET'' \<and> has_prefix (Path req) ''/public'' then Some Static
      else if Method req = ''GET'' \<and> has_prefix (Path req) ''/ui/'' then Some UiAssets
      else map_option (\<lambda>(_, _, n). n) (find (\<lambda>(m, p, _). m = Method req \<and> p = Path req) routes))"

text \<open>
  The methods that the routes of the request's path answer (none uses another than these two), and the
  path of its route: of the one that answers it, or else of those of the same path under other methods.
\<close>

definition allowed_methods :: "request \<Rightarrow> string list" where
  "allowed_methods req = filter (\<lambda>m. find_route (req\<lparr>Method := m\<rparr>) \<noteq> None) [''GET'', ''POST'']"

definition route_path :: "request \<Rightarrow> string" where
  "route_path req =
     (case (if find_route req \<noteq> None then [Method req] else allowed_methods req) of
        [] \<Rightarrow> []
      | m # _ \<Rightarrow> (case find_route (req\<lparr>Method := m\<rparr>) of
          Some Static \<Rightarrow> ''/public*'' | Some UiAssets \<Rightarrow> ''/ui/*'' | _ \<Rightarrow> Path req))"

fun handler_of :: "'s app \<Rightarrow> route_name \<Rightarrow> 's handler" where
  "handler_of P Static = static_file P"
| "handler_of P UiAssets = ui_assets P"
| "handler_of P Health = health"
| "handler_of P Ready = ready"
| "handler_of P Design = design_showcase P"
| "handler_of P SigninGet = signin_form P"
| "handler_of P SigninPost = signin_submit P"
| "handler_of P SignoutPost = signout P"
| "handler_of P ResetGet = password_reset_request_form P"
| "handler_of P ResetPost = password_reset_request P"
| "handler_of P ConfirmGet = password_reset_confirm_form P"
| "handler_of P ConfirmPost = password_reset_confirm P"
| "handler_of P HomeGet = require_user P (home P)"

text \<open>
  What echo answers itself: to \<open>OPTIONS\<close> for a path it knows with the methods, to other methods with a 405
  that names them, and to an unknown path with a 404.
\<close>

definition no_content :: "('s, unit) wact" where
  "no_content = modify (\<lambda>c. c\<lparr>resp := (resp c)\<lparr>committed := True, status := 204\<rparr>\<rparr>)"

definition unmatched :: "'s handler" where
  "unmatched req =
     (let allowed = allowed_methods req in
      if allowed = [] then fail (HTTPError 404 ''Not Found'' None)
      else bindE (set_header ''Allow'' (join '', '' (''OPTIONS'' # allowed))) (\<lambda>_.
        if Method req = ''OPTIONS'' then no_content else fail (HTTPError 405 ''Method Not Allowed'' None)))"

definition dispatch :: "'s app \<Rightarrow> 's handler" where
  "dispatch P req =
     (case find_route req of
        Some n \<Rightarrow> handler_of P n req
      | None \<Rightarrow> unmatched req)"

definition router :: "'s app \<Rightarrow> 's handler" where
  "router P =
     request_id (secure_headers P (body_limit (2 * 2 ^ 20) (tracing route_path (request_id_on_span
       (request_logger P (same_origin_post P (load_user P (dispatch P))))))))"

text \<open>echo's \<open>ServeHTTP\<close>: the chain, then the error handler for an error that is still unanswered.\<close>

definition serve :: "'s app \<Rightarrow> request \<Rightarrow> 's web \<Rightarrow> 's web" where
  "serve P req c =
     (case router P req c of
        (Inl e, c') \<Rightarrow> snd (error_handler P req e c')
      | (Inr _, c') \<Rightarrow> c')"

subsection \<open>The database through a request\<close>

text \<open>What the operations of a request keep of the world behind it.\<close>

lemma world_domain: "keeps J m \<Longrightarrow> keeps (\<lambda>c. J (world_of c)) (domain m)"
  by (simp add: keeps_def domain_run)

lemma world_light [keeps_intros]:
  "keeps (\<lambda>c. J (world_of c)) (safe_redirect path)" "keeps (\<lambda>c. J (world_of c)) (set_header k v)"
  "keeps (\<lambda>c. J (world_of c)) (capture_error req e)" "keeps (\<lambda>c. J (world_of c)) (log_to l)" "keeps (\<lambda>c. J (world_of c)) (parse_form req)"
  "keeps (\<lambda>c. J (world_of c)) current_user" "keeps (\<lambda>c. J (world_of c)) (gets f)"
  "keeps (\<lambda>c. J (world_of c)) (sess_do g)" "keeps (\<lambda>c. J (world_of c)) (sess_get h)"
  "keeps (\<lambda>c. J (world_of c)) (sess_pop P k)" "keeps (\<lambda>c. J (world_of c)) (set_flash P kind msg)"
  "keeps (\<lambda>c. J (world_of c)) (take_flash P)" "keeps (\<lambda>c. J (world_of c)) (modify (\<lambda>c. c\<lparr>cu := u\<rparr>))"
  "keeps (\<lambda>c. J (world_of c)) (modify (\<lambda>c. c\<lparr>csp_nonce := n\<rparr>))" "keeps (\<lambda>c. J (world_of c)) no_content"
proof -
  have pop: "keeps (\<lambda>c. J (world_of c)) (sess_pop P k)" for k
    by (simp add: keeps_def sess_pop_def split: prod.split)
  then show "keeps (\<lambda>c. J (world_of c)) (sess_pop P k)" .
  show "keeps (\<lambda>c. J (world_of c)) (take_flash P)"
    unfolding take_flash_def by (intro keeps_bindE pop keeps_if keeps_ret)
qed (auto simp: keeps_def safe_redirect_run set_header_def no_content_def capture_error_def parse_form_def
    set_flash_run split: option.split)

lemma world_blob:
  assumes "keeps J (external_call id)"
  shows "keeps (\<lambda>c. J (world_of c)) (blob code b mime)" "keeps (\<lambda>c. J (world_of c)) (sess_store f)"
    "keeps (\<lambda>c. J (world_of c)) (render_page P title extras pg)"
    "keeps (\<lambda>c. J (world_of c)) (error_handler P req err)"
proof -
  have m: "keeps (\<lambda>c. J (world_of c)) (modify (\<lambda>c. c\<lparr>resp := g c\<rparr>))" for g by (simp add: keeps_def)
  show b: "keeps (\<lambda>c. J (world_of c)) (blob code b mime)" for code b mime
    unfolding blob_def by (intro keeps_bindE m world_domain assms)
  show "keeps (\<lambda>c. J (world_of c)) (sess_store f)"
    unfolding sess_store_def by (intro keeps_bindE world_domain assms world_light)
  show "keeps (\<lambda>c. J (world_of c)) (render_page P title extras pg)"
    unfolding render_page_def render_page_data_def Let_def by (intro keeps_intros b)
  show "keeps (\<lambda>c. J (world_of c)) (error_handler P req err)"
    unfolding error_handler_def apierror_json_def http_error_def Let_def by (intro keeps_intros b)
qed

text \<open>The invariant of the store is kept by everything a domain package offers the handlers.\<close>

lemma inv_plain [simp]:
  "store_inv lower (w\<lparr>enqueued := xs\<rparr>) = store_inv lower w" "store_inv lower (w\<lparr>outbox := ys\<rparr>) = store_inv lower w"
  "store_inv lower (w\<lparr>rand_reads := n\<rparr>) = store_inv lower w"
  by (simp_all add: store_inv_def)

lemma inv_domain [keeps_intros]:
  "keeps (store_inv lower) (external_call id)" "keeps (store_inv lower) rand_read"
  "keeps (store_inv lower) (throttle_blocked lower k)" "keeps (store_inv lower) (throttle_fail lower k)"
  "keeps (store_inv lower) (throttle_reset lower k)" "keeps (store_inv lower) (by_email lower e)"
  "keeps (store_inv lower) (by_id lower i)" "keeps (store_inv lower) (authenticate lower A dummy e p)"
  "keeps (store_inv lower) (check_reset_token lower sha t)" "keeps (store_inv lower) (insert_standalone args)"
  "keeps (store_inv lower) (in_tx (pg_pool lower) (\<lambda>tx. reset_password_tx sha A build tx t p))"
proof -
  show "keeps (store_inv lower) (in_tx (pg_pool lower) (\<lambda>tx. reset_password_tx sha A build tx t p))"
    by (rule keeps_in_tx) (simp_all add: keeps_pg_tx keeps_reset_password)
  show "keeps (store_inv lower) (insert_standalone args)"
    unfolding insert_standalone_def by (intro keeps_wrapE keeps_external_call) simp_all
qed (auto simp: throttle_blocked_def throttle_fail_def throttle_reset_def by_email_def by_id_def
    authenticate_def check_reset_token_def intro!: keeps_intros)

lemma inv_handler_of: "keeps (\<lambda>c. store_inv (lower_of P) (world_of c)) (handler_of P n req)"
proof -
  note k = keeps_intros world_domain inv_domain world_blob[OF inv_domain(1)]
  have dead: "keeps (\<lambda>c. store_inv (lower_of P) (world_of c)) (dead_link P)"
    unfolding dead_link_def by (intro k)
  show ?thesis
  proof (cases n)
    case SigninPost
    show ?thesis unfolding SigninPost handler_of.simps signin_submit_def open_session_def Let_def
      by (intro k)
  next
    case ConfirmGet
    show ?thesis unfolding ConfirmGet handler_of.simps password_reset_confirm_form_def Let_def
      by (intro k dead)
  next
    case ConfirmPost
    show ?thesis unfolding ConfirmPost handler_of.simps password_reset_confirm_def Let_def
      by (intro k dead)
  qed (simp_all only: handler_of.simps health_def ready_def static_file_def ui_assets_def design_showcase_def
      signin_form_def signout_def password_reset_request_form_def password_reset_request_def
      require_user_def home_def Let_def, (intro k; fail)+)
qed

lemma inv_handler: "keeps (\<lambda>c. store_inv (lower_of P) (world_of c)) (dispatch P req)"
  unfolding dispatch_def unmatched_def Let_def by (intro keeps_intros inv_handler_of)

lemma keeps_request_logger:
  "keeps I (next req) \<Longrightarrow> (\<And>e. keeps I (error_handler P req e)) \<Longrightarrow>
   (\<And>c xs. I c \<Longrightarrow> I (c\<lparr>web_log := xs\<rparr>)) \<Longrightarrow> keeps I (request_logger P next req)"
  unfolding keeps_def request_logger_def Let_def by (fastforce split: prod.splits sum.splits)

lemma keeps_tracing:
  assumes "keeps I (next req)" and "\<And>c sp xs. I c \<Longrightarrow> I (c\<lparr>open_span := sp, spans := xs\<rparr>)"
  shows "keeps I (tracing rp next req)"
proof (rule keepsI)
  fix c assume c: "I c"
  let ?c1 = "c\<lparr>open_span := Some (started_span rp req)\<rparr>"
  have "I ?c1" using assms(2)[OF c, of "spans c" "open_span ?c1"] by simp
  from keepsD[OF assms(1) this] have i: "I (snd (next req ?c1))" .
  have e: "end_span r c' = c'\<lparr>open_span := None, spans := spans (end_span r c')\<rparr>" for r and c' :: "'a web"
    by (simp add: end_span_def Let_def)
  obtain r c' where n: "next req ?c1 = (r, c')" by force
  obtain xs where xs: "end_span r c' = c'\<lparr>open_span := None, spans := xs\<rparr>" using e by blast
  show "I (snd (tracing rp next req c))"
    using assms(2)[of c' xs None] i by (simp add: tracing_def n xs)
qed

lemma keeps_request_id:
  "keeps I (next req) \<Longrightarrow> (\<And>v. keeps I (set_header ''X-Request-Id'' v)) \<Longrightarrow> keeps I (request_id next req)"
  "keeps I (next req) \<Longrightarrow> (\<And>c sp. I c \<Longrightarrow> I (c\<lparr>open_span := sp\<rparr>)) \<Longrightarrow> keeps I (request_id_on_span next req)"
  unfolding request_id_def request_id_on_span_def by (intro keeps_intros; simp add: keeps_def)+

lemma keeps_body_limit: "keeps I (next req) \<Longrightarrow> keeps I (body_limit n next req)"
  unfolding body_limit_def by (intro keeps_intros)

lemma inv_router: "keeps (\<lambda>c. store_inv (lower_of P) (world_of c)) (router P req)"
proof -
  note k = keeps_intros world_domain inv_domain world_blob[OF inv_domain(1)]
  have "keeps (\<lambda>c. store_inv (lower_of P) (world_of c)) (load_user P (dispatch P) req)"
    unfolding load_user_def by (intro k inv_handler)
  then have "keeps (\<lambda>c. store_inv (lower_of P) (world_of c)) (same_origin_post P (load_user P (dispatch P)) req)"
    unfolding same_origin_post_def by (intro k)
  then show ?thesis
    unfolding router_def secure_headers_def Let_def
    by (intro k keeps_request_id keeps_body_limit keeps_tracing keeps_request_logger) simp_all
qed

lemma serve_inv:
  assumes "store_inv (lower_of P) (world_of c)"
  shows "store_inv (lower_of P) (world_of (serve P req c))"
proof -
  have e: "keeps (\<lambda>c. store_inv (lower_of P) (world_of c)) (error_handler P req e)" for e
    by (rule world_blob[OF inv_domain(1)])
  show ?thesis
    using keepsD[OF inv_router[of P req], OF assms] keepsD[OF e]
    by (auto simp: serve_def split: prod.splits sum.splits)
qed

subsection \<open>Who is signed in after a request\<close>

abbreviation accounts :: "world \<Rightarrow> (int \<times> string) set" where
  "accounts w \<equiv> (\<lambda>u. (u_id u, u_email u)) ` set (users (tables w))"

text \<open>\<open>L\<close> is the login of an account of \<open>A\<close> whose password this request proved.\<close>

definition signs_in :: "'s app \<Rightarrow> request \<Rightarrow> (int \<times> string) set \<Rightarrow> int \<times> string \<Rightarrow> bool" where
  "signs_in P req A L \<longleftrightarrow> Method req = ''POST'' \<and> Path req = ''/signin'' \<and>
     (\<exists>u. (u_id u, u_email u) \<in> A \<and> L = (u_id u, password_epoch (sha_of P) u) \<and>
        lower_of P (u_email u) = lower_of P (trim_space (FormValue req ''email'')) \<and>
        ComparePasswordAndHash (argon P) (FormValue req ''password'') (u_password_hash u) = Inr True)"

lemma signs_in_mono: "signs_in P req A L \<Longrightarrow> A \<subseteq> B \<Longrightarrow> signs_in P req B L"
  by (auto simp: signs_in_def)

text \<open>
  The invariant of a request that began with the accounts \<open>A\<close> and the login \<open>L\<close>: the tables are
  consistent, no account went away or changed its email, and the session is signed in as before, as
  nobody, or by the password this request carries.
\<close>

definition request_inv :: "'s app \<Rightarrow> request \<Rightarrow> (int \<times> string) set \<Rightarrow> int \<times> string \<Rightarrow> 's web \<Rightarrow> bool" where
  "request_inv P req A L c \<longleftrightarrow>
     store_inv (lower_of P) (world_of c) \<and> A \<subseteq> accounts (world_of c) \<and>
     (let L' = login (sessions P) (session c) in
      L' = L \<or> fst L' = 0 \<or> signs_in P req (accounts (world_of c)) L')"

lemma same_request_inv:
  assumes "\<And>U L. keeps (same P U L) m" and "keeps (\<lambda>c. store_inv (lower_of P) (world_of c)) m"
  shows "keeps (request_inv P req A L) m"
proof (rule keepsI)
  fix c assume c: "request_inv P req A L c"
  have "same P (users (tables (world_of c))) (login (sessions P) (session c)) (snd (m c))"
    by (rule keepsD[OF assms(1)]) (simp add: same_def)
  moreover have "store_inv (lower_of P) (world_of (snd (m c)))"
    using keepsD[OF assms(2)] c by (simp add: request_inv_def)
  ultimately show "request_inv P req A L (snd (m c))" using c by (simp add: request_inv_def same_def)
qed

text \<open>What any statement, and so any domain operation, keeps of the accounts.\<close>

lemma keeps_accounts_stmt [keeps_intros]:
  "keeps (\<lambda>w. A \<subseteq> accounts w) (pg_query lower q)" "keeps (\<lambda>w. A \<subseteq> accounts w) (pg_exec lower q)"
proof -
  have s: "accounts w \<subseteq> accounts (after_stmt lower q w)" for w
    by (cases q) (auto simp: insert_user_def insert_token_def Let_def image_iff split: sum.split prod.split)
  show "keeps (\<lambda>w. A \<subseteq> accounts w) (pg_query lower q)"
    unfolding keeps_def using snd_pg_query[of lower q] s
    by (metis (no_types, lifting) insertE singletonD subset_trans tick_fields(1))
  show "keeps (\<lambda>w. A \<subseteq> accounts w) (pg_exec lower q)"
    unfolding keeps_def using snd_pg_exec[of lower q] s
    by (metis (no_types, lifting) insertE singletonD subset_trans tick_fields(1))
qed

text \<open>A transaction keeps what its statements keep, whether it commits, rolls back, or does not know.\<close>

lemma keeps_durable_in_tx:
  assumes "keeps (\<lambda>w. J (tables w)) (fn (conn lower))" and "pg.inside (fn (conn lower))"
  shows "keeps (\<lambda>w. J (tables w)) (in_tx (pg_pool lower) fn)"
proof (rule keepsI)
  fix w :: world assume w: "J (tables w)"
  let ?w1 = "(tick w)\<lparr>snapshot := tables w\<rparr>"
  obtain r w2 where f: "fn (conn lower) ?w1 = (r, w2)" by force
  have "J (tables w2)" using keeps_run[OF assms(1) f] w by simp
  moreover have "snapshot w2 = tables w"
    using assms(2)[unfolded pg.inside_def, rule_format, of ?w1] f by simp
  ultimately have w2: "J (tables w2)" "J (snapshot w2)" using w by simp_all
  show "J (tables (snd (in_tx (pg_pool lower) fn w)))"
    using w f w2 by (cases r) (auto simp: in_tx_def bindE_def wrapE_def attempt_def pg_begin_def pg_commit_def
        pg_rollback_def next_call_eq Let_def split: outcome.splits)
qed

lemma keeps_accounts_reset [keeps_intros]:
  "keeps (\<lambda>w. A \<subseteq> accounts w) (in_tx (pg_pool lower) (\<lambda>tx. reset_password_tx sha B build tx t p))"
proof -
  have hash: "keeps (\<lambda>w. A \<subseteq> accounts w) (hash_password B p)"
    by (auto simp: keeps_def hash_password_run split: option.split)
  have "keeps (\<lambda>w. A \<subseteq> accounts w) (reset_password_tx sha B build (conn lower) t p)"
    unfolding reset_password_tx_def live_reset_token_tx_def by_id_tx_def
    by (intro keeps_intros) (simp_all add: keeps_intros hash)
  then show ?thesis
    by (intro keeps_durable_in_tx[where J = "\<lambda>T. A \<subseteq> (\<lambda>u. (u_id u, u_email u)) ` set (users T)"]
        reset_password_inside)
qed


text \<open>The sign-out and the confirmation of a reset: a session without a user, the same accounts.\<close>

lemma request_inv_domain:
  assumes "\<And>A. keeps (\<lambda>w. A \<subseteq> accounts w) m"
    and "keeps (store_inv (lower_of P)) m"
  shows "keeps (request_inv P req A L) (domain m)"
proof (rule keepsI)
  fix c assume c: "request_inv P req A L c"
  let ?w = "world_of c" and ?w' = "snd (m (world_of c))"
  have "accounts ?w \<subseteq> accounts ?w'" using keepsD[OF assms(1)[of "accounts ?w"], of ?w] by simp
  moreover have "store_inv (lower_of P) ?w'" using keepsD[OF assms(2)] c by (simp add: request_inv_def)
  ultimately show "request_inv P req A L (snd (domain m c))"
    using c signs_in_mono[of P req "accounts ?w" "login (sessions P) (session c)" "accounts ?w'"]
    by (auto simp: request_inv_def domain_run Let_def)
qed

lemma keeps_accounts_users: "(\<And>U. keeps_users U m) \<Longrightarrow> keeps (\<lambda>w. A \<subseteq> accounts w) m"
  unfolding keeps_def by (metis (no_types))

lemma request_inv_session [keeps_intros]:
  assumes "\<And>s. fst (login (sessions P) (f s)) = 0"
  shows "keeps (request_inv P req A L) (sess_do f)"
  using assms by (simp add: keeps_def request_inv_def Let_def)

lemma request_inv_context [keeps_intros]:
  "keeps (request_inv P req A L) (modify (\<lambda>c. c\<lparr>cu := u\<rparr>))"
  "keeps (request_inv P req A L) (modify (\<lambda>c. c\<lparr>csp_nonce := n\<rparr>))"
  "keeps (request_inv P req A L) (sess_get g)" "keeps (request_inv P req A L) no_content"
  by (simp_all add: keeps_def request_inv_def no_content_def)

lemma request_inv_light [keeps_intros]:
  assumes "scs_contract (sessions P)"
  shows "keeps (request_inv P req A L) (dead_link P)" "keeps (request_inv P req A L) (parse_form req)"
    "keeps (request_inv P req A L) (set_flash P k msg)" "keeps (request_inv P req A L) (safe_redirect path)"
    "keeps (request_inv P req A L) (render_page P title extras pg)"
    "keeps (request_inv P req A L) (error_handler P req e)" "keeps (request_inv P req A L) (set_header k msg)"
    "keeps (request_inv P req A L) current_user"
    "keeps (request_inv P req A L) (sess_do (PutString (sessions P) ''after_signin'' msg))"
proof -
  note w = world_blob[OF inv_domain(1)]
  have "keeps (\<lambda>c. store_inv (lower_of P) (world_of c)) (dead_link P)"
    unfolding dead_link_def by (intro keeps_intros)
  then show "keeps (request_inv P req A L) (dead_link P)" by (intro same_request_inv same_handlers assms)
  have "keeps (same P U L) (sess_do (PutString (sessions P) ''after_signin'' msg))" for U L
    by (intro keeps_intros) (simp add: same_def login_def scs_laws[OF assms])
  then show "keeps (request_inv P req A L) (sess_do (PutString (sessions P) ''after_signin'' msg))"
    by (intro same_request_inv world_light)
qed (intro same_request_inv keeps_intros same_error_handler world_blob[OF inv_domain(1)] assms)+

lemma request_inv_destroy [keeps_intros]:
  assumes "scs_contract (sessions P)"
  shows "keeps (request_inv P req A L) (sess_store (Destroy (sessions P)))"
proof -
  have a: "keeps (\<lambda>w. B \<subseteq> accounts w) (external_call id)" for B by (intro keeps_intros) auto
  show ?thesis
    unfolding sess_store_def
    by (intro keeps_bindE request_inv_domain request_inv_session a inv_domain)
      (simp add: login_def scs_laws[OF assms])
qed

lemma request_inv_signin:
  assumes "scs_contract (sessions P)" and "find_route req = Some SigninPost"
  shows "keeps (request_inv P req A L) (signin_submit P req)"
proof (rule keepsI)
  fix c assume c: "request_inv P req A L c"
  obtain r c' where s: "signin_submit P req c = (r, c')" by force
  have stored: "keeps (\<lambda>c. store_inv (lower_of P) (world_of c)) (signin_submit P req)"
    using inv_handler_of[of P SigninPost req] by simp
  have post: "Method req = ''POST'' \<and> Path req = ''/signin''"
    using assms(2) by (auto simp: find_route_def routes_def split: if_splits)
  have inv: "store_inv (lower_of P) (world_of c)" using c by (simp add: request_inv_def)
  from keeps_run[OF stored s] inv have "store_inv (lower_of P) (world_of c')" by simp
  moreover from signin_submit_cases[OF assms(1) inv s] have "accounts (world_of c') = accounts (world_of c)"
    "login (sessions P) (session c') = login (sessions P) (session c) \<or>
     signs_in P req (accounts (world_of c')) (login (sessions P) (session c'))"
    using post by (auto simp: signs_in_def)
  ultimately show "request_inv P req A L (snd (signin_submit P req c))"
    using c s by (auto simp: request_inv_def Let_def)
qed

lemma request_inv_handlers:
  assumes "scs_contract (sessions P)" and "n = SigninPost \<longrightarrow> find_route req = Some SigninPost"
  shows "keeps (request_inv P req A L) (handler_of P n req)"
proof -
  have light: "(\<And>U L. keeps (same P U L) (handler_of P n req)) \<Longrightarrow> ?thesis"
    by (rule same_request_inv[OF _ inv_handler_of])
  have confirm: "keeps (request_inv P req A L) (domain (in_tx (pg_pool (lower_of P))
      (\<lambda>tx. reset_password_tx (sha_of P) (argon P) (build_sql P) tx t p)))" for t p
    by (intro request_inv_domain keeps_accounts_reset inv_domain(11))
  have plain: "keeps (same P U L) (static_file P req)" "keeps (same P U L) (ui_assets P req)"
    "keeps (same P U L) (health req)" "keeps (same P U L) (ready req)" for U L
    unfolding static_file_def ui_assets_def health_def ready_def by (intro keeps_intros)+
  note same = same_handlers[OF assms(1)] plain
  show ?thesis
  proof (cases n)
    case SigninPost
    with assms request_inv_signin show ?thesis by simp
  next
    case SignoutPost
    show ?thesis unfolding SignoutPost handler_of.simps signout_def
      by (intro keeps_intros assms(1))
  next
    case ConfirmPost
    show ?thesis unfolding ConfirmPost handler_of.simps password_reset_confirm_def Let_def
      by (intro keeps_bindE keeps_attempt keeps_sum keeps_if keeps_fail request_inv_light confirm assms(1))
  next
    case HomeGet
    have "keeps (\<lambda>c. store_inv (lower_of P) (world_of c)) (home P req)"
      unfolding home_def by (intro keeps_intros world_blob inv_domain)
    then show ?thesis unfolding HomeGet handler_of.simps require_user_def
      by (intro keeps_intros same_request_inv[of P "home P req"] same assms(1))
  qed (rule light, simp add: same)+
qed

text \<open>Through the middleware, from the outside in.\<close>

lemma request_inv_router:
  assumes "scs_contract (sessions P)"
  shows "keeps (request_inv P req A L) (router P req)"
proof -
  have "keeps (request_inv P req A L) (dispatch P req)"
    unfolding dispatch_def unmatched_def Let_def
    by (auto intro!: keeps_intros request_inv_handlers assms split: option.split)
  then have "keeps (request_inv P req A L) (load_user P (dispatch P) req)"
    unfolding load_user_def
    by (intro keeps_intros request_inv_domain inv_domain keeps_accounts_users keeps_users_domain assms)
      (simp_all add: login_def scs_laws[OF assms])
  then have "keeps (request_inv P req A L) (same_origin_post P (load_user P (dispatch P)) req)"
    unfolding same_origin_post_def by (intro keeps_intros)
  moreover have "keeps (request_inv P req A L) (domain rand_read)"
    by (intro request_inv_domain inv_domain keeps_accounts_users keeps_users_domain)
  ultimately show ?thesis
    unfolding router_def secure_headers_def Let_def
    by (intro keeps_intros keeps_request_id keeps_body_limit keeps_tracing keeps_request_logger assms)
      (simp_all add: request_inv_def)
qed

lemma serve_request_inv:
  assumes "scs_contract (sessions P)" and "store_inv (lower_of P) (world_of c)"
  shows "request_inv P req (accounts (world_of c)) (login (sessions P) (session c)) (serve P req c)"
proof -
  let ?I = "request_inv P req (accounts (world_of c)) (login (sessions P) (session c))"
  have "?I c" using assms(2) by (simp add: request_inv_def)
  then show ?thesis
    using keepsD[OF request_inv_router[OF assms(1)], of req] keepsD[OF request_inv_light(6)[OF assms(1)], of req]
    by (fastforce simp: serve_def split: prod.splits sum.splits)
qed

end
