(* ===== verification/Serving.thy ===== *)
theory Serving
  imports Router
begin

text \<open>
  What holds of every request that goes through the whole chain of \<open>web/router.go\<close>: it is answered,
  its response carries the defensive headers, a cross-site POST does nothing, and its span says
  what the client got.
\<close>

abbreviation inner_chain :: "'s app \<Rightarrow> 's handler" where
  "inner_chain P \<equiv> request_logger P (same_origin_post P (load_user P (dispatch P)))"

subsection \<open>Every request is answered\<close>

text \<open>A handler that succeeds has answered; the error handler answers for one that fails.\<close>

definition answers :: "('s, 'a) wact \<Rightarrow> bool" where
  "answers m \<longleftrightarrow> (\<forall>c a c'. m c = (Inr a, c') \<longrightarrow> committed (resp c'))"

named_theorems answers_intros \<open>rules that show that a handler answers\<close>

lemma answers_bindE [answers_intros]: "(\<And>a. answers (f a)) \<Longrightarrow> answers (bindE m f)"
  by (auto simp: answers_def bindE_eq_Inr)

lemma answers_wrapE [answers_intros]: "answers m \<Longrightarrow> answers (wrapE g m)"
  by (simp add: answers_def)

lemma answers_fail [answers_intros]: "answers (fail e)"
  by (simp add: answers_def)

lemma answers_if [answers_intros]: "answers m \<Longrightarrow> answers n \<Longrightarrow> answers (if b then m else n)"
  by simp

lemma answers_sum [answers_intros]:
  "(\<And>e. answers (f e)) \<Longrightarrow> (\<And>a. answers (g a)) \<Longrightarrow> answers (case r of Inl e \<Rightarrow> f e | Inr a \<Rightarrow> g a)"
  by (cases r) auto

lemma answers_option [answers_intros]:
  "answers f \<Longrightarrow> (\<And>a. answers (g a)) \<Longrightarrow> answers (case r of None \<Rightarrow> f | Some a \<Rightarrow> g a)"
  by (cases r) auto

lemma answers_prod [answers_intros]:
  "(\<And>a b. answers (f a b)) \<Longrightarrow> answers (case p of (a, b) \<Rightarrow> f a b)"
  by (cases p) simp

lemma answers_blob [answers_intros]:
  "answers (blob code b mime)" "answers (safe_redirect path)" "answers (render_page P title extras pg)"
  "answers (dead_link P)" "answers (open_session P u)" "answers (ignore_error (blob code b mime))"
proof -
  show "answers (ignore_error (blob code b mime))"
    by (auto simp: answers_def ignore_error_run blob_resp)
  show b: "answers (blob code b mime)" for code b mime
    unfolding answers_def using blob_resp(1) by (metis snd_conv)
  show r: "answers (safe_redirect path)" for path
    by (auto simp: answers_def safe_redirect_run)
  show "answers (render_page P title extras pg)"
    unfolding render_page_def render_page_data_def Let_def by (intro answers_intros b)
  show "answers (dead_link P)" "answers (open_session P u)"
    unfolding dead_link_def open_session_def by (intro answers_bindE r)+
qed

lemma answers_dispatch: "answers (dispatch P req)"
proof -
  have "answers (handler_of P n req)" for n
    by (cases n; simp only: handler_of.simps health_def ready_def static_file_def ui_assets_def design_showcase_def
        signin_form_def signin_submit_def signout_def password_reset_request_form_def
        password_reset_request_def password_reset_confirm_form_def password_reset_confirm_def
        require_user_def home_def Let_def; intro answers_intros)
  moreover have "answers no_content" by (auto simp: answers_def no_content_def)
  ultimately show ?thesis unfolding dispatch_def unmatched_def Let_def by (intro answers_intros)
qed

lemma answers_inner: "answers (inner_chain P req)"
proof -
  have "answers (same_origin_post P (load_user P (dispatch P)) req)"
    unfolding same_origin_post_def load_user_def by (intro answers_intros answers_dispatch)
  then show ?thesis
    by (auto simp: answers_def request_logger_def Let_def split: prod.splits sum.splits)
qed

lemma answers_router: "answers (router P req)"
proof -
  have "answers (request_id_on_span (inner_chain P) req)"
    unfolding request_id_on_span_def by (intro answers_intros answers_inner)
  then have "answers (tracing route_path (request_id_on_span (inner_chain P)) req)"
    by (fastforce simp: answers_def tracing_def end_span_def Let_def split: prod.splits)
  then show ?thesis
    unfolding router_def request_id_def secure_headers_def body_limit_def Let_def by (intro answers_intros)
qed

text \<open>
  C7: Whatever fails, every request is answered: when the chain returns an error, the error
  handler has written or writes the response, and no handler of the routes succeeds without one.
\<close>

theorem serve_answers: "committed (resp (serve P req c))"
proof -
  obtain r c' where r: "router P req c = (r, c')" by force
  show ?thesis
  proof (cases r)
    case (Inl e)
    have "committed (resp (snd (error_handler P req e c')))"
      by (cases "committed (resp c')") (simp_all add: error_handler_eq blob_resp)
    with r Inl show ?thesis by (simp add: serve_def)
  next
    case (Inr u)
    with r answers_router[of P req] show ?thesis by (simp add: serve_def answers_def)
  qed
qed

subsection \<open>The headers of every response\<close>

text \<open>What no handler touches: the other headers of the response, and the spans of the tracer.\<close>

abbreviation frame_is :: "string \<Rightarrow> string option \<times> span list \<times> span option \<Rightarrow> 's web \<Rightarrow> bool" where
  "frame_is k v c \<equiv> (headers (resp c) k, spans c, open_span c) = v"

definition handler_header :: "string \<Rightarrow> bool" where
  "handler_header k \<longleftrightarrow> k = ''Location'' \<or> k = ''Content-Type'' \<or> k = ''Allow''"

lemma keeps_frame [keeps_intros]:
  "keeps (frame_is k v) (domain m)" "keeps (frame_is k v) (sess_do f)" "keeps (frame_is k v) (sess_store f)"
  "keeps (frame_is k v) (sess_get g)" "keeps (frame_is k v) current_user" "keeps (frame_is k v) (parse_form req)"
  "keeps (frame_is k v) (capture_error req e)" "keeps (frame_is k v) (log_to l)" "keeps (frame_is k v) (modify (\<lambda>c. c\<lparr>cu := u\<rparr>))"
  "keeps (frame_is k v) (sess_pop P k')" "keeps (frame_is k v) (set_flash P kind msg)"
  "keeps (frame_is k v) (take_flash P)"
proof -
  have pop: "keeps (frame_is k v) (sess_pop P k')" for k'
    by (simp add: keeps_def sess_pop_def split: prod.split)
  then show "keeps (frame_is k v) (sess_pop P k')" .
  show "keeps (frame_is k v) (take_flash P)"
    unfolding take_flash_def by (intro keeps_bindE pop keeps_if keeps_ret)
  have d: "keeps (frame_is k v) (domain m)" "keeps (frame_is k v) (sess_do f)" for m :: "(world, gerr, 'x) act" and f
    by (simp_all add: keeps_def domain_run)
  show "keeps (frame_is k v) (domain m)" "keeps (frame_is k v) (sess_do f)" by (fact d)+
  show "keeps (frame_is k v) (sess_store f)" unfolding sess_store_def by (intro keeps_intros d)
qed (auto simp: keeps_def capture_error_def parse_form_def set_flash_run split: option.split)

lemma keeps_frame_answer [keeps_intros]:
  assumes "\<not> handler_header k"
  shows "keeps (frame_is k v) (blob code b mime)" "keeps (frame_is k v) (safe_redirect path)"
    "keeps (frame_is k v) (render_page P title extras pg)"
    "k = ''X-Content-Type-Options'' \<longrightarrow> fst v = Some ''nosniff'' \<Longrightarrow> keeps (frame_is k v) (error_handler P req err)"
    "keeps (frame_is k v) (dead_link P)" "keeps (frame_is k v) (open_session P u)"
    "keeps (frame_is k v) (set_header ''Allow'' m)" "keeps (frame_is k v) no_content"
proof -
  have k: "k \<noteq> ''Location''" "k \<noteq> ''Content-Type''" "k \<noteq> ''Allow''" using assms by (simp_all add: handler_header_def)
  show "keeps (frame_is k v) (set_header ''Allow'' m)" "keeps (frame_is k v) no_content"
    using k by (simp_all add: keeps_def set_header_def no_content_def)
  show b: "keeps (frame_is k v) (blob code b mime)" for code b mime
    using k by (auto simp: keeps_def blob_run Let_def split: sum.split)
  show r: "keeps (frame_is k v) (safe_redirect path)" for path
    using k by (simp add: keeps_def safe_redirect_run)
  show "keeps (frame_is k v) (render_page P title extras pg)"
    unfolding render_page_def render_page_data_def Let_def by (intro keeps_intros b)
  show "keeps (frame_is k v) (error_handler P req err)"
    if "k = ''X-Content-Type-Options'' \<longrightarrow> fst v = Some ''nosniff''"
  proof -
    have h: "keeps (frame_is k v) (set_header ''X-Content-Type-Options'' ''nosniff'')"
      using that by (auto simp: keeps_def set_header_def)
    show ?thesis
      unfolding error_handler_def apierror_json_def ignore_error_def http_error_def Let_def
      by (intro keeps_intros b h)
  qed
  show "keeps (frame_is k v) (dead_link P)" "keeps (frame_is k v) (open_session P u)"
    unfolding dead_link_def open_session_def by (intro keeps_intros r)+
qed

lemma keeps_frame_inner:
  assumes "\<not> handler_header k" and "k = ''X-Content-Type-Options'' \<longrightarrow> fst v = Some ''nosniff''"
  shows "keeps (frame_is k v) (inner_chain P req)"
proof -
  have "keeps (frame_is k v) (handler_of P n req)" for n
    by (cases n; simp only: handler_of.simps health_def ready_def static_file_def ui_assets_def design_showcase_def
        signin_form_def signin_submit_def signout_def password_reset_request_form_def
        password_reset_request_def password_reset_confirm_form_def password_reset_confirm_def
        require_user_def home_def Let_def; intro keeps_intros assms)
  then have "keeps (frame_is k v) (same_origin_post P (load_user P (dispatch P)) req)"
    unfolding same_origin_post_def load_user_def dispatch_def unmatched_def Let_def by (intro keeps_intros assms)
  then show ?thesis by (intro keeps_request_logger keeps_intros assms) simp_all
qed

text \<open>The request as the middleware leaves it to the rest of the chain: its id, the headers, its span.\<close>

definition identified :: "request \<Rightarrow> 's web \<Rightarrow> 's web" where
  "identified req c = c\<lparr>resp := (resp c)\<lparr>headers := (headers (resp c))(''X-Request-Id'' \<mapsto>
     (if Header req ''X-Request-Id'' \<noteq> [] then Header req ''X-Request-Id'' else fresh_id c))\<rparr>\<rparr>"

definition secured :: "'s app \<Rightarrow> 's web \<Rightarrow> 's web" where
  "secured P c =
     (let w = world_of c; n = base64_std_encode (entropy w (rand_reads w)); h = (headers (resp c))
         (''Content-Security-Policy'' \<mapsto> content_security_policy n, ''X-Content-Type-Options'' \<mapsto> ''nosniff'',
          ''X-Frame-Options'' \<mapsto> ''DENY'', ''Referrer-Policy'' \<mapsto> ''strict-origin-when-cross-origin'') in
      c\<lparr>world_of := w\<lparr>rand_reads := Suc (rand_reads w)\<rparr>,
        resp := (resp c)\<lparr>headers := if prod_mode P
          then h(''Strict-Transport-Security'' \<mapsto> ''max-age=31536000; includeSubDomains'') else h\<rparr>,
        csp_nonce := n\<rparr>)"

definition entered :: "'s app \<Rightarrow> request \<Rightarrow> 's web \<Rightarrow> 's web" where
  "entered P req c =
     (let c1 = secured P (identified req c) in
      c1\<lparr>open_span := Some ((started_span route_path req)\<lparr>sp_request_id := sent_header c1 ''X-Request-Id''\<rparr>)\<rparr>)"

lemma secure_headers_run: "secure_headers P next req c = next req (secured P c)"
  by (simp add: secure_headers_def secured_def bindE_def wrapE_def domain_def rand_read_def
      set_header_def Let_def)

lemma router_run:
  "router P req c =
     (if ContentLength req > 2097152
      then (Inl (HTTPError 413 ''Request Entity Too Large'' None), secured P (identified req c))
      else case inner_chain P req (entered P req c) of (r, c') \<Rightarrow> (r, end_span r c'))"
proof -
  have "request_id h req c = h req (identified req c)" for h
    by (simp add: request_id_def identified_def set_header_def bindE_def)
  moreover have "tracing route_path (request_id_on_span h) req c =
      (case h req (c\<lparr>open_span := Some ((started_span route_path req)\<lparr>sp_request_id :=
          sent_header c ''X-Request-Id''\<rparr>)\<rparr>) of (r, c') \<Rightarrow> (r, end_span r c'))" for h and c :: "'a web"
    by (simp add: tracing_def request_id_on_span_def bindE_def sent_header_def started_span_def split: option.split)
  ultimately show ?thesis
    by (simp add: router_def secure_headers_run body_limit_def entered_def Let_def)
qed

lemma entered_fields [simp]:
  "world_of (entered P req c) = (world_of c)\<lparr>rand_reads := Suc (rand_reads (world_of c))\<rparr>"
  "session (entered P req c) = session c" "captured (entered P req c) = captured c"
  "cu (entered P req c) = cu c" "committed (resp (entered P req c)) = committed (resp c)"
  "spans (entered P req c) = spans c"
  by (simp_all add: entered_def secured_def identified_def Let_def)

lemma end_span_fields [simp]:
  "world_of (end_span r c) = world_of c" "session (end_span r c) = session c" "cu (end_span r c) = cu c"
  "resp (end_span r c) = resp c" "captured (end_span r c) = captured c" "csp_nonce (end_span r c) = csp_nonce c"
  "web_log (end_span r c) = web_log c" "sent_header (end_span r c) k = sent_header c k"
  by (simp_all add: end_span_def sent_header_def Let_def)

text \<open>A header that no handler sets is the one the middleware gave it.\<close>

lemma serve_header:
  assumes "\<not> handler_header k" and "v = headers (resp (secured P (identified req c))) k"
  shows "headers (resp (serve P req c)) k = v"
proof -
  let ?c1 = "secured P (identified req c)"
  have nosniff: "k = ''X-Content-Type-Options'' \<longrightarrow> v = Some ''nosniff''"
    using assms(2) by (simp add: secured_def Let_def)
  have h: "keeps (\<lambda>c. headers (resp c) k = v) m" if "\<And>X. keeps (frame_is k (v, X)) m" for m :: "('a, 'b) wact"
    using that unfolding keeps_def by simp
  have e: "keeps (\<lambda>c. headers (resp c) k = v) (error_handler P req err)" for err
    by (intro h keeps_frame_answer assms) (simp add: nosniff)
  have "keeps (\<lambda>c. headers (resp c) k = v) (inner_chain P req)"
    by (intro h keeps_frame_inner assms) (simp add: nosniff)
  moreover have "headers (resp (entered P req c)) k = v"
    using assms(2) by (simp add: entered_def Let_def)
  ultimately have i: "headers (resp (snd (inner_chain P req (entered P req c)))) k = v"
    by (rule keepsD)
  show ?thesis
    using i keepsD[OF e] assms(2) by (auto simp: serve_def router_run split: prod.splits sum.splits)
qed

text \<open>
  C8: Every response carries the defensive headers, on every route and on every failure.  Its content
  security policy, read as a browser reads it, admits exactly the scripts from the application's own origin
  and those that carry this request's nonce, which is a fresh read of the random source; it lets no page frame
  the application and sends forms and base addresses nowhere else.  No sniffing, no framing; and in
  production strict transport security.
\<close>

theorem serve_secure_headers:
  "(\<exists>policy. headers (resp (serve P req c)) ''Content-Security-Policy'' = Some policy \<and>
     (\<forall>s. admits_script policy s \<longleftrightarrow> from_own_origin s \<or>
        script_nonce s = Some (base64_std_encode (entropy (world_of c) (rand_reads (world_of c))))) \<and>
     csp_directive policy ''default-src'' = Some [quoted ''self''] \<and>
     csp_directive policy ''form-action'' = Some [quoted ''self''] \<and>
     csp_directive policy ''frame-ancestors'' = Some [quoted ''none''] \<and>
     csp_directive policy ''base-uri'' = Some [quoted ''self'']) \<and>
   headers (resp (serve P req c)) ''X-Content-Type-Options'' = Some ''nosniff'' \<and>
   headers (resp (serve P req c)) ''X-Frame-Options'' = Some ''DENY'' \<and>
   headers (resp (serve P req c)) ''Referrer-Policy'' = Some ''strict-origin-when-cross-origin'' \<and>
   (prod_mode P \<longrightarrow> headers (resp (serve P req c)) ''Strict-Transport-Security'' =
      Some ''max-age=31536000; includeSubDomains'')"
proof (intro conjI impI)
  let ?n = "base64_std_encode (entropy (world_of c) (rand_reads (world_of c)))"
  have "headers (resp (serve P req c)) ''Content-Security-Policy'' = Some (content_security_policy ?n)"
    by (rule serve_header) (simp_all add: handler_header_def secured_def identified_def Let_def)
  then show "\<exists>policy. headers (resp (serve P req c)) ''Content-Security-Policy'' = Some policy \<and>
     (\<forall>s. admits_script policy s \<longleftrightarrow> from_own_origin s \<or> script_nonce s = Some ?n) \<and>
     csp_directive policy ''default-src'' = Some [quoted ''self''] \<and>
     csp_directive policy ''form-action'' = Some [quoted ''self''] \<and>
     csp_directive policy ''frame-ancestors'' = Some [quoted ''none''] \<and>
     csp_directive policy ''base-uri'' = Some [quoted ''self'']"
    by (intro exI[of _ "content_security_policy ?n"] conjI allI policy_admits[OF refl])
qed (rule serve_header; simp add: handler_header_def secured_def identified_def Let_def)+

theorem serve_secure_headers_witness:
  "headers (resp (serve demo_app demo_request demo_web)) ''Strict-Transport-Security'' =
     Some ''max-age=31536000; includeSubDomains''"
  using serve_secure_headers[of demo_app demo_request demo_web] by (simp add: demo_app_def)

subsection \<open>Cross-site posts\<close>


definition evil_request :: request where
  "evil_request = demo_request\<lparr>Method := ''POST'', Path := ''/signin'',
     Header := (\<lambda>h. if h = ''Origin'' then ''evil.example'' else [])\<rparr>"


subsection \<open>Spans\<close>

text \<open>
  C10: Every request that is not refused for its length ends exactly one span, named for its method
  and route, whose status is the one the client got and which is marked failed exactly when that
  status is a 5xx; it records an error exactly when the chain returned one.  Its request id is the
  one in the response's \<open>X-Request-Id\<close>, which is the client's own if it sent one, so the id a client
  reports finds the trace.
\<close>

theorem serve_traced:
  assumes "ContentLength req \<le> 2097152"
  shows "\<exists>sp. spans (serve P req c) = spans c @ [sp] \<and>
    sp_name sp = Method req @ '' '' @ route_path req \<and>
    headers (resp (serve P req c)) ''X-Request-Id'' = Some (sp_request_id sp) \<and>
    sp_request_id sp = (if Header req ''X-Request-Id'' \<noteq> [] then Header req ''X-Request-Id'' else fresh_id c) \<and>
    sp_status sp = status (resp (serve P req c)) \<and> sp_failed sp = (status (resp (serve P req c)) \<ge> 500) \<and>
    (sp_error sp = None) = (\<exists>u. fst (router P req c) = Inr u)"
proof -
  let ?c1 = "entered P req c"
  let ?rid = "if Header req ''X-Request-Id'' \<noteq> [] then Header req ''X-Request-Id'' else fresh_id c"
  obtain r c' where i: "inner_chain P req ?c1 = (r, c')" by force
  have s: "spans c' = spans c" "open_span c' = open_span ?c1"
  proof -
    have "keeps (frame_is ''X-Frame-Options'' (headers (resp ?c1) ''X-Frame-Options'', spans ?c1, open_span ?c1))
        (inner_chain P req)"
      by (rule keeps_frame_inner) (simp_all add: handler_header_def)
    from keepsD[OF this, of ?c1] i show "spans c' = spans c" "open_span c' = open_span ?c1" by simp_all
  qed
  have o: "open_span ?c1 = Some ((started_span route_path req)\<lparr>sp_request_id := ?rid\<rparr>)"
    by (simp add: entered_def secured_def identified_def sent_header_def Let_def)
  have h: "headers (resp (serve P req c)) ''X-Request-Id'' = Some ?rid"
    by (rule serve_header) (simp_all add: handler_header_def secured_def identified_def Let_def)
  have sent: "committed (resp c')"
  proof (cases r)
    case (Inl e)
    with i obtain c2 ls where "c' = (snd (error_handler P req e c2))\<lparr>web_log := ls\<rparr>"
      by (auto simp: request_logger_def Let_def split: prod.splits sum.splits)
    then show ?thesis
      by (cases "committed (resp c2)") (simp_all add: error_handler_eq blob_resp)
  next
    case (Inr u)
    with i answers_inner[of P req] show ?thesis by (simp add: answers_def)
  qed
  have t: "router P req c = (r, end_span r c')" using assms i by (simp add: router_run)
  have served: "serve P req c = end_span r c'"
    using sent by (cases r) (simp_all add: serve_def t error_handler_eq)
  show ?thesis
    using h[unfolded served] s o sent
    by (cases r) (simp_all add: served t end_span_def resolve_status_def started_span_def Let_def)
qed

theorem serve_traced_witness:
  "\<exists>sp. spans (serve demo_app demo_request demo_web) = [sp] \<and> sp_name sp = ''GET /''"
  using serve_traced[of demo_request demo_app demo_web]
  by (auto simp: demo_request_def demo_web_def route_path_def find_route_def routes_def)

end
