(* ===== verification/Views.thy ===== *)
theory Views
  imports Pages
begin

text \<open>
  The pages of \<open>views\<close> (\<open>*_templ.go\<close>) as the markup they write.  A component writes to the buffer it
  is given, or fails; a template first looks whether its context is cancelled.  What is not in the
  repository is the record \<open>ui\<close>: templ's escaping and the components of the package \<open>gesso/ui\<close>, with
  the properties the pages give them.  \<open>templ_contract\<close> is what templ's documentation promises of
  escaping: escaped text has no markup.  Nothing is assumed of gesso's components.
\<close>

subsection \<open>Components from outside\<close>

record button_props =
  bt_type :: string
  bt_variant :: string
  bt_size :: string
  bt_text :: string
  bt_attrs :: "(string \<times> string) list"

datatype tone = ToneDanger | ToneSuccess

record alert_props =
  al_tone :: tone
  al_role :: string
  al_text :: string
  al_class :: string

record input_props =
  in_id :: string
  in_name :: string
  in_type :: string
  in_value :: string
  in_required :: bool
  in_autofocus :: bool

record field_props =
  fd_id :: string
  fd_label :: string
  fd_control :: input_props

record ui =
  escape_string :: "string \<Rightarrow> string"
  attribute_value :: "string \<Rightarrow> gerr + string"
  templ_error :: "string \<Rightarrow> nat \<Rightarrow> nat \<Rightarrow> gerr \<Rightarrow> gerr"
  asset_path :: "string \<Rightarrow> string"
  nonce :: string
  import_map :: "gerr + string"
  Button :: "button_props \<Rightarrow> gerr + string"
  Alert :: "alert_props \<Rightarrow> gerr + string"
  Field :: "field_props \<Rightarrow> gerr + string"
  Gallery :: "gerr + string"

type_synonym component = "(string, gerr, unit) act"

subsection \<open>Writing\<close>

definition write_html :: "string \<Rightarrow> component" where
  "write_html s = modify (\<lambda>out. out @ s)"

definition write_text :: "ui \<Rightarrow> string \<Rightarrow> component" where
  "write_text U s = write_html (escape_string U s)"

definition write_attr :: "ui \<Rightarrow> string \<Rightarrow> nat \<Rightarrow> nat \<Rightarrow> string \<Rightarrow> component" where
  "write_attr U file_name line col s =
     (case attribute_value U s of
        Inl e \<Rightarrow> fail (templ_error U file_name line col e)
      | Inr v \<Rightarrow> write_html v)"

definition embed :: "gerr + string \<Rightarrow> component" where
  "embed r = (case r of Inl e \<Rightarrow> fail e | Inr s \<Rightarrow> write_html s)"

definition template :: "gerr option \<Rightarrow> component \<Rightarrow> component" where
  "template cancelled m = (case cancelled of Some e \<Rightarrow> fail e | None \<Rightarrow> m)"

fun in_order :: "component list \<Rightarrow> component" where
  "in_order [] = ret ()"
| "in_order (m # ms) = bindE m (\<lambda>_. in_order ms)"

text \<open>An attribute value in double quotes, and the literal markup of the templates.\<close>

definition quoted :: "string \<Rightarrow> string" where
  "quoted s = [CHR 0x22] @ s @ [CHR 0x22]"

subsection \<open>The layout\<close>

definition flash_tone :: "string \<Rightarrow> tone" where
  "flash_tone kind = (if kind = ''error'' then ToneDanger else ToneSuccess)"

definition signout_button :: button_props where
  "signout_button = \<lparr>bt_type = ''submit'', bt_variant = ''ghost'', bt_size = ''sm'', bt_text = ''Sign out'', bt_attrs = []\<rparr>"

definition flash_alert :: "flash \<Rightarrow> alert_props" where
  "flash_alert f = \<lparr>al_tone = flash_tone (f_kind f), al_role = ''status'', al_text = f_message f, al_class = ''app-flash''\<rparr>"

definition page_head :: string where
  "page_head = ''<!doctype html><html lang='' @ quoted ''en'' @ ''><head><meta charset='' @ quoted ''utf-8'' @
     ''><meta name='' @ quoted ''viewport'' @ '' content='' @ quoted ''width=device-width, initial-scale=1'' @ ''><title>''"

definition layout :: "ui \<Rightarrow> gerr option \<Rightarrow> layout_data \<Rightarrow> component \<Rightarrow> component" where
  "layout U cancelled data inner = template cancelled (in_order
     [write_html page_head,
      write_text U (ld_title data),
      write_html (''</title><link rel='' @ quoted ''stylesheet'' @ '' href='' @ [CHR 0x22]),
      write_text U (asset_path U ''ui.css''),
      write_html ([CHR 0x22] @ ''><link rel='' @ quoted ''stylesheet'' @ '' href='' @ quoted ''/public/app.css'' @
        ''><script nonce='' @ [CHR 0x22]),
      write_attr U ''views/layout.templ'' 14 38 (nonce U),
      write_html ([CHR 0x22] @ ''>document.documentElement.classList.add('' @ quoted ''js'' @ '');</script>''),
      embed (import_map U),
      write_html (''<script type='' @ quoted ''module'' @ '' src='' @ [CHR 0x22]),
      write_attr U ''views/layout.templ'' 16 52 (asset_path U ''ui.js''),
      write_html ([CHR 0x22] @ ''></script>''),
      (case ld_head_extras data of None \<Rightarrow> ret () | Some extras \<Rightarrow> write_html extras),
      write_html ''</head><body>'',
      (case ld_user data of None \<Rightarrow> ret () | Some u \<Rightarrow> in_order
         [write_html (''<header class='' @ quoted ''app-header'' @ ''><span>''),
          write_text U (u_email u),
          write_html (''</span><form method='' @ quoted ''post'' @ '' action='' @ quoted ''/signout'' @ ''>''),
          embed (Button U signout_button),
          write_html ''</form></header>'']),
      (case ld_flash data of None \<Rightarrow> ret () | Some f \<Rightarrow> embed (Alert U (flash_alert f))),
      write_html ''<main>'',
      inner,
      write_html ''</main></body></html>''])"

subsection \<open>The pages\<close>

definition submit :: "string \<Rightarrow> button_props" where
  "submit txt = \<lparr>bt_type = ''submit'', bt_variant = ''primary'', bt_size = [], bt_text = txt, bt_attrs = []\<rparr>"

definition email_field :: "string \<Rightarrow> field_props" where
  "email_field email = \<lparr>fd_id = ''email'', fd_label = ''Email'',
     fd_control = \<lparr>in_id = ''email'', in_name = ''email'', in_type = ''email'', in_value = email,
       in_required = True, in_autofocus = True\<rparr>\<rparr>"

definition password_field :: "string \<Rightarrow> bool \<Rightarrow> field_props" where
  "password_field label autofocus = \<lparr>fd_id = ''password'', fd_label = label,
     fd_control = \<lparr>in_id = ''password'', in_name = ''password'', in_type = ''password'', in_value = [],
       in_required = True, in_autofocus = autofocus\<rparr>\<rparr>"

definition form_open :: "string \<Rightarrow> string" where
  "form_open action = ''<form method='' @ quoted ''post'' @ '' action='' @ quoted action @ '' class='' @ quoted ''stack gap-md'' @ ''>''"

definition signin_page :: "ui \<Rightarrow> gerr option \<Rightarrow> string \<Rightarrow> component" where
  "signin_page U cancelled email = template cancelled (in_order
     [write_html (''<h1>Sign in</h1>'' @ form_open ''/signin''),
      embed (Field U (email_field email)),
      embed (Field U (password_field ''Password'' False)),
      write_html ''<div>'',
      embed (Button U (submit ''Sign in'')),
      write_html (''</div></form><p><a href='' @ quoted ''/password-reset'' @ ''>Forgot password?</a></p>'')])"

definition reset_request_page :: "ui \<Rightarrow> gerr option \<Rightarrow> string \<Rightarrow> component" where
  "reset_request_page U cancelled email = template cancelled (in_order
     [write_html (''<h1>Reset password</h1><p>Enter your email and we'' @ [CHR 0x27] @ ''ll send you a reset link.</p>'' @
        form_open ''/password-reset''),
      embed (Field U (email_field email)),
      write_html ''<div>'',
      embed (Button U (submit ''Send reset link'')),
      write_html (''</div></form><p><a href='' @ quoted ''/signin'' @ ''>Back to sign in</a></p>'')])"

definition reset_confirm_page :: "ui \<Rightarrow> gerr option \<Rightarrow> string \<Rightarrow> component" where
  "reset_confirm_page U cancelled token = template cancelled (in_order
     [write_html (''<h1>Choose a new password</h1>'' @ form_open ''/password-reset/confirm'' @
        ''<input type='' @ quoted ''hidden'' @ '' name='' @ quoted ''token'' @ '' value='' @ [CHR 0x22]),
      write_attr U ''views/password_reset.templ'' 27 49 token,
      write_html ([CHR 0x22] @ ''>''),
      embed (Field U (password_field ''New password'' True)),
      write_html ''<div>'',
      embed (Button U (submit ''Set password'')),
      write_html ''</div></form>''])"

definition home_page :: "ui \<Rightarrow> gerr option \<Rightarrow> string \<Rightarrow> component" where
  "home_page U cancelled name = template cancelled (in_order
     [write_html ''<h1>Welcome, '', write_text U name, write_html ''</h1><p>You are signed in.</p>''])"

definition copy_button :: button_props where
  "copy_button = \<lparr>bt_type = ''button'', bt_variant = ''secondary'', bt_size = ''sm'', bt_text = ''Copy error'',
     bt_attrs = [(''onclick'', ''navigator.clipboard.writeText(document.getElementById('' @ [CHR 0x27] @ ''error-detail'' @
       [CHR 0x27] @ '').textContent)'')]\<rparr>"

definition error_page :: "ui \<Rightarrow> gerr option \<Rightarrow> nat \<Rightarrow> string \<Rightarrow> string \<Rightarrow> component" where
  "error_page U cancelled code txt detail = template cancelled (in_order
     [write_html ''<h1>'', write_text U (itoa (int code)), write_html '' '', write_text U txt,
      write_html ''</h1><p>Something went wrong. If it keeps happening, let us know.</p>'',
      (if detail \<noteq> []
       then in_order
         [write_html (''<pre id='' @ quoted ''error-detail'' @ '' class='' @ quoted ''error-detail'' @ ''>''),
          write_text U detail,
          write_html ''</pre>'',
          embed (Button U copy_button)]
       else ret ())])"

fun page_component :: "ui \<Rightarrow> gerr option \<Rightarrow> page \<Rightarrow> component" where
  "page_component U cancelled (SigninPage email) = signin_page U cancelled email"
| "page_component U cancelled (PasswordResetRequestPage email) = reset_request_page U cancelled email"
| "page_component U cancelled (PasswordResetConfirmPage token) = reset_confirm_page U cancelled token"
| "page_component U cancelled (HomePage name) = home_page U cancelled name"
| "page_component U cancelled GalleryPage = embed (Gallery U)"
| "page_component U cancelled (ErrorPage code txt detail) = error_page U cancelled code txt detail"

text \<open>\<open>views.Layout(data, body).Render(ctx, &buf)\<close>: what \<open>RenderPageData\<close> sends, or the error.\<close>

definition render_views :: "ui \<Rightarrow> gerr option \<Rightarrow> layout_data \<Rightarrow> page \<Rightarrow> gerr + string" where
  "render_views U cancelled data pg =
     (case layout U cancelled data (page_component U cancelled pg) [] of
        (Inl e, _) \<Rightarrow> Inl e
      | (Inr _, out) \<Rightarrow> Inr out)"

subsection \<open>Data does not become markup\<close>

definition markup :: "string \<Rightarrow> string" where
  "markup s = filter (\<lambda>c. c \<in> {CHR ''<'', CHR ''>'', CHR 0x22, CHR 0x27}) s"

lemma markup_append [simp]: "markup (s @ t) = markup s @ markup t"
  by (simp add: markup_def)

definition alike :: "gerr + string \<Rightarrow> gerr + string \<Rightarrow> bool" where
  "alike r r' \<longleftrightarrow> map_sum (\<lambda>_. ()) markup r = map_sum (\<lambda>_. ()) markup r'"

definition templ_contract :: "ui \<Rightarrow> bool" where
  "templ_contract U \<longleftrightarrow>
     (\<forall>s. markup (escape_string U s) = []) \<and> (\<forall>s. \<exists>v. attribute_value U s = Inr v \<and> markup v = [])"

text \<open>
  The texts of a page that gesso's \<open>Alert\<close> and \<open>Field\<close> are given: the flash message and the email put
  back into the form.  What these two components do with them is not in the repository;
  \<open>outside_components\<close> leaves what they write out of the page.
\<close>

fun put_back :: "page \<Rightarrow> string" where
  "put_back (SigninPage email) = email"
| "put_back (PasswordResetRequestPage email) = email"
| "put_back _ = []"

definition component_texts :: "layout_data \<Rightarrow> page \<Rightarrow> string option \<times> string" where
  "component_texts d p = (map_option f_message (ld_flash d), put_back p)"

definition outside_components :: "ui \<Rightarrow> ui" where
  "outside_components U = U\<lparr>Alert := (\<lambda>_. Inr []), Field := (\<lambda>_. Inr [])\<rparr>"

text \<open>Two components write the same markup onto buffers with the same markup, and both fail or both succeed.\<close>

definition writes_alike :: "component \<Rightarrow> component \<Rightarrow> bool" where
  "writes_alike m m' \<longleftrightarrow> (\<forall>out out'. markup out = markup out' \<longrightarrow>
     isl (fst (m out)) = isl (fst (m' out')) \<and> markup (snd (m out)) = markup (snd (m' out')))"

named_theorems alike_intros \<open>components that write the same markup\<close>

lemma alike_write [alike_intros]:
  "markup s = markup t \<Longrightarrow> writes_alike (write_html s) (write_html t)"
  by (simp add: writes_alike_def write_html_def)

lemma alike_ret [alike_intros]: "writes_alike (ret ()) (ret ())"
  by (simp add: writes_alike_def)

lemma alike_fail: "writes_alike (fail e) (fail e')"
  by (simp add: writes_alike_def)

lemma alike_write_same [alike_intros]: "writes_alike (write_html s) (write_html s)"
  by (simp add: alike_write)

lemma alike_bindE:
  assumes "writes_alike m m'" and "\<And>u. writes_alike (k u) (k' u)"
  shows "writes_alike (bindE m k) (bindE m' k')"
  unfolding writes_alike_def
proof (intro allI impI)
  fix b b' assume bb: "markup b = markup b'"
  obtain r b1 r' b1' where run: "m b = (r, b1)" "m' b' = (r', b1')" by force
  with assms(1) bb have "isl r = isl r'" "markup b1 = markup b1'" unfolding writes_alike_def by fastforce+
  with assms(2) run show "isl (fst (bindE m k b)) = isl (fst (bindE m' k' b')) \<and>
      markup (snd (bindE m k b)) = markup (snd (bindE m' k' b'))"
    by (cases r; cases r') (auto simp: bindE_def writes_alike_def)
qed

lemma alike_in_order [alike_intros]:
  "list_all2 writes_alike ms ms' \<Longrightarrow> writes_alike (in_order ms) (in_order ms')"
  by (induction rule: list_all2_induct) (simp add: writes_alike_def, simp add: alike_bindE)

lemma alike_template [alike_intros]:
  "writes_alike m m' \<Longrightarrow> writes_alike (template cancelled m) (template cancelled m')"
  by (simp add: template_def alike_fail split: option.split)

lemma alike_embed: "alike r r' \<Longrightarrow> writes_alike (embed r) (embed r')"
  by (cases r; cases r') (simp_all add: alike_def embed_def alike_fail alike_write)

lemma alike_embed_same [alike_intros]: "writes_alike (embed r) (embed r)"
  by (simp add: alike_embed alike_def)

lemma alike_text [alike_intros]: "templ_contract U \<Longrightarrow> writes_alike (write_text U s) (write_text U t)"
  unfolding write_text_def by (rule alike_write) (simp add: templ_contract_def)

lemma alike_attr [alike_intros]: "templ_contract U \<Longrightarrow> writes_alike (write_attr U f l c s) (write_attr U f l c t)"
proof -
  assume "templ_contract U"
  then obtain v w where "attribute_value U s = Inr v" "markup v = []" "attribute_value U t = Inr w" "markup w = []"
    unfolding templ_contract_def by metis
  then show ?thesis by (simp add: write_attr_def alike_write)
qed

fun same_page :: "page \<Rightarrow> page \<Rightarrow> bool" where
  "same_page (SigninPage _) (SigninPage _) = True"
| "same_page (PasswordResetRequestPage _) (PasswordResetRequestPage _) = True"
| "same_page (PasswordResetConfirmPage _) (PasswordResetConfirmPage _) = True"
| "same_page (HomePage _) (HomePage _) = True"
| "same_page GalleryPage GalleryPage = True"
| "same_page (ErrorPage _ _ d) (ErrorPage _ _ d') = (d = [] \<longleftrightarrow> d' = [])"
| "same_page _ _ = False"

definition same_layout :: "layout_data \<Rightarrow> layout_data \<Rightarrow> bool" where
  "same_layout d d' \<longleftrightarrow> (ld_user d = None \<longleftrightarrow> ld_user d' = None) \<and> ld_head_extras d = ld_head_extras d' \<and>
     map_option (\<lambda>f. flash_tone (f_kind f)) (ld_flash d) = map_option (\<lambda>f. flash_tone (f_kind f)) (ld_flash d')"

lemma alike_pages:
  assumes "templ_contract U" and "same_page p q"
    and "alike (Field U (email_field (put_back p))) (Field U (email_field (put_back q)))"
  shows "writes_alike (page_component U cancelled p) (page_component U cancelled q)"
proof -
  note rules = alike_template alike_in_order list.rel_intros alike_intros assms(1)
  have "writes_alike (reset_confirm_page U cancelled s) (reset_confirm_page U cancelled t)"
    "writes_alike (home_page U cancelled s) (home_page U cancelled t)" for s t
    unfolding reset_confirm_page_def home_page_def by (intro rules)+
  moreover have "writes_alike (signin_page U cancelled s) (signin_page U cancelled t)"
    "writes_alike (reset_request_page U cancelled s) (reset_request_page U cancelled t)"
    if "alike (Field U (email_field s)) (Field U (email_field t))" for s t
    unfolding signin_page_def reset_request_page_def by (intro alike_embed[OF that] rules)+
  moreover have "writes_alike (error_page U cancelled c s d) (error_page U cancelled c' s' d')"
    if "d = [] \<longleftrightarrow> d' = []" for c s d c' s' d'
  proof -
    have detail: "writes_alike (if d \<noteq> [] then a d else ret ()) (if d' \<noteq> [] then a d' else ret ())"
      if "\<And>d d'. writes_alike (a d) (a d')" for a
      using that \<open>d = [] \<longleftrightarrow> d' = []\<close> by (simp add: alike_ret)
    show ?thesis unfolding error_page_def by (intro rules detail)
  qed
  ultimately show ?thesis
    using assms(2,3) by (cases "(p, q)" rule: same_page.cases) (simp_all add: alike_embed_same)
qed

lemma alike_layout:
  assumes "templ_contract U" and "same_layout d d'" and "writes_alike m m'"
    and "\<And>f g. ld_flash d = Some f \<Longrightarrow> ld_flash d' = Some g \<Longrightarrow> alike (Alert U (flash_alert f)) (Alert U (flash_alert g))"
  shows "writes_alike (layout U cancelled d m) (layout U cancelled d' m')"
proof -
  have extras: "writes_alike (case ld_head_extras d of None \<Rightarrow> ret () | Some extras \<Rightarrow> write_html extras)
      (case ld_head_extras d' of None \<Rightarrow> ret () | Some extras \<Rightarrow> write_html extras)"
    using assms(2) by (auto simp: same_layout_def intro!: alike_intros split: option.split)
  have user: "writes_alike (case ld_user d of None \<Rightarrow> ret () | Some u \<Rightarrow> in_order (a u))
      (case ld_user d' of None \<Rightarrow> ret () | Some u \<Rightarrow> in_order (a u))"
    if "\<And>u u'. writes_alike (in_order (a u)) (in_order (a u'))" for a
    using assms(2) that by (auto simp: same_layout_def intro!: alike_intros split: option.split)
  have flash: "writes_alike (case ld_flash d of None \<Rightarrow> ret () | Some f \<Rightarrow> embed (Alert U (flash_alert f)))
      (case ld_flash d' of None \<Rightarrow> ret () | Some f \<Rightarrow> embed (Alert U (flash_alert f)))"
    using assms(2,4) by (auto simp: same_layout_def intro!: alike_ret alike_embed split: option.split)
  show ?thesis
    unfolding layout_def
    by (intro alike_template alike_in_order list.rel_intros extras user flash alike_intros assms(1,3))
qed

lemma render_alike:
  assumes "templ_contract U" and "same_layout d d'" and "same_page p p'"
    and "alike (Field U (email_field (put_back p))) (Field U (email_field (put_back p')))"
    and "\<And>f g. ld_flash d = Some f \<Longrightarrow> ld_flash d' = Some g \<Longrightarrow> alike (Alert U (flash_alert f)) (Alert U (flash_alert g))"
  shows "alike (render_views U cancelled d p) (render_views U cancelled d' p')"
proof -
  obtain r b r' b' where run: "layout U cancelled d (page_component U cancelled p) [] = (r, b)"
    "layout U cancelled d' (page_component U cancelled p') [] = (r', b')" by force
  from alike_layout[OF assms(1,2) alike_pages[OF assms(1,3,4)] assms(5), of cancelled cancelled] run
  have "isl r = isl r'" "markup b = markup b'" unfolding writes_alike_def by (metis fst_conv snd_conv)+
  with run show ?thesis by (cases r; cases r') (simp_all add: render_views_def alike_def)
qed


subsection \<open>Whole pages only\<close>

definition grows :: "component \<Rightarrow> bool" where
  "grows m \<longleftrightarrow> (\<forall>b. \<exists>s. snd (m b) = b @ s)"

lemma grows_basic:
  "grows (write_html s)" "grows (write_text U s)" "grows (write_attr U f l c s)" "grows (embed r)" "grows (ret ())"
  by (auto simp: grows_def write_html_def write_text_def write_attr_def embed_def split: sum.split)

lemma grows_in_order: "list_all grows ms \<Longrightarrow> grows (in_order ms)"
proof (induction ms)
  case (Cons m ms)
  show ?case unfolding grows_def
  proof
    fix b
    obtain r b1 where m: "m b = (r, b1)" by force
    with Cons.prems obtain s where "b1 = b @ s" by (metis grows_def list.pred_inject(2) snd_conv)
    moreover obtain t where "snd (in_order ms b1) = b1 @ t" using Cons unfolding grows_def by auto
    ultimately show "\<exists>s. snd (in_order (m # ms) b) = b @ s" using m by (cases r) (auto simp: bindE_def)
  qed
qed (simp add: grows_def)

lemma grows_template: "grows m \<Longrightarrow> grows (template cancelled m)"
  by (simp add: template_def grows_def split: option.split)

lemmas grows_intros = grows_template grows_in_order grows_basic

lemma grows_page: "grows (page_component U cancelled p)"
  by (cases p) (auto simp: signin_page_def reset_request_page_def reset_confirm_page_def home_page_def error_page_def
      simp del: in_order.simps intro!: grows_intros)

lemma in_order_append: "in_order (ms @ ns) = bindE (in_order ms) (\<lambda>_. in_order ns)"
proof (induction ms)
  case Nil
  show ?case by (rule ext) (simp add: bindE_def)
qed (simp add: bindE_assoc)

lemma in_order_whole:
  assumes "in_order (write_html h # ms @ [m, write_html t]) [] = (Inr (), b)" and "list_all grows ms" and "grows m"
  shows "\<exists>mid. b = h @ mid @ t"
proof -
  have "grows (in_order (ms @ [m]))" using assms(2,3) by (intro grows_in_order) simp
  then obtain mid where mid: "snd (in_order (ms @ [m]) h) = h @ mid" unfolding grows_def by blast
  have "ms @ [m, write_html t] = (ms @ [m]) @ [write_html t]" by simp
  moreover have "in_order (ms @ [m, write_html t]) h = (Inr (), b)"
    using assms(1) by (simp add: write_html_def)
  ultimately have "in_order ((ms @ [m]) @ [write_html t]) h = (Inr (), b)" by simp
  then obtain b1 where "in_order (ms @ [m]) h = (Inr (), b1)" "b = b1 @ t"
    unfolding in_order_append[of "ms @ [m]"] by (auto simp: bindE_eq_Inr write_html_def)
  with mid show ?thesis by auto
qed

lemma layout_whole:
  "\<exists>mid. list_all grows mid \<and>
     layout U None d m = in_order (write_html page_head # mid @ [m, write_html ''</main></body></html>''])"
proof -
  have parts: "grows (case ld_head_extras d of None \<Rightarrow> ret () | Some extras \<Rightarrow> write_html extras)"
    "grows (case ld_flash d of None \<Rightarrow> ret () | Some f \<Rightarrow> embed (Alert U (flash_alert f)))"
    by (simp_all add: grows_basic split: option.split)
  have user: "grows (case ld_user d of None \<Rightarrow> ret () | Some u \<Rightarrow> in_order (a u))" if "\<And>u. grows (in_order (a u))" for a
    using that by (simp add: grows_basic split: option.split)
  show ?thesis
    unfolding layout_def template_def option.case
    by (rule exI[of _ "[_, _, _, _, _, _, _, _, _, _, _, _, _, _, _]"], rule conjI[rotated], unfold append.simps, rule refl)
      (intro list.pred_inject(1) list.pred_inject(2)[THEN iffD2] conjI TrueI parts grows_basic user grows_in_order)
qed

text \<open>
  A page that is sent is whole: rendering succeeds only if the context is not cancelled and every
  component has been written, and then the bytes run from the doctype to the end of the document.
\<close>

theorem page_complete:
  assumes "render_views U cancelled d p = Inr html"
  shows "cancelled = None \<and> (\<exists>mid. html = page_head @ mid @ ''</main></body></html>'')"
proof -
  from assms have run: "layout U cancelled d (page_component U cancelled p) [] = (Inr (), html)"
    by (auto simp: render_views_def split: prod.splits sum.splits)
  then have c: "cancelled = None" by (auto simp: layout_def template_def split: option.splits)
  with run obtain mid where "list_all grows mid"
    "in_order (write_html page_head # mid @ [page_component U None p, write_html ''</main></body></html>'']) [] = (Inr (), html)"
    using layout_whole[of U d "page_component U None p"] by auto
  with c show ?thesis using in_order_whole[OF _ _ grows_page] by blast
qed

subsection \<open>A concrete library of components\<close>

text \<open>Escaping as \<open>html.EscapeString\<close> does it.\<close>

definition escape_char :: "char \<Rightarrow> string" where
  "escape_char c =
     (if c = CHR ''&'' then ''&amp;'' else if c = CHR 0x27 then ''&#39;'' else if c = CHR ''<'' then ''&lt;''
      else if c = CHR ''>'' then ''&gt;'' else if c = CHR 0x22 then ''&#34;'' else [c])"

definition html_escape :: "string \<Rightarrow> string" where
  "html_escape s = concat (map escape_char s)"

lemma html_escape_markup: "markup (html_escape s) = []"
  by (induction s) (auto simp: html_escape_def markup_def escape_char_def)

definition wrapped :: "string \<Rightarrow> string \<Rightarrow> string \<Rightarrow> string" where
  "wrapped a s b = a @ html_escape s @ b"

lemma markup_wrapped: "markup (wrapped a s b) = markup a @ markup b"
  by (simp add: wrapped_def html_escape_markup)

definition demo_ui :: ui where
  "demo_ui = \<lparr>escape_string = html_escape, attribute_value = (\<lambda>s. Inr (html_escape s)), templ_error = (\<lambda>f l c e. e),
     asset_path = (\<lambda>n. ''/ui/'' @ n), nonce = ''n0'', import_map = Inr ''<script></script>'',
     Button = (\<lambda>b. Inr (wrapped ''<button>'' (bt_text b) ''</button>'')),
     Alert = (\<lambda>a. Inr (wrapped ''<div>'' (al_text a) ''</div>'')),
     Field = (\<lambda>f. Inr (wrapped ''<label>'' (fd_label f) ''<input value=''  @
       wrapped [CHR 0x22] (in_value (fd_control f)) ([CHR 0x22] @ ''></label>''))), Gallery = Inr ''<p></p>''\<rparr>"

lemma demo_templ_contract: "templ_contract demo_ui"
  by (simp add: templ_contract_def demo_ui_def html_escape_markup)

definition demo_layout :: layout_data where
  "demo_layout = \<lparr>ld_title = ''app'', ld_user = None, ld_flash = None, ld_head_extras = None\<rparr>"


lemma demo_home: "\<exists>html. render_views demo_ui None demo_layout (HomePage ''Ada'') = Inr html"
  by (simp add: render_views_def layout_def template_def home_page_def write_html_def write_text_def write_attr_def
      embed_def demo_ui_def demo_layout_def bindE_def)

theorem page_complete_witness:
  "\<exists>html mid. render_views demo_ui None demo_layout (HomePage ''Ada'') = Inr html \<and>
     html = page_head @ mid @ ''</main></body></html>''"
  using demo_home page_complete by blast

end
