(* ===== verification/Served_Pages.thy ===== *)
theory Served_Pages
  imports Serving Views
begin

text \<open>
  The pages of \<open>views\<close> as the chain of \<open>web/router.go\<close> sends them: the nonce \<open>SecureHeaders\<close> puts into
  the response's policy is the one the layout puts on its script, and what is sent is a whole page.
\<close>

subsection \<open>The script of the layout\<close>

definition script_open :: string where
  "script_open = [CHR 0x22] @ ''><link rel='' @ quoted ''stylesheet'' @ '' href='' @ quoted ''/public/app.css'' @
     ''><script nonce='' @ [CHR 0x22]"

definition script_rest :: string where
  "script_rest = [CHR 0x22] @ ''>document.documentElement.classList.add('' @ quoted ''js'' @ '');</script>''"

lemma grows_run: "grows m \<Longrightarrow> m b = (r, b') \<Longrightarrow> \<exists>s. b' = b @ s"
  unfolding grows_def by (metis snd_conv)

lemma in_order_part:
  assumes "in_order (xs @ ms @ ys) b0 = (Inr (), b)" and "list_all grows ys"
  shows "\<exists>b1 b2 s. in_order ms b1 = (Inr (), b2) \<and> b = b2 @ s"
proof -
  from assms(1) obtain b1 where "in_order (ms @ ys) b1 = (Inr (), b)"
    by (auto simp: in_order_append[of xs] bindE_eq_Inr)
  then obtain b2 where "in_order ms b1 = (Inr (), b2)" "in_order ys b2 = (Inr (), b)"
    by (auto simp: in_order_append[of ms] bindE_eq_Inr)
  with grows_run[OF grows_in_order[OF assms(2)]] show ?thesis by blast
qed

lemma layout_script:
  "\<exists>xs ys. layout U None d m = in_order (xs @ [write_html script_open,
      write_attr U ''views/layout.templ'' 14 38 (nonce U), write_html script_rest] @ ys @
      [m, write_html ''</main></body></html>'']) \<and> list_all grows ys"
proof -
  have parts: "grows (case ld_head_extras d of None \<Rightarrow> ret () | Some extras \<Rightarrow> write_html extras)"
    "grows (case ld_flash d of None \<Rightarrow> ret () | Some f \<Rightarrow> embed (Alert U (flash_alert f)))"
    by (simp_all add: grows_basic split: option.split)
  have user: "grows (case ld_user d of None \<Rightarrow> ret () | Some u \<Rightarrow> in_order (a u))" if "\<And>u. grows (in_order (a u))" for a
    using that by (simp add: grows_basic split: option.split)
  show ?thesis
    unfolding layout_def template_def option.case script_open_def script_rest_def
    by (rule exI[of _ "[_, _, _, _]"], rule exI[of _ "[_, _, _, _, _, _, _, _, _]"], rule conjI, unfold append.simps, rule refl)
      (intro list.pred_inject(1) list.pred_inject(2)[THEN iffD2] conjI TrueI parts grows_basic user grows_in_order)
qed

lemma page_script:
  assumes "render_views U cancelled d p = Inr html"
  shows "\<exists>pre v post. attribute_value U (nonce U) = Inr v \<and> html = pre @ script_open @ v @ script_rest @ post"
proof -
  from assms have run: "layout U cancelled d (page_component U cancelled p) [] = (Inr (), html)"
    by (auto simp: render_views_def split: prod.splits sum.splits)
  then have c: "cancelled = None" by (auto simp: layout_def template_def split: option.splits)
  obtain xs ys where l: "layout U None d (page_component U None p) = in_order (xs @ [write_html script_open,
      write_attr U ''views/layout.templ'' 14 38 (nonce U), write_html script_rest] @ ys @
      [page_component U None p, write_html ''</main></body></html>''])" and g: "list_all grows ys"
    using layout_script by blast
  have "list_all grows (ys @ [page_component U None p, write_html ''</main></body></html>''])"
    using g by (simp add: grows_page grows_basic)
  from in_order_part[OF _ this, of xs] run[unfolded c l] obtain b1 b2 s where
    ms: "in_order [write_html script_open, write_attr U ''views/layout.templ'' 14 38 (nonce U), write_html script_rest] b1 = (Inr (), b2)"
    and html: "html = b2 @ s" by blast
  from ms obtain v where "attribute_value U (nonce U) = Inr v" "b2 = b1 @ script_open @ v @ script_rest"
    by (auto simp: bindE_def write_html_def write_attr_def split: sum.splits)
  with html show ?thesis by auto
qed

subsection \<open>What a handler can put into the body\<close>

text \<open>
  A body is a fixed text, an asset, the name of a status, or a page that was rendered with the nonce
  \<open>n\<close>; outside of development an error page has no details.
\<close>

fun no_detail :: "page \<Rightarrow> bool" where
  "no_detail (ErrorPage code txt detail) = (detail = [])"
| "no_detail _ = True"

fun sent_body :: "'s app \<Rightarrow> string \<Rightarrow> body \<Rightarrow> bool" where
  "sent_body P n (Html html) = (\<exists>d p. render P n d p = Inr html \<and> (dev_mode P \<or> no_detail p))"
| "sent_body P n (Text txt) = (txt \<in> {''A-OK!'', ''ready''} \<or> (\<exists>code. txt = status_text P code @ [CHR 0x0A]))"
| "sent_body P n (JsonError msg code) = (msg = status_text P code)"
| "sent_body P n _ = True"

definition page_inv :: "'s app \<Rightarrow> string \<Rightarrow> 's web \<Rightarrow> bool" where
  "page_inv P n c \<longleftrightarrow> csp_nonce c = n \<and> sent_body P n (body (resp c))"

lemma page_inv_light [keeps_intros]:
  "keeps (page_inv P n) (domain m)" "keeps (page_inv P n) (sess_do f)" "keeps (page_inv P n) (sess_store f)"
  "keeps (page_inv P n) (sess_get g)" "keeps (page_inv P n) current_user" "keeps (page_inv P n) (parse_form req)"
  "keeps (page_inv P n) (capture_error req e)" "keeps (page_inv P n) (log_to l)"
  "keeps (page_inv P n) (modify (\<lambda>c. c\<lparr>cu := u\<rparr>))" "keeps (page_inv P n) (safe_redirect path)"
  "keeps (page_inv P n) (sess_pop Q k)" "keeps (page_inv P n) (set_flash Q kind msg)"
  "keeps (page_inv P n) (take_flash Q)" "keeps (page_inv P n) (set_header k' v)" "keeps (page_inv P n) no_content"
proof -
  have pop: "keeps (page_inv P n) (sess_pop Q k)" for k
    by (simp add: keeps_def sess_pop_def page_inv_def split: prod.split)
  then show "keeps (page_inv P n) (sess_pop Q k)" .
  show "keeps (page_inv P n) (take_flash Q)"
    unfolding take_flash_def by (intro keeps_bindE pop keeps_if keeps_ret)
  have d: "keeps (page_inv P n) (domain m)" "keeps (page_inv P n) (sess_do f)"
    for m :: "(world, gerr, 'x) act" and f
    by (simp_all add: keeps_def domain_run page_inv_def)
  show "keeps (page_inv P n) (domain m)" "keeps (page_inv P n) (sess_do f)" by (fact d)+
  show "keeps (page_inv P n) (sess_store f)" unfolding sess_store_def by (intro keeps_intros d)
qed (auto simp: keeps_def page_inv_def capture_error_def parse_form_def set_flash_run safe_redirect_run
    set_header_def no_content_def split: option.split)

lemma page_inv_blob [keeps_intros]:
  "sent_body P n b \<Longrightarrow> keeps (page_inv P n) (blob code b mime)"
  by (auto simp: keeps_def page_inv_def blob_run Let_def split: sum.split)

lemma page_inv_nonce:
  assumes "keeps (page_inv P n) (f n)"
  shows "keeps (page_inv P n) (bindE (gets csp_nonce) f)"
  using assms by (simp add: keeps_def bindE_def page_inv_def)

lemma page_inv_html:
  assumes "dev_mode P \<or> no_detail pg"
    and "\<And>e. keeps (page_inv P n) (m e)" and "\<And>x. keeps (page_inv P n) x \<Longrightarrow> keeps (page_inv P n) (g x)"
  shows "keeps (page_inv P n) (case render P n d pg of Inl e \<Rightarrow> m e | Inr bytes \<Rightarrow> g (blob code (Html bytes) mime))"
proof (cases "render P n d pg")
  case (Inr bytes)
  with assms(1) have "sent_body P n (Html bytes)" by auto
  with Inr show ?thesis by (simp add: assms(3) page_inv_blob)
qed (simp add: assms(2))

lemma page_inv_page [keeps_intros]:
  assumes "dev_mode P \<or> no_detail pg"
  shows "keeps (page_inv P n) (render_page P title extras pg)"
  unfolding render_page_def render_page_data_def Let_def
  by (intro keeps_bindE page_inv_light page_inv_nonce page_inv_html[OF assms] keeps_fail keeps_wrapE)

lemma page_inv_pages [keeps_intros]:
  "keeps (page_inv P n) (error_handler P req err)"
  "keeps (page_inv P n) (dead_link P)" "keeps (page_inv P n) (open_session P u)"
proof -
  have json: "keeps (page_inv P n) (apierror_json code (status_text P code))"
    "keeps (page_inv P n) (http_error (status_text P code) code)" for code
    unfolding apierror_json_def http_error_def by (intro keeps_intros; auto)+
  show "keeps (page_inv P n) (error_handler P req err)"
    unfolding error_handler_def Let_def
    by (intro page_inv_nonce keeps_bindE keeps_if keeps_gets keeps_ret page_inv_light json
        same_ignore_error page_inv_html) simp
  show "keeps (page_inv P n) (dead_link P)" "keeps (page_inv P n) (open_session P u)"
    unfolding dead_link_def open_session_def by (intro keeps_intros; simp)+
qed

lemma page_inv_inner: "keeps (page_inv P n) (inner_chain P req)"
proof -
  have "keeps (page_inv P n) (handler_of P r req)" for r
    by (cases r; simp only: handler_of.simps health_def ready_def static_file_def ui_assets_def design_showcase_def
        signin_form_def signin_submit_def signout_def password_reset_request_form_def
        password_reset_request_def password_reset_confirm_form_def password_reset_confirm_def
        require_user_def home_def Let_def; intro keeps_intros; simp)
  then have "keeps (page_inv P n) (same_origin_post P (load_user P (dispatch P)) req)"
    unfolding same_origin_post_def load_user_def dispatch_def unmatched_def Let_def by (intro keeps_intros)
  then show ?thesis by (intro keeps_request_logger page_inv_pages) (simp_all add: page_inv_def)
qed

lemma serve_page_inv:
  assumes "body (resp c) = NoBody"
  shows "page_inv P (base64_std_encode (entropy (world_of c) (rand_reads (world_of c)))) (serve P req c)"
proof -
  let ?n = "base64_std_encode (entropy (world_of c) (rand_reads (world_of c)))"
  have s: "page_inv P ?n (entered P req c)" "page_inv P ?n (secured P (identified req c))"
    using assms by (simp_all add: page_inv_def entered_def secured_def identified_def Let_def)
  obtain r c' where i: "inner_chain P req (entered P req c) = (r, c')" by force
  have "page_inv P ?n c'" using keeps_run[OF page_inv_inner i s(1)] .
  then have "page_inv P ?n (end_span r c')" by (simp add: page_inv_def)
  then show ?thesis
    using s(2) keepsD[OF page_inv_pages(1)] i by (auto simp: serve_def router_run split: sum.split)
qed

subsection \<open>The pages that are sent\<close>

text \<open>
  \<open>render P\<close> is the rendering of \<open>views\<close>: \<open>U n\<close> is what gesso/ui and templ are in a context with the
  nonce \<open>n\<close>, and a context can be cancelled at any time.
\<close>

definition renders_views :: "'s app \<Rightarrow> (string \<Rightarrow> ui) \<Rightarrow> bool" where
  "renders_views P U \<longleftrightarrow> (\<forall>n. nonce (U n) = n) \<and>
     (\<forall>n d p. \<exists>cancelled. render P n d p = render_views (U n) cancelled d p)"

text \<open>
  C35: Every page a browser gets, from a handler or from the error handler, is a whole document, and
  its inline script carries the nonce that the response's own content security policy admits: the
  fresh random read of this very request.  Of the scripts that are not the application's own files the
  policy, read as a browser reads it, admits those with this nonce and no other.
\<close>

theorem served_page_nonce:
  assumes "renders_views P U" and "body (resp c) = NoBody" and "body (resp (serve P req c)) = Html html"
    and "n = base64_std_encode (entropy (world_of c) (rand_reads (world_of c)))"
  shows "headers (resp (serve P req c)) ''Content-Security-Policy'' = Some (content_security_policy n) \<and>
    (\<forall>s. admits_script (content_security_policy n) s \<longleftrightarrow> from_own_origin s \<or> script_nonce s = Some n) \<and>
    (\<exists>pre v post. attribute_value (U n) n = Inr v \<and> html = pre @ script_open @ v @ script_rest @ post) \<and>
    (\<exists>mid. html = page_head @ mid @ ''</main></body></html>'')"
proof -
  have "page_inv P n (serve P req c)" using serve_page_inv[OF assms(2)] assms(4) by simp
  with assms(1,3) obtain cancelled d p where "render_views (U n) cancelled d p = Inr html" "nonce (U n) = n"
    unfolding page_inv_def renders_views_def by (metis sent_body.simps(1))
  moreover have "headers (resp (serve P req c)) ''Content-Security-Policy'' = Some (content_security_policy n)"
    by (rule serve_header) (simp_all add: assms(4) handler_header_def secured_def identified_def Let_def)
  ultimately show ?thesis
    using page_script[of "U n" cancelled d p html] page_complete[of "U n" cancelled d p html]
      policy_admits(1)[OF assms(4)] by simp
qed

definition views_app :: "mem_session app" where
  "views_app = demo_app\<lparr>render := (\<lambda>n. render_views (demo_ui\<lparr>nonce := n\<rparr>) None)\<rparr>"

lemma views_app_renders: "renders_views views_app (\<lambda>n. demo_ui\<lparr>nonce := n\<rparr>)"
  by (auto simp: renders_views_def views_app_def)

definition missing_page :: request where
  "missing_page = demo_request\<lparr>Path := ''/nowhere'', Header := (\<lambda>h. if h = ''Accept'' then ''text/html'' else [])\<rparr>"

text \<open>No component of the demonstration \<open>ui\<close> fails, so every page is rendered.\<close>

definition succeeds :: "component \<Rightarrow> bool" where
  "succeeds m \<longleftrightarrow> (\<forall>b. \<exists>out. m b = (Inr (), out))"

lemma succeeds_basic:
  "succeeds (write_html s)" "succeeds (write_text U s)" "succeeds (ret ())" "succeeds (embed (Inr s))"
  by (simp_all add: succeeds_def write_html_def write_text_def embed_def)

lemma succeeds_demo:
  "succeeds (write_attr (demo_ui\<lparr>nonce := n\<rparr>) f l c s)" "succeeds (embed (import_map (demo_ui\<lparr>nonce := n\<rparr>)))"
  "succeeds (embed (Button (demo_ui\<lparr>nonce := n\<rparr>) b))" "succeeds (embed (Alert (demo_ui\<lparr>nonce := n\<rparr>) a))"
  "succeeds (embed (Field (demo_ui\<lparr>nonce := n\<rparr>) fd))" "succeeds (embed (Gallery (demo_ui\<lparr>nonce := n\<rparr>)))"
  by (simp_all add: write_attr_def demo_ui_def succeeds_basic)

lemma succeeds_in_order: "list_all succeeds ms \<Longrightarrow> succeeds (in_order ms)"
proof (induction ms)
  case (Cons m ms)
  then have m: "succeeds m" and ms: "succeeds (in_order ms)" by simp_all
  show ?case unfolding succeeds_def
  proof
    fix b
    from m obtain b1 where "m b = (Inr (), b1)" unfolding succeeds_def by blast
    moreover from ms obtain out where "in_order ms b1 = (Inr (), out)" unfolding succeeds_def by blast
    ultimately show "\<exists>out. in_order (m # ms) b = (Inr (), out)" by (simp add: bindE_def)
  qed
qed (simp add: succeeds_basic)

lemma succeeds_template: "succeeds m \<Longrightarrow> succeeds (template None m)"
  by (simp add: template_def)

lemma succeeds_case: "(\<And>x. succeeds (f x)) \<Longrightarrow> succeeds (case y of None \<Rightarrow> ret () | Some x \<Rightarrow> f x)"
  by (simp add: succeeds_basic split: option.split)

lemma succeeds_if: "succeeds m \<Longrightarrow> succeeds (if P then m else ret ())"
  by (simp add: succeeds_basic)

lemma list_all_intros: "list_all P []" "P x \<Longrightarrow> list_all P xs \<Longrightarrow> list_all P (x # xs)"
  by simp_all

lemmas succeeds_intros = succeeds_template succeeds_in_order succeeds_case succeeds_if list_all_intros
  succeeds_basic succeeds_demo

lemma demo_page_succeeds: "succeeds (page_component (demo_ui\<lparr>nonce := n\<rparr>) None p)"
  by (cases p; simp only: page_component.simps signin_page_def reset_request_page_def reset_confirm_page_def
      home_page_def error_page_def; intro succeeds_intros)

lemma demo_layout_succeeds: "succeeds m \<Longrightarrow> succeeds (layout (demo_ui\<lparr>nonce := n\<rparr>) None d m)"
  unfolding layout_def by (intro succeeds_intros)

lemma demo_renders: "\<exists>html. render_views (demo_ui\<lparr>nonce := n\<rparr>) None d p = Inr html"
proof -
  obtain out where "layout (demo_ui\<lparr>nonce := n\<rparr>) None d (page_component (demo_ui\<lparr>nonce := n\<rparr>) None p) [] = (Inr (), out)"
    using demo_layout_succeeds[OF demo_page_succeeds] unfolding succeeds_def by blast
  then show ?thesis by (simp add: render_views_def)
qed

lemma render_views_app: "render views_app n = render_views (demo_ui\<lparr>nonce := n\<rparr>) None"
  by (simp add: views_app_def)

theorem served_page_nonce_witness:
  "\<exists>html pre v post. body (resp (serve views_app missing_page demo_web)) = Html html \<and>
     html = pre @ script_open @ v @ script_rest @ post"
proof -
  let ?c = "entered views_app missing_page demo_web" and ?e = "HTTPError 404 ''Not Found'' None"
  have m: "same_origin_request views_app missing_page" "wants_html missing_page" "ContentLength missing_page = 0"
    "dispatch views_app missing_page = fail ?e"
    by (simp_all add: missing_page_def demo_request_def same_origin_request_def wants_html_def contains_def
        dispatch_def unmatched_def allowed_methods_def find_route_def routes_def)
  have u: "GetInt64 (sessions views_app) (session ?c) ''user_id'' = 0"
    by (simp add: views_app_def demo_app_def demo_web_def mem_scs_def)
  obtain html where h: "error_page_of views_app ?c ?e = Inr html"
    unfolding error_page_of_def Let_def render_views_app using demo_renders by metis
  have w: "reliable (world_of ?c)" by (simp add: demo_web_def demo_world_def fresh_world_def reliable_def)
  have "fst (inner_chain views_app missing_page ?c) = Inl ?e"
    using m u by (simp add: request_logger_def same_origin_post_def load_user_def bindE_def Let_def)
  then obtain c' where c': "inner_chain views_app missing_page ?c = (Inl ?e, c')" by (metis prod.collapse)
  have "body (resp (snd (inner_chain views_app missing_page ?c))) = Html html"
    "committed (resp (snd (inner_chain views_app missing_page ?c)))"
    using m u w h by (simp_all add: request_logger_def same_origin_post_def load_user_def bindE_def Let_def
        error_handler_eq error_body_def blob_reliable demo_web_def empty_response_def)
  then have "body (resp c') = Html html" "committed (resp c')" by (simp_all add: c')
  then have "body (resp (serve views_app missing_page demo_web)) = Html html"
    using m by (simp add: serve_def router_run c' error_handler_eq)
  with served_page_nonce[OF views_app_renders _ this refl] show ?thesis
    by (auto simp: demo_web_def empty_response_def)
qed

end
