(* ===== verification/Forgotten.thy ===== *)
theory Forgotten
  imports Handlers
begin

text \<open>
  Asking for a password reset (\<open>web/handlers_auth.go\<close>, \<open>PasswordResetRequest\<close>): the run of the handler
  when every call works, what it tells about an account, and how often it can be used.
\<close>

definition answered :: "'s app \<Rightarrow> string \<Rightarrow> string \<Rightarrow> string \<Rightarrow> 's web \<Rightarrow> 's web" where
  "answered P kind msg path c =
     c\<lparr>session := flashed (sessions P) kind [] msg (session c), resp := (resp c)\<lparr>committed := True, status := 303,
       headers := (headers (resp c))(''Location'' \<mapsto> path)\<rparr>\<rparr>"

definition reset_notice :: string where
  "reset_notice = ''if that email has an account, a reset link is on the way''"

text \<open>What the request does to the world, told by what it leaves the same.\<close>

definition asked_world :: "'s app \<Rightarrow> request \<Rightarrow> world \<Rightarrow> world \<Rightarrow> bool" where
  "asked_world P req w w' \<longleftrightarrow>
     (let email = trim_space (FormValue req ''email''); key = reset_key P req email in
      users (tables w') = users (tables w) \<and> password_reset_tokens (tables w') = password_reset_tokens (tables w) \<and>
      enqueued w' = enqueued w @ (case user_by_email (lower_of P) (tables w) email of
        None \<Rightarrow> [] | Some u \<Rightarrow> [PasswordResetEmailArgs (u_email u)]) \<and>
      recent_attempts w' = (recent_attempts w)(key := Suc (recent_attempts w key)) \<and>
      outbox w' = outbox w \<and> hash_ops w' = hash_ops w \<and> fate w' = fate w \<and> entropy w' = entropy w \<and>
      rand_reads w' = rand_reads w \<and> db_now w' = db_now w \<and> app_now w' = app_now w)"

lemma reset_request_run:
  assumes "store_inv (lower_of P) (world_of c)" and "reliable (world_of c)" and "FormParse req = None"
    and "recent_attempts (world_of c) (reset_key P req (trim_space (FormValue req ''email''))) < 5"
  shows "\<exists>w'. password_reset_request P req c = (Inr (), (answered P ''ok'' reset_notice ''/signin'' c)\<lparr>world_of := w'\<rparr>) \<and>
    asked_world P req (world_of c) w'"
proof -
  let ?email = "trim_space (FormValue req ''email'')" and ?w = "world_of c"
  let ?key = "reset_key P req ?email"
  let ?pruned = "after_stmt (lower_of P) (PruneAttempts throttleWindow) (tick (tick ?w))"
  let ?v = "after_stmt (lower_of P) (InsertAttempt ?key) (tick ?pruned)"
  have fail: "throttle_fail (lower_of P) ?key (tick ?w) = (Inr (), ?v)"
    using throttle_fail_run[of "tick ?w"] assms(2) by simp
  have v: "store_inv (lower_of P) ?v" "reliable ?v"
    using assms(1,2) by (simp_all add: after_stmt_inv del: run_stmt.simps)
  have same: "users (tables ?v) = users (tables ?w)" "password_reset_tokens (tables ?v) = password_reset_tokens (tables ?w)"
    by (simp_all add: Let_def)
  have attempts: "recent_attempts ?v = (recent_attempts ?w)(?key := Suc (recent_attempts ?w ?key))"
    using recent_attempts_insert[of "lower_of P" ?key "tick ?pruned"] recent_attempts_prune[of "lower_of P" "tick (tick ?w)"]
    by (simp del: run_stmt.simps)
  have found: "user_by_email (lower_of P) (tables ?v) ?email = user_by_email (lower_of P) (tables ?w) ?email"
    unfolding user_by_email_def same ..
  have lookup: "by_email (lower_of P) ?email ?v =
      (lookup_result Works (user_by_email (lower_of P) (tables ?w) ?email), tick ?v)"
    using by_email_tx_run[OF v(1), of ?email] found v(2) by (simp add: by_email_def reliable_def del: run_stmt.simps)
  let ?args = "\<lambda>u. PasswordResetEmailArgs (u_email u)"
  let ?w' = "case user_by_email (lower_of P) (tables ?w) ?email of
      None \<Rightarrow> tick ?v | Some u \<Rightarrow> (tick (tick ?v))\<lparr>enqueued := enqueued ?w @ [?args u]\<rparr>"
  have ins: "insert_standalone (?args u) (tick ?v) = (Inr (), (tick (tick ?v))\<lparr>enqueued := enqueued ?w @ [?args u]\<rparr>)" for u
    using v(2) by (simp add: insert_standalone_def external_call_reliable wrapE_def del: run_stmt.simps)
  have "password_reset_request P req c = (Inr (), (answered P ''ok'' reset_notice ''/signin'' c)\<lparr>world_of := ?w'\<rparr>)"
    using assms(2-4)
    by (cases "user_by_email (lower_of P) (tables ?w) ?email")
      (simp_all add: fail lookup ins password_reset_request_def parse_form_def Let_def bindE_def wrapE_def attempt_def domain_def
        throttle_blocked_reliable lookup_result_def not_found_def set_flash_run safe_redirect_run answered_def
        reset_notice_def del: run_stmt.simps)
  moreover have "asked_world P req ?w ?w'"
  proof -
    have rt: "recent_attempts (w\<lparr>enqueued := xs\<rparr>) = recent_attempts w" for w :: world and xs
      by (rule ext) (simp add: recent_attempts_def)
    show ?thesis
      using same attempts by (simp add: asked_world_def Let_def rt del: run_stmt.simps fun_upd_apply split: option.split)
  qed
  ultimately show ?thesis by blast
qed



end
