(* ===== verification/Site.thy ===== *)
theory Site
  imports Serving
begin

text \<open>
  The running application: the database behind it and the sessions of the browsers, with one step
  per thing that can happen - a request is served, its session is not saved, a queued job is
  worked, an operator creates an account, time passes, a session ends.  Requests and jobs are
  served one at a time.  The theorems hold of every run, however calls fail along it.
\<close>

record 's site =
  db :: world
  jar :: "nat \<Rightarrow> 's"

datatype event =
    Request nat request
  | Job job_args
  | Create create_input
  | Elapse int int
  | Expire nat

definition arrive :: "'s site \<Rightarrow> nat \<Rightarrow> string \<Rightarrow> 's web" where
  "arrive st b rid = \<lparr>world_of = db st, session = jar st b, cu = None, csp_nonce = [],
     resp = empty_response, captured = [], open_span = None, spans = [], web_log = [], fresh_id = rid\<rparr>"

inductive step :: "'s app \<Rightarrow> sender \<Rightarrow> string \<Rightarrow> 's site \<Rightarrow> event \<Rightarrow> 's site \<Rightarrow> bool"
  for P sndr base
where
  Served: "c' = serve P req (arrive st b rid) \<Longrightarrow>
     step P sndr base st (Request b req) \<lparr>db = world_of c', jar = (jar st)(b := session c')\<rparr>"
| Unsaved: "c' = serve P req (arrive st b rid) \<Longrightarrow>
     step P sndr base st (Request b req) (st\<lparr>db := world_of c'\<rparr>)"
| Worked: "args \<in> set (enqueued (db st)) \<Longrightarrow>
     work (lower_of P) (sha_of P) sndr base args (db st) = (r, w') \<Longrightarrow>
     step P sndr base st (Job args) (st\<lparr>db := w'\<rparr>)"
| Created: "create (lower_of P) (argon P) inp (db st) = (r, w') \<Longrightarrow>
     step P sndr base st (Create inp) (st\<lparr>db := w'\<rparr>)"
| Elapsed: "0 \<le> d \<Longrightarrow> step P sndr base st (Elapse d a)
     (st\<lparr>db := (db st)\<lparr>db_now := db_now (db st) + d, app_now := app_now (db st) + a\<rparr>\<rparr>)"
| Expired: "GetInt64 (sessions P) s ''user_id'' = 0 \<Longrightarrow>
     step P sndr base st (Expire b) (st\<lparr>jar := (jar st)(b := s)\<rparr>)"

inductive_cases step_requestE: "step P sndr base st (Request b req) st'"
inductive_cases step_jobE: "step P sndr base st (Job args) st'"
inductive_simps step_expire: "step P sndr base st (Expire b) st'"

inductive run :: "'s app \<Rightarrow> sender \<Rightarrow> string \<Rightarrow> 's site \<Rightarrow> event list \<Rightarrow> 's site \<Rightarrow> bool"
  for P sndr base st
where
  Start: "run P sndr base st [] st"
| Next: "run P sndr base st es st1 \<Longrightarrow> step P sndr base st1 e st2 \<Longrightarrow> run P sndr base st (es @ [e]) st2"

subsection \<open>Whoever is signed in has shown the password\<close>

definition proven :: "'s app \<Rightarrow> event list \<Rightarrow> (int \<times> string) set \<Rightarrow> int \<times> string \<Rightarrow> bool" where
  "proven P es A L \<longleftrightarrow> fst L = 0 \<or> (\<exists>b req. Request b req \<in> set es \<and> signs_in P req A L)"

definition site_inv :: "'s app \<Rightarrow> event list \<Rightarrow> 's site \<Rightarrow> bool" where
  "site_inv P es st \<longleftrightarrow> store_inv (lower_of P) (db st) \<and>
     (\<forall>b. proven P es (accounts (db st)) (login (sessions P) (jar st b)))"

lemma proven_mono:
  "proven P es A L \<Longrightarrow> set es \<subseteq> set fs \<Longrightarrow> A \<subseteq> B \<Longrightarrow> proven P fs B L"
  unfolding proven_def using signs_in_mono by (metis subsetD)

lemma arrive_fields [simp]:
  "world_of (arrive st b rid) = db st" "session (arrive st b rid) = jar st b"
  "cu (arrive st b rid) = None" "resp (arrive st b rid) = empty_response"
  by (simp_all add: arrive_def)

lemma keeps_accounts_world [keeps_intros]:
  "keeps (\<lambda>w. A \<subseteq> accounts w) (work lower sha sndr base args)"
  "keeps (\<lambda>w. A \<subseteq> accounts w) (create lower B inp)"
proof -
  have s: "keeps (\<lambda>w. A \<subseteq> accounts w) (send sndr msg)" for msg
    unfolding keeps_def using outbox_sender.post_rest[of sndr msg] by (simp add: mail_rest_def)
  have h: "keeps (\<lambda>w. A \<subseteq> accounts w) (hash_password B p)" for p
    by (auto simp: keeps_def hash_password_run split: option.split)
  show "keeps (\<lambda>w. A \<subseteq> accounts w) (work lower sha sndr base args)"
    unfolding create_password_reset_def create_password_reset_tx_def by_email_tx_def Let_def
    by (cases args) (auto simp: create_password_reset_def create_password_reset_tx_def by_email_tx_def
        Let_def intro!: keeps_intros s split: prod.split)
  show "keeps (\<lambda>w. A \<subseteq> accounts w) (create lower B inp)"
    unfolding create_def create_tx_def Let_def
    by (intro keeps_intros h) (simp add: keeps_intros)
qed

lemma inv_world_ops:
  "keeps (store_inv lower) (work lower sha sndr base args)" "keeps (store_inv lower) (create lower B inp)"
proof -
  have s: "keeps (store_inv lower) (send sndr msg)" for msg
  proof -
    have f: "store_inv lower w \<Longrightarrow> store_inv lower (deliver msg w)" for w
      by (simp add: deliver_def)
    have e: "keeps (store_inv lower) (external_call (deliver msg))"
      by (rule keeps_external_call) (simp_all add: f)
    have "keeps (store_inv lower) (log_send msg)" "keeps (store_inv lower) (ses_send sent_from msg)" for sent_from
      unfolding log_send_def ses_send_def by (intro keeps_intros e; simp add: keeps_def f)+
    then show ?thesis by (cases sndr) simp_all
  qed
  show "keeps (store_inv lower) (work lower sha sndr base args)"
    by (cases args) (auto simp: create_password_reset_def intro!: keeps_intros s split: prod.split)
  show "keeps (store_inv lower) (create lower B inp)"
    unfolding create_def create_tx_def Let_def by (intro keeps_intros) (simp add: keeps_intros)
qed

lemma site_inv_step:
  assumes "scs_contract (sessions P)" and "site_inv P es st" and "step P sndr base st e st'"
  shows "site_inv P (es @ [e]) st'"
proof -
  have inv: "store_inv (lower_of P) (db st)"
    and pr: "\<And>b. proven P es (accounts (db st)) (login (sessions P) (jar st b))"
    using assms(2) by (simp_all add: site_inv_def)
  have world: "site_inv P (es @ [e]) (st\<lparr>db := w'\<rparr>)"
    if "store_inv (lower_of P) w'" "accounts (db st) \<subseteq> accounts w'" for w'
    using that pr proven_mono[OF pr _ that(2), of "es @ [e]"] by (auto simp: site_inv_def)
  have served: "store_inv (lower_of P) (world_of c')" "accounts (db st) \<subseteq> accounts (world_of c')"
    "proven P (es @ [Request b req]) (accounts (world_of c')) (login (sessions P) (session c'))"
    if "c' = serve P req (arrive st b rid)" for c' req b rid
  proof -
    have r: "request_inv P req (accounts (db st)) (login (sessions P) (jar st b)) c'"
      using serve_request_inv[OF assms(1), of "arrive st b rid" req] inv that by simp
    then show a: "store_inv (lower_of P) (world_of c')" "accounts (db st) \<subseteq> accounts (world_of c')"
      by (simp_all add: request_inv_def)
    have old: "proven P (es @ [Request b req]) (accounts (world_of c')) (login (sessions P) (jar st b))"
      using pr[of b] _ a(2) by (rule proven_mono) auto
    have new: "proven P (es @ [Request b req]) (accounts (world_of c')) L"
      if "fst L = 0 \<or> signs_in P req (accounts (world_of c')) L" for L
      using that unfolding proven_def by (metis in_set_conv_decomp)
    let ?L' = "login (sessions P) (session c')"
    from r have "?L' = login (sessions P) (jar st b) \<or> (fst ?L' = 0 \<or> signs_in P req (accounts (world_of c')) ?L')"
      by (simp only: request_inv_def Let_def)
    then show "proven P (es @ [Request b req]) (accounts (world_of c')) ?L'"
    proof
      assume "?L' = login (sessions P) (jar st b)"
      with old show ?thesis by (simp only:)
    qed (rule new)
  qed
  show ?thesis
    using assms(3)
  proof cases
    case (Served c' req b rid)
    note s = served[OF Served(3)]
    have "proven P (es @ [e]) (accounts (world_of c')) (login (sessions P) (jar st b'))" for b'
      using pr[of b'] _ s(2) by (rule proven_mono) auto
    with s Served show ?thesis by (simp add: site_inv_def)
  next
    case (Unsaved c' req b rid)
    show ?thesis using world[OF served(1,2)[OF Unsaved(3)]] Unsaved(2) by simp
  next
    case (Worked args r w')
    have "site_inv P (es @ [e]) (st\<lparr>db := w'\<rparr>)"
      using keeps_run[OF inv_world_ops(1) Worked(4) inv] keeps_run[OF keeps_accounts_world(1) Worked(4)]
      by (intro world) simp_all
    with Worked(2) show ?thesis by simp
  next
    case (Created inp r w')
    have "site_inv P (es @ [e]) (st\<lparr>db := w'\<rparr>)"
      using keeps_run[OF inv_world_ops(2) Created(3) inv] keeps_run[OF keeps_accounts_world(2) Created(3)]
      by (intro world) simp_all
    with Created(2) show ?thesis by simp
  next
    case (Elapsed d a)
    with world[of "(db st)\<lparr>db_now := db_now (db st) + d, app_now := app_now (db st) + a\<rparr>"] inv
    show ?thesis by (simp add: store_inv_def)
  next
    case (Expired s b)
    with inv pr show ?thesis by (auto simp: site_inv_def login_def proven_def)
  qed
qed

lemma site_inv_run:
  assumes "run P sndr base st es st'" and "scs_contract (sessions P)" and "site_inv P [] st"
  shows "site_inv P es st'"
  using assms(1)
proof (induction rule: run.induct)
  case Start
  then show ?case using assms(3) by simp
next
  case (Next es st1 e st2)
  then show ?case using site_inv_step[OF assms(2)] by blast
qed

text \<open>
  C1: Nobody is ever signed in without the password.  In every run of the application from a state
  where nobody is signed in, if a browser's session is an account's, then someone posted that
  account's email and a password to \<open>/signin\<close>, and the password was accepted by a stored hash with
  the digest of the account's present one: a session from before a change of password is nobody's.
\<close>

theorem signed_in_traced:
  assumes "scs_contract (sessions P)" and "store_inv (lower_of P) (db st)"
    and "\<forall>b. GetInt64 (sessions P) (jar st b) ''user_id'' = 0"
    and "run P sndr base st es st'"
    and "session_user P (tables (db st')) (jar st' b) = Some v"
  shows "\<exists>b' req h. Request b' req \<in> set es \<and> Method req = ''POST'' \<and> Path req = ''/signin'' \<and>
    lower_of P (u_email v) = lower_of P (trim_space (FormValue req ''email'')) \<and>
    ComparePasswordAndHash (argon P) (FormValue req ''password'') h = Inr True \<and>
    sha_of P h = sha_of P (u_password_hash v)"
proof -
  have "site_inv P [] st" using assms(2,3) by (simp add: site_inv_def proven_def login_def)
  from site_inv_run[OF assms(4,1) this] have inv: "store_inv (lower_of P) (db st')"
    and p: "proven P es (accounts (db st')) (login (sessions P) (jar st' b))"
    by (simp_all add: site_inv_def)
  have v: "login (sessions P) (jar st' b) = (u_id v, password_epoch (sha_of P) v)" "u_id v \<noteq> 0"
    "v \<in> set (users (tables (db st')))"
    using assms(5) user_by_id_Some
    by (auto simp: session_user_def login_def split: if_splits option.splits)
  from p v(1,2) obtain b' req where e: "Request b' req \<in> set es"
    and si: "signs_in P req (accounts (db st')) (u_id v, password_epoch (sha_of P) v)"
    by (auto simp: proven_def)
  from si have post: "Method req = ''POST''" "Path req = ''/signin''" by (simp_all add: signs_in_def)
  from si obtain u where r: "(u_id u, u_email u) \<in> accounts (db st')" "u_id v = u_id u"
    "password_epoch (sha_of P) v = password_epoch (sha_of P) u"
    "lower_of P (u_email u) = lower_of P (trim_space (FormValue req ''email''))"
    "ComparePasswordAndHash (argon P) (FormValue req ''password'') (u_password_hash u) = Inr True"
    unfolding signs_in_def by blast
  from r(1) obtain u' where u': "u' \<in> set (users (tables (db st')))" "u_id u' = u_id u" "u_email u' = u_email u"
    by auto
  have "u' = v"
    using user_by_id_mem[OF inv u'(1)] user_by_id_mem[OF inv v(3)] u'(2) r(2) by simp
  moreover have "sha_of P (u_password_hash u) = sha_of P (u_password_hash v)"
    using r(3) by (simp add: password_epoch_def hex_encode_inj)
  ultimately show ?thesis
    using e r(4,5) u'(3) post by (intro exI[of _ b'] exI[of _ req] exI[of _ "u_password_hash u"]) simp
qed

text \<open>A request of somebody not signed in, straight to its handler.\<close>

lemma serve_visitor:
  assumes "same_origin_request P req" and "ContentLength req \<le> 2097152"
    and "GetInt64 (sessions P) (session c) ''user_id'' = 0" and "find_route req = Some n"
    and "handler_of P n req (entered P req c) = (Inr (), c')"
  shows "\<exists>ls. serve P req c = end_span (Inr ()) (c'\<lparr>web_log := ls\<rparr>)"
proof -
  have "load_user P (dispatch P) req (entered P req c) = (Inr (), c')"
    using assms(3-5) by (simp add: load_user_def bindE_def dispatch_def)
  then show ?thesis
    using assms(1,2) by (auto simp: serve_def router_run request_logger_def same_origin_post_def Let_def)
qed

lemma serve_signs_in:
  assumes "scs_contract (sessions P)" and "store_inv (lower_of P) (world_of c)" and "reliable (world_of c)"
    and "GetInt64 (sessions P) (session c) ''user_id'' = 0" and "same_origin_request P req"
    and "ContentLength req \<le> 2097152" and "Method req = ''POST''" and "Path req = ''/signin''" and "FormParse req = None"
    and "recent_attempts (world_of c) (signin_key P req (trim_space (FormValue req ''email''))) < 5"
    and "user_by_email (lower_of P) (tables (world_of c)) (trim_space (FormValue req ''email'')) = Some u"
    and "ComparePasswordAndHash (argon P) (FormValue req ''password'') (u_password_hash u) = Inr True"
  shows "users (tables (world_of (serve P req c))) = users (tables (world_of c)) \<and>
    login (sessions P) (session (serve P req c)) = (u_id u, password_epoch (sha_of P) u)"
proof -
  let ?c = "entered P req c"
  have w: "world_of ?c = (world_of c)\<lparr>rand_reads := Suc (rand_reads (world_of c))\<rparr>" by simp
  have inv: "store_inv (lower_of P) (world_of ?c)" "reliable (world_of ?c)"
    using assms(2,3) by (simp_all add: w reliable_def)
  have n: "recent_attempts (world_of ?c) = recent_attempts (world_of c)"
    by (rule ext) (simp add: w recent_attempts_def)
  obtain c' where r: "signin_submit P req ?c = (Inr (), c')"
    "login (sessions P) (session c') = (u_id u, password_epoch (sha_of P) u)"
    using signin_success_run[OF assms(1) inv assms(9), of u] assms(10-12) n by (auto simp: w)
  have route: "find_route req = Some SigninPost"
    using assms(7,8) by (simp add: find_route_def routes_def)
  have "users (tables (world_of c')) = users (tables (world_of c))"
    using signin_submit_cases[OF assms(1) inv(1) r(1)] by (simp add: w)
  then show ?thesis
    using serve_visitor[OF assms(5,6,4) route, of c'] r by auto
qed

definition demo_site :: "mem_session site" where
  "demo_site = \<lparr>db = demo_world, jar = (\<lambda>b. (Map.empty, 0))\<rparr>"

definition ada_signin :: request where
  "ada_signin = demo_request\<lparr>Method := ''POST'', Path := ''/signin'',
     Header := (\<lambda>h. if h = ''Sec-Fetch-Site'' then ''same-origin'' else []),
     FormValue := (\<lambda>k. if k = ''email'' then ''ada@example.com'' else ''correct-horse'')\<rparr>"

lemma ada_signs_in:
  "\<exists>st. run demo_app LogSender ''https://app'' demo_site [Request 7 ada_signin] st \<and>
    session_user demo_app (tables (db st)) (jar st 7) = Some ada"
proof -
  let ?c = "arrive demo_site 7 []" and ?S = "sessions demo_app"
  let ?c' = "serve demo_app ada_signin ?c"
  have S: "?S = mem_scs" by (simp add: demo_app_def)
  have n: "recent_attempts demo_world k = 0" for k by (simp add: recent_attempts_def empty_tables_def)
  have "users (tables (world_of ?c')) = users (tables demo_world) \<and> login ?S (session ?c') = (u_id ada, password_epoch id ada)"
    using serve_signs_in[OF demo_app_sessions, of ?c ada_signin ada] demo_world_inv n demo_compare
    by (simp add: demo_site_def ada_signin_def demo_request_def S mem_scs_def same_origin_request_def)
  moreover have "user_by_id (tables demo_world) (u_id ada) = Some ada"
    using user_by_id_mem[OF demo_world_inv(1)[of id], of ada] by simp
  ultimately have "session_user demo_app (tables (world_of ?c')) (session ?c') = Some ada"
    by (simp add: session_user_def login_def user_by_id_def ada_def del: demo_world_fields)
  moreover have "run demo_app LogSender ''https://app'' demo_site ([] @ [Request 7 ada_signin])
      \<lparr>db = world_of ?c', jar = (jar demo_site)(7 := session ?c')\<rparr>"
    by (rule run.Next[OF run.Start step.Served[OF refl]])
  ultimately show ?thesis by fastforce
qed

theorem signed_in_traced_witness:
  "\<exists>b' req h. Request b' req \<in> {Request 7 ada_signin} \<and> Method req = ''POST'' \<and> Path req = ''/signin'' \<and>
    ComparePasswordAndHash demo_argon2id (FormValue req ''password'') h = Inr True \<and> h = u_password_hash ada"
proof -
  obtain st where r: "run demo_app LogSender ''https://app'' demo_site [Request 7 ada_signin] st"
    "session_user demo_app (tables (db st)) (jar st 7) = Some ada" using ada_signs_in by blast
  have "\<forall>b. GetInt64 (sessions demo_app) (jar demo_site b) ''user_id'' = 0"
    by (simp add: demo_site_def demo_app_def mem_scs_def)
  from signed_in_traced[OF demo_app_sessions _ this r] show ?thesis
    using demo_world_inv by (auto simp: demo_site_def)
qed

end
