(* ===== verification/Recovery.thy ===== *)
theory Recovery
  imports Site
begin

text \<open>
  How a password can change: the chain from \<open>POST /password-reset\<close> over the queued job and the mailed
  link to \<open>POST /password-reset/confirm\<close>, traced through every run of the application.
\<close>

lemma find_exactly_one_state: "snd (find_exactly_one_tx scan tx q w) = snd (Query tx q w)"
  by (auto simp: find_exactly_one_tx_def bindE_def wrapE_def split: prod.split sum.split collect_error.split)

subsection \<open>What a request leaves alone\<close>

type_synonym vault = "user list \<times> reset_token list \<times> job_args list \<times> int"

definition vault :: "world \<Rightarrow> vault" where
  "vault w = (users (tables w), password_reset_tokens (tables w), enqueued w, db_now w)"

abbreviation quiet :: "vault \<Rightarrow> (world, gerr, 'a) act \<Rightarrow> bool" where
  "quiet v m \<equiv> keeps (\<lambda>w. vault w = v) m"

definition bystander :: "stmt \<Rightarrow> bool" where
  "bystander q \<longleftrightarrow> (case q of InsertUser _ \<Rightarrow> False | SetPassword _ _ \<Rightarrow> False
     | InsertResetToken _ \<Rightarrow> False | RetireTokens _ \<Rightarrow> False | _ \<Rightarrow> True)"

lemma quiet_stmt:
  assumes "bystander q"
  shows "quiet v (pg_query lower q)" "quiet v (pg_exec lower q)"
proof -
  have s: "vault (after_stmt lower q w) = vault w" for w
    using assms by (cases q) (simp_all add: bystander_def vault_def Let_def)
  have t: "vault (tick w) = vault w" for w by (simp add: vault_def)
  show "quiet v (pg_query lower q)"
    unfolding keeps_def using snd_pg_query[of lower q] s t by (metis insertE singletonD)
  show "quiet v (pg_exec lower q)"
    unfolding keeps_def using snd_pg_exec[of lower q] s t by (metis insertE singletonD)
qed

lemma quiet_domain [keeps_intros]:
  "quiet v (external_call id)" "quiet v rand_read" "quiet v (throttle_blocked lower k)"
  "quiet v (throttle_fail lower k)" "quiet v (throttle_reset lower k)" "quiet v (by_email lower e)"
  "quiet v (by_id lower i)" "quiet v (authenticate lower A dummy e p)" "quiet v (check_reset_token lower sha t)"
proof -
  have s: "bystander (CountAttempts k n)" "bystander (PruneAttempts n)" "bystander (InsertAttempt k)"
    "bystander (DeleteAttempts k)" "bystander (SelectUserByEmail k)" "bystander (SelectUserById m)"
    "bystander (SelectLiveToken k)" for k n m by (simp_all add: bystander_def)
  note q = quiet_stmt[where lower = lower and v = v]
  have cmp: "quiet v (compare_password A p h)" for h
    by (auto simp: keeps_def compare_password_run vault_def hashed_def split: option.split)
  show "quiet v (external_call id)" by (rule keeps_external_call) (simp_all add: vault_def)
  show "quiet v rand_read" by (rule keeps_rand_read) (simp add: vault_def)
  show "quiet v (throttle_blocked lower k)"
    unfolding throttle_blocked_def throttle_blocked_tx_def
    by (intro keeps_bindE keeps_wrapE) (auto intro: keeps_intros q s split: sum.split collect_error.split)
  show "quiet v (throttle_fail lower k)" "quiet v (throttle_reset lower k)"
    unfolding throttle_fail_def throttle_fail_tx_def throttle_reset_def throttle_reset_tx_def
    by (intro keeps_bindE keeps_wrapE keeps_ret; simp add: q s)+
  show "quiet v (by_email lower e)" "quiet v (by_id lower i)"
    unfolding by_email_def by_email_tx_def by_id_def by_id_tx_def
    by (intro keeps_find_exactly_one_tx; simp add: q s)+
  show "quiet v (authenticate lower A dummy e p)"
    unfolding authenticate_def authenticate_tx_def by_email_tx_def
    by (intro keeps_intros cmp) (simp add: q s)
  show "quiet v (check_reset_token lower sha t)"
    unfolding check_reset_token_def check_reset_token_tx_def live_reset_token_tx_def
    by (intro keeps_intros) (simp add: q s)
qed

abbreviation quiet_web :: "vault \<Rightarrow> ('s, 'a) wact \<Rightarrow> bool" where
  "quiet_web v m \<equiv> keeps (\<lambda>c. vault (world_of c) = v) m"

lemmas quiet_web_rules = keeps_bindE keeps_if keeps_sum keeps_prod keeps_option keeps_ret keeps_fail keeps_wrapE keeps_attempt
  world_domain[where J = "\<lambda>w. vault w = v" for v] world_light[where J = "\<lambda>w. vault w = v" for v]
  world_blob[where J = "\<lambda>w. vault w = v" for v, OF quiet_domain(1)] quiet_domain

lemma quiet_dead_link: "quiet_web v (dead_link P)"
  unfolding dead_link_def by (intro keeps_intros)

lemma quiet_handlers:
  assumes "n \<noteq> ResetPost" and "n \<noteq> ConfirmPost"
  shows "quiet_web v (handler_of P n req)"
proof -
  note k = quiet_web_rules
  show ?thesis
    using assms by (cases n; simp only: handler_of.simps health_def ready_def static_file_def
        ui_assets_def ignore_error_def design_showcase_def signin_form_def signin_submit_def open_session_def signout_def
        password_reset_request_form_def password_reset_confirm_form_def dead_link_def
        require_user_def home_def Let_def simp_thms refl; intro k; fail)
qed

subsection \<open>What a request can change\<close>

definition request_effect :: "'s app \<Rightarrow> request \<Rightarrow> vault \<Rightarrow> vault \<Rightarrow> bool" where
  "request_effect P req v v' \<longleftrightarrow>
     (case v of (us, ts, js, now) \<Rightarrow>
        v' = v \<or>
        (Method req = ''POST'' \<and> Path req = ''/password-reset'' \<and>
         (\<exists>u \<in> set us. lower_of P (u_email u) = lower_of P (trim_space (FormValue req ''email'')) \<and>
            v' = (us, ts, js @ [PasswordResetEmailArgs (u_email u)], now))) \<or>
        (Method req = ''POST'' \<and> Path req = ''/password-reset/confirm'' \<and>
         (\<exists>t \<in> set ts. \<exists>hash salt. t_token_hash t = hash_reset_token (sha_of P) (FormValue req ''token'') \<and>
            live_at now t \<and> CreateHash (argon P) (FormValue req ''password'') salt = Inr hash \<and>
            v' = (map (set_password (t_user_id t) hash now) us, map (retire (t_user_id t) now) ts, js, now))))"

lemma request_effect_refl: "request_effect P req v v"
  by (simp add: request_effect_def split: prod.split)

abbreviation before :: "'s app \<Rightarrow> vault \<Rightarrow> 's web \<Rightarrow> bool" where
  "before P v c \<equiv> vault (world_of c) = v \<and> store_inv (lower_of P) (world_of c)"

abbreviation effect :: "'s app \<Rightarrow> request \<Rightarrow> vault \<Rightarrow> 's web \<Rightarrow> bool" where
  "effect P req v c \<equiv> request_effect P req v (vault (world_of c))"

lemma effect_quiet:
  assumes "\<And>v. quiet_web v m"
  shows "keeps (effect P req v) m"
  using assms unfolding keeps_def by metis

lemma before_quiet:
  "quiet v m \<Longrightarrow> keeps (store_inv (lower_of P)) m \<Longrightarrow> keeps (before P v) (domain m)"
  by (simp add: keeps_def domain_run)

lemma before_effect: "before P v c \<Longrightarrow> effect P req v c"
  using request_effect_refl by simp

text \<open>The reset transaction: all of it or none of it, whatever becomes of the commit.\<close>

lemma reset_transaction:
  assumes "store_inv lower w"
    and "in_tx (pg_pool lower) (\<lambda>tx. reset_password_tx sha A build tx token pw) w = (r, w')"
  shows "vault w' = vault w \<or> (\<exists>t \<in> set (password_reset_tokens (tables w)). \<exists>hash salt.
    t_token_hash t = hash_reset_token sha token \<and> live_at (db_now w) t \<and> CreateHash A pw salt = Inr hash \<and>
    vault w' = (map (set_password (t_user_id t) hash (db_now w)) (users (tables w)),
      map (retire (t_user_id t) (db_now w)) (password_reset_tokens (tables w)), enqueued w, db_now w))"
proof -
  let ?w1 = "(tick w)\<lparr>snapshot := tables w\<rparr>"
  obtain r2 w2 where f: "reset_password lower sha A build token pw ?w1 = (r2, w2)" by force
  have frame: "keeps (\<lambda>w. snapshot w = S \<and> enqueued w = E \<and> db_now w = N)
      (reset_password_tx sha A build (conn lower) token pw)" for S E N
  proof -
    have q: "keeps (\<lambda>w. snapshot w = S \<and> enqueued w = E \<and> db_now w = N) (pg_query lower q)"
      "keeps (\<lambda>w. snapshot w = S \<and> enqueued w = E \<and> db_now w = N) (pg_exec lower q)" for q
      by (simp_all add: keeps_def pg_call_fields[OF snd_pg_query] pg_call_fields[OF snd_pg_exec])
    have h: "keeps (\<lambda>w. snapshot w = S \<and> enqueued w = E \<and> db_now w = N) (hash_password A p)" for p
      by (auto simp: keeps_def hash_password_run hashed_def salted_def split: option.split)
    show ?thesis
      unfolding reset_password_tx_def live_reset_token_tx_def by_id_tx_def
      by (intro keeps_intros) (simp_all add: q h)
  qed
  have w2: "snapshot w2 = tables w" "enqueued w2 = enqueued w" "db_now w2 = db_now w"
    using keeps_run[OF frame[of "tables w" "enqueued w" "db_now w"], of ?w1 r2 w2] f
    by (simp_all add: reset_password_def)
  have inv: "store_inv lower ?w1" using assms(1) by (simp add: store_inv_def)
  have w': "vault w' = vault w \<or> (\<exists>u. r2 = Inr u) \<and> tables w' = tables w2 \<and> enqueued w' = enqueued w \<and> db_now w' = db_now w"
    using assms(2) f w2
    by (cases r2) (auto simp: in_tx_def bindE_def wrapE_def attempt_def pg_begin_def pg_commit_def
        pg_rollback_def next_call_eq Let_def vault_def reset_password_def split: outcome.splits)
  show ?thesis
  proof (cases "vault w' = vault w")
    case False
    with w' obtain u where u: "r2 = Inr u" by auto
    obtain t hash salt where t: "live_token sha ?w1 token = Some t" "CreateHash A pw salt = Inr hash"
      "tables w2 = reset_tables (t_user_id t) hash (db_now w) (tables w)"
      using reset_password_Inr[OF inv f[unfolded u]] by auto
    from live_token_Some[OF t(1)] t w' False show ?thesis
      by (auto simp: vault_def reset_tables_def intro!: bexI[of _ t])
  qed simp
qed

lemma effect_confirm:
  assumes "find_route req = Some ConfirmPost"
  shows "leads (before P v) (password_reset_confirm P req) (effect P req v)"
proof -
  have route: "Method req = ''POST''" "Path req = ''/password-reset/confirm''"
    using assms by (auto simp: find_route_def routes_def split: if_splits)
  note k = keeps_intros world_blob[where J = "\<lambda>w. vault w = _", OF quiet_domain(1)] quiet_dead_link
  have tx: "leads (before P v) (attempt (domain (in_tx (pg_pool (lower_of P))
      (\<lambda>tx. reset_password_tx (sha_of P) (argon P) (build_sql P) tx (FormValue req ''token'')
         (FormValue req ''password''))))) (effect P req v)"
    unfolding leads_def
  proof (intro allI impI)
    fix c assume c: "before P v c"
    let ?m = "in_tx (pg_pool (lower_of P)) (\<lambda>tx. reset_password_tx (sha_of P) (argon P) (build_sql P) tx
        (FormValue req ''token'') (FormValue req ''password''))"
    from reset_transaction[OF conjunct2[OF c] surjective_pairing] c route
    show "effect P req v (snd (attempt (domain ?m) c))"
      by (fastforce simp: request_effect_def domain_run vault_def)
  qed
  have form: "keeps (before P v) (parse_form req)"
    by (simp add: keeps_def parse_form_def split: option.split)
  show ?thesis
    unfolding password_reset_confirm_def Let_def
    by (intro leads_before[OF form] before_effect leads_after[OF tx] effect_quiet k) simp
qed

lemma leads_quiet:
  assumes "\<And>v. quiet_web v m"
  shows "leads (before P v) m (effect P req v)"
  using assms request_effect_refl unfolding leads_def keeps_def by metis

lemma effect_enqueue:
  assumes "find_route req = Some ResetPost" and "u \<in> set us"
    and "lower_of P (u_email u) = lower_of P (trim_space (FormValue req ''email''))"
    and "vault w = (us, ts, js, now)" and "insert_standalone (PasswordResetEmailArgs (u_email u)) w = (r, w')"
  shows "request_effect P req (us, ts, js, now) (vault w')"
proof -
  have route: "Method req = ''POST''" "Path req = ''/password-reset''"
    using assms(1) by (auto simp: find_route_def routes_def split: if_splits)
  have "vault w' = (us, ts, js, now) \<or> vault w' = (us, ts, js @ [PasswordResetEmailArgs (u_email u)], now)"
    using assms(4,5) by (auto simp: insert_standalone_def external_call_def next_call_eq wrapE_def vault_def
        split: outcome.splits)
  then show ?thesis using route assms(2,3) unfolding request_effect_def by blast
qed

lemma effect_request:
  assumes "find_route req = Some ResetPost"
  shows "leads (before P v) (password_reset_request P req) (effect P req v)"
proof -
  let ?email = "trim_space (FormValue req ''email'')"
  obtain us ts js now where v: "v = (us, ts, js, now)" by (cases v)
  note quiet = quiet_web_rules
  have tell: "quiet_web v' (bindE (set_flash P f m) (\<lambda>_. render_page P t x g))"
    "quiet_web v' (bindE (set_flash P f m) (\<lambda>_. safe_redirect p))" for v' f m t x g p
    by (intro quiet)+
  let ?found = "\<lambda>r c. before P v c \<and> (case r of Inl _ \<Rightarrow> True
     | Inr u \<Rightarrow> u \<in> set us \<and> lower_of P (u_email u) = lower_of P ?email)"
  have lookup: "?found r c'" if c: "before P v c" and r: "attempt (domain (by_email (lower_of P) ?email)) c = (Inr r, c')"
    for c r c'
  proof -
    from r have "r = lookup_result (fate (world_of c) (calls (world_of c)))
        (user_by_email (lower_of P) (tables (world_of c)) ?email)" "c' = c\<lparr>world_of := tick (world_of c)\<rparr>"
      using c by (auto simp: by_email_def domain_run by_email_tx_run)
    with c v user_by_email_Some show ?thesis
      by (auto simp: vault_def dest!: lookup_result_Inr split: sum.split)
  qed
  have send: "leads (?found r) (case r of
        Inl err \<Rightarrow> if \<not> errors_is err ErrNotFound then fail (errorf ''looking up reset account: '' err) else ret ()
      | Inr u \<Rightarrow> wrapE (errorf ''enqueueing reset email: '')
          (domain (insert_standalone (PasswordResetEmailArgs (u_email u))))) (effect P req v)" for r
  proof (cases r)
    case (Inr u)
    have "effect P req v (snd (domain (insert_standalone (PasswordResetEmailArgs (u_email u))) c))"
      if "?found (Inr u) c" for c
    proof -
      from that have "u \<in> set us" "lower_of P (u_email u) = lower_of P ?email" "vault (world_of c) = (us, ts, js, now)"
        using v by simp_all
      from effect_enqueue[OF assms this surjective_pairing] v show ?thesis by (simp add: domain_run)
    qed
    with Inr show ?thesis by (simp add: leads_def)
  qed (auto simp: leads_def request_effect_refl)
  have form: "keeps (before P v) (parse_form req)"
    by (simp add: keeps_def parse_form_def split: option.split)
  have blocked: "keeps (before P v) (domain (throttle_blocked (lower_of P) k))"
    "keeps (before P v) (domain (throttle_fail (lower_of P) k))" for k
    by (intro before_quiet quiet_domain inv_domain)+
  show ?thesis
    unfolding password_reset_request_def Let_def
    by (intro leads_before[OF form] leads_before[OF keeps_wrapE[OF blocked(1)]] leads_if leads_quiet[OF tell(1)]
        leads_before[OF keeps_wrapE[OF blocked(2)]] before_effect leads_bindE[where B = ?found] lookup
        leads_after[OF send] effect_quiet[OF tell(2)]) auto
qed

lemma effect_dispatch: "leads (before P v) (dispatch P req) (effect P req v)"
proof (cases "find_route req")
  case None
  have "quiet_web u (unmatched req :: ('a, unit) wact)" for u
    unfolding unmatched_def Let_def by (intro quiet_web_rules)
  then show ?thesis using None by (simp add: dispatch_def leads_quiet)
next
  case (Some n)
  have "leads (before P v) (handler_of P n req) (effect P req v)"
  proof (cases "n = ResetPost \<or> n = ConfirmPost")
    case True
    then show ?thesis using effect_request[where v = v] effect_confirm[where v = v] Some by auto
  next
    case False
    then show ?thesis by (intro leads_quiet quiet_handlers) auto
  qed
  with Some show ?thesis by (simp add: dispatch_def)
qed

lemma leads_request_logger:
  "leads A (next req) B \<Longrightarrow> (\<And>e. keeps B (error_handler P req e)) \<Longrightarrow>
   (\<And>c xs. B c \<Longrightarrow> B (c\<lparr>web_log := xs\<rparr>)) \<Longrightarrow> leads A (request_logger P next req) B"
  unfolding leads_def keeps_def request_logger_def Let_def by (fastforce split: prod.splits sum.splits)

lemma serve_effect:
  assumes "store_inv (lower_of P) (world_of c)"
  shows "request_effect P req (vault (world_of c)) (vault (world_of (serve P req c)))"
proof -
  let ?v = "vault (world_of c)"
  have answer: "keeps (effect P req ?v) (error_handler P req e)" for e
    by (intro effect_quiet world_blob[where J = "\<lambda>w. vault w = _", OF quiet_domain(1)])
  have light: "keeps (before P ?v) (sess_get g)" "keeps (before P ?v) (sess_do f)"
    "keeps (before P ?v) (modify (\<lambda>c. c\<lparr>cu := u\<rparr>))" for g f u
    by (simp_all add: keeps_def)
  have "leads (before P ?v) (load_user P (dispatch P) req) (effect P req ?v)"
    unfolding load_user_def sess_store_def Let_def
    by (auto intro!: leads_before leads_if effect_dispatch before_effect keeps_bindE keeps_attempt keeps_wrapE
        before_quiet quiet_domain inv_domain light leads_fail split: sum.split)
  then have "leads (before P ?v) (same_origin_post P (load_user P (dispatch P)) req) (effect P req ?v)"
    unfolding same_origin_post_def by (intro leads_if leads_fail before_effect)
  then have chain: "leads (before P ?v) (request_logger P (same_origin_post P (load_user P (dispatch P))) req) (effect P req ?v)"
    by (rule leads_request_logger) (intro answer, simp)
  have c1: "before P ?v (entered P req c)" "before P ?v (secured P (identified req c))"
    using assms by (simp_all add: secured_def identified_def vault_def Let_def)
  have "effect P req ?v (snd (inner_chain P req (entered P req c)))"
    using chain c1(1) by (simp add: leads_def)
  then have "effect P req ?v (snd (router P req c))"
    using before_effect[OF c1(2)] by (cases "inner_chain P req (entered P req c)") (simp add: router_run)
  with keepsD[OF answer] show ?thesis
    by (fastforce simp: serve_def split: prod.splits sum.splits)
qed

text \<open>
  C5: What a request can change, whatever its route, however calls fail in it: nothing of the
  accounts, the reset tokens and the queue; or one job is queued for the address of the account
  that was asked for at \<open>/password-reset\<close>; or, at \<open>/password-reset/confirm\<close> with a live token, the one
  account of the token gets argon2's hash of the posted password and loses all its tokens.
\<close>

theorem request_changes:
  assumes "store_inv (lower_of P) (world_of c)"
  shows "request_effect P req (vault (world_of c)) (vault (world_of (serve P req c)))"
  using serve_effect[OF assms] .

theorem request_changes_witness:
  "request_effect demo_app demo_request (vault demo_world) (vault (world_of (serve demo_app demo_request demo_web)))"
  using request_changes[of demo_app demo_web demo_request] demo_world_inv by simp

subsection \<open>The abstract machine\<close>

text \<open>
  The specification of account recovery: what the events may do to the accounts, the tokens and the
  queue, without HTTP, SQL, failures or transactions.
\<close>

inductive vault_step :: "'s app \<Rightarrow> vault \<Rightarrow> event \<Rightarrow> vault \<Rightarrow> bool" for P where
  Stay: "vault_step P v e v"
| Ask: "Method req = ''POST'' \<Longrightarrow> Path req = ''/password-reset'' \<Longrightarrow> u \<in> set us \<Longrightarrow>
     lower_of P (u_email u) = lower_of P (trim_space (FormValue req ''email'')) \<Longrightarrow>
     vault_step P (us, ts, js, now) (Request b req) (us, ts, js @ [PasswordResetEmailArgs (u_email u)], now)"
| Issue: "PasswordResetEmailArgs email \<in> set js \<Longrightarrow> u \<in> set us \<Longrightarrow>
     lower_of P (u_email u) = lower_of P (trim_space email) \<Longrightarrow> t_user_id t = u_id u \<Longrightarrow> t_used_at t = None \<Longrightarrow>
     vault_step P (us, ts, js, now) (Job (PasswordResetEmailArgs email)) (us, ts @ [t], js, now)"
| Redeem: "Method req = ''POST'' \<Longrightarrow> Path req = ''/password-reset/confirm'' \<Longrightarrow> t \<in> set ts \<Longrightarrow>
     t_token_hash t = hash_reset_token (sha_of P) (FormValue req ''token'') \<Longrightarrow> live_at now t \<Longrightarrow>
     CreateHash (argon P) (FormValue req ''password'') salt = Inr hash \<Longrightarrow>
     vault_step P (us, ts, js, now) (Request b req)
       (map (set_password (t_user_id t) hash now) us, map (retire (t_user_id t) now) ts, js, now)"
| Join: "u_id u \<notin> u_id ` set us \<Longrightarrow> vault_step P (us, ts, js, now) (Create inp) (us @ [u], ts, js, now)"
| Pass: "0 \<le> d \<Longrightarrow> vault_step P (us, ts, js, now) (Elapse d a) (us, ts, js, now + d)"

inductive_cases vault_step_askE: "vault_step P (us, ts, js, now) (Request b req) v'"
inductive_cases vault_step_createE: "vault_step P (us, ts, js, now) (Create inp) v'"

lemma vault_work:
  assumes "store_inv lower w" and "work lower sha sndr base (PasswordResetEmailArgs email) w = (r, w')"
  shows "vault w' = vault w \<or> (\<exists>u t. u \<in> set (users (tables w)) \<and> lower (u_email u) = lower (trim_space email) \<and>
    t_user_id t = u_id u \<and> t_used_at t = None \<and>
    vault w' = (users (tables w), password_reset_tokens (tables w) @ [t], enqueued w, db_now w))"
proof -
  let ?B = "\<lambda>w'. vault w' = vault w \<or> (\<exists>u t. u \<in> set (users (tables w)) \<and>
    lower (u_email u) = lower (trim_space email) \<and> t_user_id t = u_id u \<and> t_used_at t = None \<and>
    vault w' = (users (tables w), password_reset_tokens (tables w) @ [t], enqueued w, db_now w))"
  have sent: "keeps ?B (send sndr msg)" for msg
  proof -
    have "vault (deliver msg v) = vault v" "vault (tick v) = vault v" for v by (simp_all add: deliver_def vault_def)
    then have "keeps ?B (modify (deliver msg))" "keeps ?B (external_call (deliver msg))"
      by (simp_all add: keeps_def external_call_def next_call_eq split: outcome.split)
    then show ?thesis by (cases sndr) (auto simp: log_send_def ses_send_def intro!: keeps_intros)
  qed
  obtain r1 w1 where c: "create_password_reset lower sha email w = (r1, w1)" by force
  let ?r = "lookup_result (fate w (calls w)) (user_by_email lower (tables w) (trim_space email))"
  have "?B w1"
  proof (cases ?r)
    case (Inl e)
    with c have "w1 = tick w"
      by (simp add: create_password_reset_def create_password_reset_tx_def bindE_def
          by_email_tx_run[OF assms(1)])
    then show ?thesis by (simp add: vault_def)
  next
    case (Inr u)
    define row where "row = \<lparr>t_id = 0, t_user_id = u_id u,
        t_token_hash = hash_reset_token sha (base64_encode (entropy w (rand_reads w))),
        t_expires_at = app_now w + ResetTokenTTL, t_used_at = None, t_created_at = 0\<rparr>"
    let ?w0 = "salted (tick w)" and ?q = "InsertResetToken (token_to_row_map row)"
    obtain rq wq where q: "insert_tx scan_token (conn lower) ?q ?w0 = (rq, wq)" by force
    have "w1 = wq"
      using c Inr q by (cases rq) (auto simp: create_password_reset_def create_password_reset_tx_def bindE_def
          wrapE_def by_email_tx_run[OF assms(1)] rand_read_def salted_def Let_def row_def gets_def)
    with q have "w1 = snd (pg_query lower ?q ?w0)"
      using find_exactly_one_state[of scan_token "conn lower" ?q ?w0] by (simp add: insert_tx_def)
    with snd_pg_query[of lower ?q ?w0] have "w1 = tick ?w0 \<or> w1 = snd (insert_token (token_to_row_map row) (tick ?w0))"
      by (auto split: prod.splits)
    then show ?thesis
    proof
      assume "w1 = tick ?w0"
      then show ?thesis by (simp add: vault_def salted_def)
    next
      assume w1: "w1 = snd (insert_token (token_to_row_map row) (tick ?w0))"
      have "vault w1 = vault w \<or> (\<exists>t. t_user_id t = u_id u \<and> t_used_at t = None \<and>
          vault w1 = (users (tables w), password_reset_tokens (tables w) @ [t], enqueued w, db_now w))"
        unfolding w1 by (auto simp: insert_token_def build_token_row_map row_def vault_def salted_def Let_def)
      with lookup_result_Inr[OF Inr] user_by_email_Some show ?thesis by metis
    qed
  qed
  moreover have "w' = w1 \<or> (\<exists>msg. w' = snd (send sndr msg w1))"
    using assms(2) c by (auto simp: bindE_def attempt_def split: sum.splits if_splits prod.splits)
      (metis snd_conv)
  ultimately show ?thesis using keepsD[OF sent] by blast
qed

lemma vault_create:
  assumes "store_inv lower w" and "create lower A inp w = (r, w')"
  shows "vault w' = vault w \<or> (\<exists>u. u_id u \<notin> u_id ` set (users (tables w)) \<and>
    vault w' = (users (tables w) @ [u], password_reset_tokens (tables w), enqueued w, db_now w))"
proof -
  let ?B = "\<lambda>w'. vault w' = vault w \<or> (\<exists>u. u_id u \<notin> u_id ` set (users (tables w)) \<and>
    vault w' = (users (tables w) @ [u], password_reset_tokens (tables w), enqueued w, db_now w))"
  let ?A = "\<lambda>v. vault v = vault w \<and> store_inv lower v"
  have hash: "keeps ?A (hash_password A p)" for p
    by (auto simp: keeps_def hash_password_run vault_def hashed_def salted_def store_inv_def split: option.split)
  have ins: "leads ?A (attempt (insert_tx scan_user (conn lower) (InsertUser rm))) ?B" for rm
    unfolding leads_def
  proof (intro allI impI)
    fix v assume v: "?A v"
    have "snd (attempt (insert_tx scan_user (conn lower) (InsertUser rm)) v) = snd (pg_query lower (InsertUser rm) v)"
      by (simp add: insert_tx_def find_exactly_one_state)
    moreover have "?B (snd (insert_user lower rm (tick v)))"
    proof -
      have "user_seq v \<notin> u_id ` set (users (tables v))"
        using v by (force simp: store_inv_def tables_inv_def)
      then show ?thesis
        using v build_user_id[of rm "user_seq v" "db_now v"]
        by (auto simp: insert_user_def vault_def Let_def split: sum.split)
    qed
    ultimately show "?B (snd (attempt (insert_tx scan_user (conn lower) (InsertUser rm)) v))"
      using snd_pg_query[of lower "InsertUser rm" v] v by (auto simp: vault_def split: prod.splits)
  qed
  have "leads ?A (create_tx A (conn lower) inp) ?B"
    unfolding create_tx_def Let_def
    by (auto intro!: leads_fail leads_before keeps_wrapE hash leads_after[OF ins] keeps_intros
        split: option.split)
  with assms show ?thesis by (force simp: leads_def create_def)
qed

lemma step_refines:
  assumes "store_inv (lower_of P) (db st)" and "step P sndr base st e st'"
  shows "vault_step P (vault (db st)) e (vault (db st'))"
proof -
  have served: "vault_step P (vault (db st)) (Request b req) (vault (world_of c'))"
    if "c' = serve P req (arrive st b rid)" for c' req b rid
    using serve_effect[of P "arrive st b rid" req] assms(1) that
    by (auto simp: request_effect_def vault_def intro: vault_step.intros)
  show ?thesis
    using assms(2)
  proof cases
    case (Served c' req b rid)
    with served[OF Served(3)] show ?thesis by simp
  next
    case (Unsaved c' req b rid)
    with served[OF Unsaved(3)] show ?thesis by simp
  next
    case (Worked args r w')
    obtain email where a: "args = PasswordResetEmailArgs email" by (cases args)
    from vault_work[OF assms(1) Worked(4)[unfolded a]] Worked(1-3) a show ?thesis
      by (auto simp: vault_def intro: vault_step.intros)
  next
    case (Created inp r w')
    from vault_create[OF assms(1) Created(3)] Created(1,2) show ?thesis
      by (auto simp: vault_def intro: vault_step.intros)
  next
    case (Elapsed d a)
    then show ?thesis by (auto simp: vault_def intro: vault_step.intros)
  next
    case (Expired s b)
    then show ?thesis by (auto intro: vault_step.intros)
  qed
qed

text \<open>
  C3: The application refines that machine: whatever a step of the application does to the accounts,
  the tokens, the queue and the clock, however calls fail in it, the machine may do.
\<close>

theorem recovery_refinement:
  assumes "store_inv (lower_of P) (db st)" and "step P sndr base st e st'"
  shows "vault_step P (vault (db st)) e (vault (db st'))"
  using step_refines[OF assms] .

theorem recovery_refinement_witness:
  "vault_step demo_app (vault (db demo_site)) (Elapse 5 0)
     (vault ((db demo_site)\<lparr>db_now := db_now (db demo_site) + 5, app_now := app_now (db demo_site) + 0\<rparr>))"
proof -
  have "step demo_app (SES ''mail@app'') ''https://app'' demo_site (Elapse 5 0)
      (demo_site\<lparr>db := (db demo_site)\<lparr>db_now := db_now (db demo_site) + 5, app_now := app_now (db demo_site) + 0\<rparr>\<rparr>)"
    by (rule Elapsed) simp
  from recovery_refinement[OF _ this] show ?thesis by (simp add: demo_site_def demo_world_inv del: demo_world_fields)
qed

subsection \<open>Where a changed password comes from\<close>

abbreviation accts :: "user list \<Rightarrow> (int \<times> string) set" where
  "accts us \<equiv> (\<lambda>u. (u_id u, u_email u)) ` set us"

text \<open>Somebody asked for a reset of the account with the address \<open>e\<close>.\<close>

definition asked :: "'s app \<Rightarrow> event set \<Rightarrow> (int \<times> string) set \<Rightarrow> string \<Rightarrow> bool" where
  "asked P es A e \<longleftrightarrow> (\<exists>b req i. Request b req \<in> es \<and> Method req = ''POST'' \<and> Path req = ''/password-reset'' \<and>
     (i, e) \<in> A \<and> lower_of P e = lower_of P (trim_space (FormValue req ''email'')))"

text \<open>The token was issued to its account by the job for an address of that account.\<close>

definition issued :: "'s app \<Rightarrow> event set \<Rightarrow> (int \<times> string) set \<Rightarrow> int \<Rightarrow> bool" where
  "issued P es A i \<longleftrightarrow> (\<exists>e m. Job (PasswordResetEmailArgs e) \<in> es \<and> asked P es A e \<and>
     (i, m) \<in> A \<and> lower_of P m = lower_of P (trim_space e))"

text \<open>Somebody posted a token of the account together with the password that is now its hash.\<close>

definition redeemed :: "'s app \<Rightarrow> event set \<Rightarrow> (int \<times> string) set \<Rightarrow> int \<Rightarrow> string \<Rightarrow> bool" where
  "redeemed P es T i hash \<longleftrightarrow> (\<exists>b req salt. Request b req \<in> es \<and> Method req = ''POST'' \<and>
     Path req = ''/password-reset/confirm'' \<and>
     (i, hash_reset_token (sha_of P) (FormValue req ''token'')) \<in> T \<and>
     CreateHash (argon P) (FormValue req ''password'') salt = Inr hash)"

abbreviation digests :: "reset_token list \<Rightarrow> (int \<times> string) set" where
  "digests ts \<equiv> (\<lambda>t. (t_user_id t, t_token_hash t)) ` set ts"

lemma history_mono:
  assumes "es \<subseteq> es'" and "A \<subseteq> A'"
  shows "asked P es A e \<Longrightarrow> asked P es' A' e" "issued P es A i \<Longrightarrow> issued P es' A' i"
    "redeemed P es A i h \<Longrightarrow> redeemed P es' A' i h"
proof -
  show a: "asked P es A e \<Longrightarrow> asked P es' A' e" for e
    using assms unfolding asked_def by blast
  show "issued P es A i \<Longrightarrow> issued P es' A' i"
    unfolding issued_def using assms by (blast intro: a)
  show "redeemed P es A i h \<Longrightarrow> redeemed P es' A' i h"
    using assms unfolding redeemed_def by blast
qed

text \<open>The history that explains the accounts \<open>A\<close>, digests \<open>D\<close>, jobs \<open>J\<close> and hashes \<open>H\<close>, from the hashes \<open>H0\<close>.\<close>

definition explained ::
  "'s app \<Rightarrow> (int \<times> string) set \<Rightarrow> event set \<Rightarrow> (int \<times> string) set \<Rightarrow> (int \<times> string) set \<Rightarrow> string set \<Rightarrow>
   (int \<times> string) set \<Rightarrow> bool" where
  "explained P H0 es A D J H \<longleftrightarrow>
     fst ` H0 \<subseteq> fst ` A \<and> (\<forall>e \<in> J. asked P es A e) \<and> (\<forall>(i, d) \<in> D. issued P es A i) \<and>
     (\<forall>(i, h) \<in> H. i \<in> fst ` H0 \<longrightarrow> (i, h) \<in> H0 \<or> redeemed P es D i h)"

lemma explainedD:
  assumes "explained P H0 es A D J H"
  shows "(i, d) \<in> D \<Longrightarrow> issued P es A i" "(i, h) \<in> H \<Longrightarrow> i \<in> fst ` H0 \<Longrightarrow> (i, h) \<in> H0 \<or> redeemed P es D i h"
  using assms unfolding explained_def by fast+

lemma explained_later:
  assumes "explained P H0 es A D J H" and "es \<subseteq> es'"
  shows "explained P H0 es' A D J H"
proof -
  note m = history_mono[OF assms(2) subset_refl, of P]
  show ?thesis using assms(1) unfolding explained_def by (blast intro: m)
qed

lemma explained_ask:
  "explained P H0 es A D J H \<Longrightarrow> asked P es A e \<Longrightarrow> explained P H0 es A D (insert e J) H"
  unfolding explained_def by blast

lemma explained_issue:
  assumes "explained P H0 es A D J H" and "issued P es A i"
  shows "explained P H0 es A (insert (i, d) D) J H"
proof -
  note m = history_mono(3)[OF subset_refl subset_insertI, of P es D]
  show ?thesis using assms unfolding explained_def by (blast intro: m)
qed

lemma explained_redeem:
  assumes "explained P H0 es A D J H" and "redeemed P es D i h" and "H' \<subseteq> insert (i, h) H"
  shows "explained P H0 es A D J H'"
  using assms unfolding explained_def by blast

lemma explained_join:
  assumes "explained P H0 es A D J H" and "i \<notin> fst ` A"
  shows "explained P H0 es (insert (i, m) A) D J (insert (i, h) H)"
proof -
  note mono = history_mono[OF subset_refl subset_insertI, of P es A]
  have "i \<notin> fst ` H0" using assms unfolding explained_def by blast
  with assms(1) mono show ?thesis unfolding explained_def by auto
qed

definition emails :: "job_args list \<Rightarrow> string set" where
  "emails js = (\<lambda>j. case j of PasswordResetEmailArgs e \<Rightarrow> e) ` set js"

definition hashes :: "user list \<Rightarrow> (int \<times> string) set" where
  "hashes us = (\<lambda>u. (u_id u, u_password_hash u)) ` set us"

fun recovery_inv :: "'s app \<Rightarrow> user list \<Rightarrow> event list \<Rightarrow> vault \<Rightarrow> bool" where
  "recovery_inv P us0 es (us, ts, js, now) \<longleftrightarrow>
     explained P (hashes us0) (set es) (accts us) (digests ts) (emails js) (hashes us)"

lemma recovery_inv_step:
  assumes "vault_step P v e v'" and "recovery_inv P us0 es v"
  shows "recovery_inv P us0 (es @ [e]) v'"
  using assms(1)
proof cases
  case Stay
  with assms(2) show ?thesis by (cases v) (auto intro: explained_later)
next
  case (Ask req u us ts js now b)
  then have x: "explained P (hashes us0) (set (es @ [e])) (accts us) (digests ts) (emails js) (hashes us)"
    using assms(2) by (auto intro: explained_later)
  have "(u_id u, u_email u) \<in> accts us" using Ask by simp
  then have "asked P (set (es @ [e])) (accts us) (u_email u)"
    using Ask unfolding asked_def by auto
  from explained_ask[OF x this] Ask show ?thesis by (simp add: emails_def)
next
  case (Issue email js u us t ts now)
  then have x: "explained P (hashes us0) (set (es @ [e])) (accts us) (digests ts) (emails js) (hashes us)"
    using assms(2) by (auto intro: explained_later)
  have "email \<in> emails js" using Issue by (force simp: emails_def)
  with x have "asked P (set (es @ [e])) (accts us) email" by (auto simp: explained_def)
  moreover have "(u_id u, u_email u) \<in> accts us" using Issue by simp
  ultimately have "issued P (set (es @ [e])) (accts us) (t_user_id t)"
    using Issue unfolding issued_def by auto
  from explained_issue[OF x this] Issue show ?thesis by simp
next
  case (Redeem req t ts now salt hash us js b)
  then have x: "explained P (hashes us0) (set (es @ [e])) (accts us) (digests ts) (emails js) (hashes us)"
    using assms(2) by (auto intro: explained_later)
  have "(t_user_id t, t_token_hash t) \<in> digests ts" using Redeem by blast
  then have r: "redeemed P (set (es @ [e])) (digests ts) (t_user_id t) hash"
    using Redeem unfolding redeemed_def by auto
  have "hashes (map (set_password (t_user_id t) hash now) us) \<subseteq> insert (t_user_id t, hash) (hashes us)"
    by (auto simp: hashes_def set_password_def)
  from explained_redeem[OF x r this] Redeem show ?thesis by (simp add: image_image)
next
  case (Join u us ts js now inp)
  then have x: "explained P (hashes us0) (set (es @ [e])) (accts us) (digests ts) (emails js) (hashes us)"
    using assms(2) by (auto intro: explained_later)
  have "u_id u \<notin> fst ` accts us" using Join by (simp add: image_image)
  from explained_join[OF x this] Join show ?thesis by (simp add: hashes_def)
next
  case (Pass d us ts js now a)
  with assms(2) show ?thesis by (auto intro: explained_later)
qed

lemma recovery_run:
  assumes "run P sndr base st es st'" and "scs_contract (sessions P)" and "site_inv P [] st"
    and "password_reset_tokens (tables (db st)) = []" and "enqueued (db st) = []"
  shows "recovery_inv P (users (tables (db st))) es (vault (db st'))"
  using assms(1)
proof (induction rule: run.induct)
  case Start
  then show ?case using assms(4,5) by (simp add: vault_def explained_def emails_def hashes_def image_image)
next
  case (Next es st1 e st2)
  have "site_inv P es st1" using site_inv_run[OF Next(1) assms(2,3)] .
  then have "vault_step P (vault (db st1)) e (vault (db st2))"
    using step_refines[OF _ Next(2)] by (simp add: site_inv_def)
  from recovery_inv_step[OF this Next(3)] show ?case .
qed

end
