(* ===== verification/Recovery_Run.thy ===== *)
theory Recovery_Run
  imports Recovery Forgotten
begin

text \<open>
  The other half of account recovery: when every call works, asking for a reset, working the queued
  job and posting the mailed token with a new password gives an account with that password.
\<close>

subsection \<open>The three steps\<close>

lemma create_password_reset_run:
  assumes "store_inv lower w" and "reliable w"
    and "user_by_email lower (tables w) (trim_space email) = Some u"
    and "\<forall>t \<in> set (password_reset_tokens (tables w)).
      t_token_hash t \<noteq> hash_reset_token sha (base64_encode (entropy w (rand_reads w)))"
  shows "create_password_reset lower sha email w =
    (Inr (base64_encode (entropy w (rand_reads w)), u), add_token (new_token sha w u) (tick (salted (tick w))))"
proof -
  let ?token = "base64_encode (entropy w (rand_reads w))"
  have "u_id u \<in> u_id ` set (users (tables w))" using user_by_email_Some[OF assms(3)] by simp
  then have "insert_token (token_to_row_map \<lparr>t_id = 0, t_user_id = u_id u,
      t_token_hash = hash_reset_token sha ?token, t_expires_at = app_now w + ResetTokenTTL,
      t_used_at = None, t_created_at = 0\<rparr>) (tick (salted (tick w))) =
    (Rows [TokenRow (new_token sha w u)], add_token (new_token sha w u) (tick (salted (tick w))))"
    using assms(4) by (simp add: insert_token_def build_token_row_map add_token_def new_token_def Let_def)
  moreover have "reliable (salted (tick w))" using assms(2) by simp
  ultimately show ?thesis
    using assms(2,3)
    by (simp add: create_password_reset_def create_password_reset_tx_def insert_tx_def
        find_exactly_one_tx_def bindE_def wrapE_def by_email_tx_run[OF assms(1)] lookup_result_def reliable_def
        rand_read_def Let_def pg_query_reliable flip: salted_def)
qed

lemma work_run:
  assumes "store_inv lower w" and "reliable w"
    and "user_by_email lower (tables w) (trim_space email) = Some u"
    and "\<forall>t \<in> set (password_reset_tokens (tables w)).
      t_token_hash t \<noteq> hash_reset_token sha (base64_encode (entropy w (rand_reads w)))"
  shows "\<exists>w'. work lower sha sndr base (PasswordResetEmailArgs email) w = (Inr (), w') \<and>
    tables w' = (tables w)\<lparr>password_reset_tokens := password_reset_tokens (tables w) @ [new_token sha w u]\<rparr> \<and>
    outbox w' = outbox w @ [reset_message email (reset_link base (base64_encode (entropy w (rand_reads w))))] \<and>
    reliable w' \<and> db_now w' = db_now w \<and> entropy w' = entropy w"
proof -
  let ?w1 = "add_token (new_token sha w u) (tick (salted (tick w)))"
  have r: "reliable ?w1" using assms(2) by (simp add: add_token_def reliable_def)
  have f: "tables ?w1 = (tables w)\<lparr>password_reset_tokens := password_reset_tokens (tables w) @ [new_token sha w u]\<rparr>"
    "outbox ?w1 = outbox w" "db_now ?w1 = db_now w" "entropy ?w1 = entropy w"
    by (simp_all add: add_token_def)
  let ?msg = "reset_message email (reset_link base (base64_encode (entropy w (rand_reads w))))"
  have "send sndr ?msg ?w1 = (Inr (), case sndr of LogSender \<Rightarrow> deliver ?msg ?w1 | SES _ \<Rightarrow> deliver ?msg (tick ?w1))"
    using r by (cases sndr) (simp_all add: log_send_def ses_send_def external_call_reliable wrapE_def)
  then have "work lower sha sndr base (PasswordResetEmailArgs email) w =
      (Inr (), case sndr of LogSender \<Rightarrow> deliver ?msg ?w1 | SES _ \<Rightarrow> deliver ?msg (tick ?w1))"
    by (simp add: create_password_reset_run[OF assms] bindE_def attempt_def)
  then show ?thesis
    using r f by (cases sndr) (auto simp: deliver_def reliable_def)
qed

lemma reset_in_tx_run:
  assumes "store_inv lower w" and "reliable w" and "validate_password pw = None"
    and "live_token sha w token = Some t" and "\<And>salt. \<exists>hash. CreateHash A pw salt = Inr hash"
  shows "\<exists>u w' hash salt. in_tx (pg_pool lower) (\<lambda>tx. reset_password_tx sha A build tx token pw) w = (Inr u, w') \<and>
    CreateHash A pw salt = Inr hash \<and> tables w' = reset_tables (t_user_id t) hash (db_now w) (tables w) \<and>
    outbox w' = outbox w \<and> store_inv lower w'"
proof -
  let ?w1 = "(tick w)\<lparr>snapshot := tables w\<rparr>"
  have w1: "store_inv lower ?w1" "reliable ?w1" "live_token sha ?w1 token = Some t"
    using assms(1,2,4) by (simp_all add: store_inv_def reliable_def live_token_def)
  obtain h where h: "CreateHash A pw (entropy ?w1 (rand_reads ?w1)) = Inr h" using assms(5) by blast
  obtain u w2 where r: "reset_password lower sha A build token pw ?w1 = (Inr u, w2)"
    using reset_password_run[OF w1(1,2) assms(3) w1(3) h] by blast
  from reset_password_Inr[OF w1(1) r] w1(3) obtain hash salt where
    f: "CreateHash A pw salt = Inr hash" "tables w2 = reset_tables (t_user_id t) hash (db_now w) (tables w)"
    by auto
  have inv: "store_inv lower w2" "fate w2 = fate w" using reset_password_keeps[OF w1(1) r] by simp_all
  have out: "keeps (\<lambda>w. outbox w = X) (reset_password_tx sha A build (conn lower) token pw)" for X
  proof -
    have "keeps (\<lambda>w. outbox w = X) (pg_query lower q)" "keeps (\<lambda>w. outbox w = X) (pg_exec lower q)" for q
      by (simp_all add: keeps_def pg_call_fields[OF snd_pg_query] pg_call_fields[OF snd_pg_exec])
    moreover have "keeps (\<lambda>w. outbox w = X) (hash_password A p)" for p
      by (auto simp: keeps_def hash_password_run split: option.split)
    ultimately show ?thesis
      unfolding reset_password_tx_def live_reset_token_tx_def by_id_tx_def by (intro keeps_intros) simp_all
  qed
  have "outbox w2 = outbox w"
    using keeps_run[OF out r[unfolded reset_password_def], of "outbox w"] by simp
  moreover have "in_tx (pg_pool lower) (\<lambda>tx. reset_password_tx sha A build tx token pw) w = (Inr u, tick w2)"
    using assms(2) r inv(2)
    by (simp add: in_tx_def bindE_def wrapE_def attempt_def pg_begin_def pg_commit_def next_call_eq reliable_def
        reset_password_def)
  ultimately show ?thesis using f inv(1) by (metis tick_fields(1,13) tick_inv)
qed

lemma reset_confirm_run:
  assumes "store_inv (lower_of P) (world_of c)" and "reliable (world_of c)" and "FormParse req = None"
    and "validate_password (FormValue req ''password'') = None"
    and "live_token (sha_of P) (world_of c) (FormValue req ''token'') = Some t"
    and "\<And>salt. \<exists>hash. CreateHash (argon P) (FormValue req ''password'') salt = Inr hash"
  shows "\<exists>c' hash salt. password_reset_confirm P req c = (Inr (), c') \<and>
    CreateHash (argon P) (FormValue req ''password'') salt = Inr hash \<and>
    tables (world_of c') = reset_tables (t_user_id t) hash (db_now (world_of c)) (tables (world_of c)) \<and>
    outbox (world_of c') = outbox (world_of c) \<and> store_inv (lower_of P) (world_of c')"
proof -
  obtain u w' hash salt where
    r: "in_tx (pg_pool (lower_of P)) (\<lambda>tx. reset_password_tx (sha_of P) (argon P) (build_sql P) tx
      (FormValue req ''token'') (FormValue req ''password'')) (world_of c) = (Inr u, w')"
    and f: "CreateHash (argon P) (FormValue req ''password'') salt = Inr hash"
    "tables w' = reset_tables (t_user_id t) hash (db_now (world_of c)) (tables (world_of c))"
    "outbox w' = outbox (world_of c)" "store_inv (lower_of P) w'"
    using reset_in_tx_run[OF assms(1,2,4,5,6)] by blast
  then show ?thesis
    using assms(3)
    by (auto simp: password_reset_confirm_def parse_form_def Let_def bindE_def attempt_def domain_def
        set_flash_run safe_redirect_run)
qed

subsection \<open>The whole recovery\<close>

definition visitor_post :: "'s app \<Rightarrow> string \<Rightarrow> request \<Rightarrow> bool" where
  "visitor_post P path req \<longleftrightarrow> Method req = ''POST'' \<and> Path req = path \<and> same_origin_request P req \<and>
     ContentLength req \<le> 2097152 \<and> FormParse req = None"

lemma find_snoc: "(\<forall>y \<in> set xs. \<not> Q y) \<Longrightarrow> Q x \<Longrightarrow> find Q (xs @ [x]) = Some x"
  by (induction xs) auto

lemma recent_attempts_rand: "recent_attempts (w\<lparr>rand_reads := n\<rparr>) = recent_attempts w"
  by (rule ext) (simp add: recent_attempts_def)

lemma serve_ask:
  assumes "store_inv (lower_of P) (world_of c)" and "reliable (world_of c)" and "visitor_post P ''/password-reset'' req"
    and "GetInt64 (sessions P) (session c) ''user_id'' = 0"
    and "recent_attempts (world_of c) (reset_key P req (trim_space (FormValue req ''email''))) < 5"
  shows "\<exists>w'. world_of (serve P req c) = w' \<and>
    session (serve P req c) = flashed (sessions P) ''ok'' [] reset_notice (session c) \<and>
    asked_world P req ((world_of c)\<lparr>rand_reads := Suc (rand_reads (world_of c))\<rparr>) w'"
proof -
  let ?c = "entered P req c"
  have v: "store_inv (lower_of P) (world_of ?c)" "reliable (world_of ?c)" "FormParse req = None"
    "recent_attempts (world_of ?c) (reset_key P req (trim_space (FormValue req ''email''))) < 5"
    using assms by (simp_all add: reliable_def visitor_post_def recent_attempts_rand)
  obtain w' where r: "password_reset_request P req ?c = (Inr (), (answered P ''ok'' reset_notice ''/signin'' ?c)\<lparr>world_of := w'\<rparr>)"
    "asked_world P req (world_of ?c) w'" using reset_request_run[OF v] by blast
  have "find_route req = Some ResetPost" using assms(3) by (simp add: visitor_post_def find_route_def routes_def)
  then obtain ls where "serve P req c =
      end_span (Inr ()) ((answered P ''ok'' reset_notice ''/signin'' ?c)\<lparr>world_of := w', web_log := ls\<rparr>)"
    using serve_visitor[of P req c ResetPost] assms(3,4) r(1) by (auto simp: visitor_post_def)
  with r(2) show ?thesis by (simp add: answered_def)
qed

lemma serve_confirm:
  assumes "store_inv (lower_of P) (world_of c)" and "reliable (world_of c)"
    and "visitor_post P ''/password-reset/confirm'' req" and "GetInt64 (sessions P) (session c) ''user_id'' = 0"
    and "validate_password (FormValue req ''password'') = None"
    and "live_token (sha_of P) (world_of c) (FormValue req ''token'') = Some t"
    and "\<And>salt. \<exists>hash. CreateHash (argon P) (FormValue req ''password'') salt = Inr hash"
  shows "\<exists>hash salt. CreateHash (argon P) (FormValue req ''password'') salt = Inr hash \<and>
    tables (world_of (serve P req c)) = reset_tables (t_user_id t) hash (db_now (world_of c)) (tables (world_of c)) \<and>
    outbox (world_of (serve P req c)) = outbox (world_of c) \<and> store_inv (lower_of P) (world_of (serve P req c))"
proof -
  let ?c = "entered P req c"
  have v: "store_inv (lower_of P) (world_of ?c)" "reliable (world_of ?c)" "FormParse req = None"
    "live_token (sha_of P) (world_of ?c) (FormValue req ''token'') = Some t"
    using assms by (simp_all add: reliable_def visitor_post_def live_token_def)
  obtain c' hash salt where r: "password_reset_confirm P req ?c = (Inr (), c')"
    and f: "CreateHash (argon P) (FormValue req ''password'') salt = Inr hash"
    "tables (world_of c') = reset_tables (t_user_id t) hash (db_now (world_of ?c)) (tables (world_of ?c))"
    "outbox (world_of c') = outbox (world_of ?c)" "store_inv (lower_of P) (world_of c')"
    using reset_confirm_run[OF v(1-3) assms(5) v(4) assms(7)] by blast
  have "find_route req = Some ConfirmPost" using assms(3) by (simp add: visitor_post_def find_route_def routes_def)
  then obtain ls where "serve P req c = end_span (Inr ()) (c'\<lparr>web_log := ls\<rparr>)"
    using serve_visitor[of P req c ConfirmPost] assms(3,4) r by (auto simp: visitor_post_def)
  with f show ?thesis by auto
qed

lemma recovery_steps:
  assumes "scs_contract (sessions P)" and "store_inv (lower_of P) (db st)" and "reliable (db st)"
    and "GetInt64 (sessions P) (jar st b) ''user_id'' = 0"
    and "visitor_post P ''/password-reset'' ask"
    and "recent_attempts (db st) (reset_key P ask (trim_space (FormValue ask ''email''))) < 5"
    and "user_by_email (lower_of P) (tables (db st)) (trim_space (FormValue ask ''email'')) = Some u"
    and "trim_space (u_email u) = u_email u" and "db_now (db st) < app_now (db st) + ResetTokenTTL"
    and "token = base64_encode (entropy (db st) (Suc (rand_reads (db st))))"
    and "\<forall>t \<in> set (password_reset_tokens (tables (db st))). t_token_hash t \<noteq> hash_reset_token (sha_of P) token"
    and "visitor_post P ''/password-reset/confirm'' conf" and "FormValue conf ''token'' = token"
    and "validate_password (FormValue conf ''password'') = None"
    and "\<And>salt. \<exists>hash. CreateHash (argon P) (FormValue conf ''password'') salt = Inr hash \<and>
      ComparePasswordAndHash (argon P) (FormValue conf ''password'') hash = Inr True"
  shows "\<exists>st' u'. run P sndr base st [Request b ask, Job (PasswordResetEmailArgs (u_email u)), Request b conf] st' \<and>
    outbox (db st') = outbox (db st) @ [reset_message (u_email u) (reset_link base token)] \<and>
    user_by_id (tables (db st')) (u_id u) = Some u' \<and>
    ComparePasswordAndHash (argon P) (FormValue conf ''password'') (u_password_hash u') = Inr True"
proof -
  note S = scs_laws[OF assms(1)]
  define c1 where "c1 = serve P ask (arrive st b [])"
  define st1 where "st1 = \<lparr>db = world_of c1, jar = (jar st)(b := session c1)\<rparr>"
  have step1: "step P sndr base st (Request b ask) st1"
    unfolding st1_def by (rule Served[OF c1_def])
  have ask: "session c1 = flashed (sessions P) ''ok'' [] reset_notice (jar st b)"
    "asked_world P ask ((db st)\<lparr>rand_reads := Suc (rand_reads (db st))\<rparr>) (db st1)"
    using serve_ask[of P "arrive st b []" ask] assms(2-6) by (simp_all add: c1_def st1_def)
  have w1: "users (tables (db st1)) = users (tables (db st))" "db_now (db st1) = db_now (db st)"
    "password_reset_tokens (tables (db st1)) = password_reset_tokens (tables (db st))"
    "PasswordResetEmailArgs (u_email u) \<in> set (enqueued (db st1))" "outbox (db st1) = outbox (db st)"
    "reliable (db st1)" "entropy (db st1) = entropy (db st)" "rand_reads (db st1) = Suc (rand_reads (db st))"
    "app_now (db st1) = app_now (db st)"
    using ask(2) assms(3,7) by (simp_all add: asked_world_def Let_def reliable_def user_by_email_def)
  have inv1: "store_inv (lower_of P) (db st1)"
    using serve_inv[of P "arrive st b []" ask] assms(2) by (simp add: c1_def st1_def)
  have u: "u \<in> set (users (tables (db st)))" using user_by_email_Some[OF assms(7)] by simp
  have found: "user_by_email (lower_of P) (tables (db st1)) (trim_space (u_email u)) = Some u"
    using user_by_email_mem[OF inv1, of u] u by (simp add: assms(8) w1)
  have fresh: "\<forall>t \<in> set (password_reset_tokens (tables (db st1))).
      t_token_hash t \<noteq> hash_reset_token (sha_of P) (base64_encode (entropy (db st1) (rand_reads (db st1))))"
    using assms(10,11) by (simp add: w1)
  obtain w2 where job: "work (lower_of P) (sha_of P) sndr base (PasswordResetEmailArgs (u_email u)) (db st1) = (Inr (), w2)"
    and w2: "tables w2 = (tables (db st1))\<lparr>password_reset_tokens := password_reset_tokens (tables (db st1)) @
        [new_token (sha_of P) (db st1) u]\<rparr>"
    "outbox w2 = outbox (db st) @ [reset_message (u_email u) (reset_link base token)]"
    "reliable w2" "db_now w2 = db_now (db st)"
    using work_run[OF inv1 w1(6) found fresh, of sndr base] assms(10) by (auto simp: w1)
  define st2 where "st2 = st1\<lparr>db := w2\<rparr>"
  have step2: "step P sndr base st1 (Job (PasswordResetEmailArgs (u_email u))) st2"
    unfolding st2_def by (rule Worked[OF w1(4) job])
  have inv2: "store_inv (lower_of P) (db st2)"
    using keeps_run[OF inv_world_ops(1) job inv1] by (simp add: st2_def)
  let ?t = "new_token (sha_of P) (db st1) u"
  have digest: "t_token_hash ?t = hash_reset_token (sha_of P) token" "live_at (db_now (db st)) ?t" "t_user_id ?t = u_id u"
    using assms(9,10) by (simp_all add: new_token_def w1 live_at_def)
  have live: "live_token (sha_of P) (db st2) (FormValue conf ''token'') = Some ?t"
    using assms(11,13) digest unfolding live_token_def
    by (simp add: st2_def w2 w1) (rule find_snoc, auto)
  have visitor: "GetInt64 (sessions P) (jar st2 b) ''user_id'' = 0"
    using assms(4) ask(1) by (simp add: st2_def st1_def flash_frame[OF assms(1)])
  define c3 where "c3 = serve P conf (arrive st2 b [])"
  define st3 where "st3 = \<lparr>db = world_of c3, jar = (jar st2)(b := session c3)\<rparr>"
  have step3: "step P sndr base st2 (Request b conf) st3"
    unfolding st3_def by (rule Served[OF c3_def])
  have all: "\<And>salt. \<exists>hash. CreateHash (argon P) (FormValue conf ''password'') salt = Inr hash"
    using assms(15) by blast
  have a: "store_inv (lower_of P) (world_of (arrive st2 b []))" "reliable (world_of (arrive st2 b []))"
    "GetInt64 (sessions P) (session (arrive st2 b [])) ''user_id'' = 0"
    "live_token (sha_of P) (world_of (arrive st2 b [])) (FormValue conf ''token'') = Some ?t"
    using inv2 w2(3) visitor live by (simp_all add: st2_def)
  obtain hash salt where h: "CreateHash (argon P) (FormValue conf ''password'') salt = Inr hash"
    and w3: "tables (db st3) = reset_tables (u_id u) hash (db_now (db st)) (tables (db st2))"
    "outbox (db st3) = outbox (db st2)" "store_inv (lower_of P) (db st3)"
    using serve_confirm[OF a(1,2) assms(12) a(3) assms(14) a(4) all] w2(4) digest(3)
    by (auto simp: c3_def st3_def st2_def)
  let ?u = "set_password (u_id u) hash (db_now (db st)) u"
  have "?u \<in> set (users (tables (db st3)))"
    using u by (simp add: w3 reset_tables_def st2_def w2 w1)
  from user_by_id_mem[OF w3(3) this] have u': "user_by_id (tables (db st3)) (u_id u) = Some ?u" by simp
  have "ComparePasswordAndHash (argon P) (FormValue conf ''password'') hash = Inr True"
    using h assms(15)[of salt] by auto
  moreover have "run P sndr base st ((([] @ [Request b ask]) @ [Job (PasswordResetEmailArgs (u_email u))]) @ [Request b conf]) st3"
    by (rule run.Next[OF run.Next[OF run.Next[OF run.Start step1] step2] step3])
  ultimately show ?thesis
    using u' w3(2) w2(2) by (intro exI[of _ st3] exI[of _ ?u]) (simp add: set_password_def st2_def)
qed

text \<open>
  C4: Whoever forgot a password can get in again: when calls work, a visitor who asks for a reset of an
  account, under the limit of requests, gets a mail at the account's address after the job is
  worked, and posting the token of its link with any acceptable password leaves the account with
  a hash that accepts that password.
\<close>

theorem recovery_completes:
  assumes "scs_contract (sessions P)" and "store_inv (lower_of P) (db st)" and "reliable (db st)"
    and "GetInt64 (sessions P) (jar st b) ''user_id'' = 0"
    and "visitor_post P ''/password-reset'' ask"
    and "recent_attempts (db st) (reset_key P ask (trim_space (FormValue ask ''email''))) < 5"
    and "user_by_email (lower_of P) (tables (db st)) (trim_space (FormValue ask ''email'')) = Some u"
    and "trim_space (u_email u) = u_email u" and "db_now (db st) < app_now (db st) + ResetTokenTTL"
    and "token = base64_encode (entropy (db st) (Suc (rand_reads (db st))))"
    and "\<forall>t \<in> set (password_reset_tokens (tables (db st))). t_token_hash t \<noteq> hash_reset_token (sha_of P) token"
    and "visitor_post P ''/password-reset/confirm'' conf" and "FormValue conf ''token'' = token"
    and "validate_password (FormValue conf ''password'') = None"
    and "\<And>salt. \<exists>hash. CreateHash (argon P) (FormValue conf ''password'') salt = Inr hash \<and>
      ComparePasswordAndHash (argon P) (FormValue conf ''password'') hash = Inr True"
  shows "\<exists>st' u'. run P sndr base st [Request b ask, Job (PasswordResetEmailArgs (u_email u)), Request b conf] st' \<and>
    outbox (db st') = outbox (db st) @ [reset_message (u_email u) (reset_link base token)] \<and>
    user_by_id (tables (db st')) (u_id u) = Some u' \<and>
    ComparePasswordAndHash (argon P) (FormValue conf ''password'') (u_password_hash u') = Inr True"
  by (rule recovery_steps[OF assms])

text \<open>The demo user forgets the password.\<close>

definition ask_ada :: request where
  "ask_ada = demo_request\<lparr>Method := ''POST'', Path := ''/password-reset'',
     Header := (\<lambda>h. if h = ''Sec-Fetch-Site'' then ''same-origin'' else []),
     FormValue := (\<lambda>k. ''ada@example.com'')\<rparr>"

definition mailed_token :: string where
  "mailed_token = base64_encode (replicate 32 (chr 1))"

definition confirm_ada :: request where
  "confirm_ada = demo_request\<lparr>Method := ''POST'', Path := ''/password-reset/confirm'',
     Header := (\<lambda>h. if h = ''Sec-Fetch-Site'' then ''same-origin'' else []),
     FormValue := (\<lambda>k. if k = ''token'' then mailed_token else ''new-password'')\<rparr>"

lemma ada_posts:
  "visitor_post demo_app ''/password-reset'' ask_ada" "visitor_post demo_app ''/password-reset/confirm'' confirm_ada"
  "FormValue ask_ada k = ''ada@example.com''" "FormValue confirm_ada ''token'' = mailed_token"
  "FormValue confirm_ada ''password'' = ''new-password''"
  by (simp_all add: visitor_post_def ask_ada_def confirm_ada_def demo_request_def same_origin_request_def)

lemma demo_site_ok:
  "store_inv (lower_of demo_app) (db demo_site)" "reliable (db demo_site)"
  "GetInt64 (sessions demo_app) (jar demo_site b) ''user_id'' = 0"
  "recent_attempts (db demo_site) k = 0"
  "user_by_email (lower_of demo_app) (tables (db demo_site)) (trim_space ''ada@example.com'') = Some ada"
  "trim_space (u_email ada) = u_email ada" "db_now (db demo_site) < app_now (db demo_site) + ResetTokenTTL"
  "mailed_token = base64_encode (entropy (db demo_site) (Suc (rand_reads (db demo_site))))"
  "password_reset_tokens (tables (db demo_site)) = []" "enqueued (db demo_site) = []"
  "users (tables (db demo_site)) = [ada]"
proof -
  show "trim_space (u_email ada) = u_email ada"
    by (rule trim_space_visible) (simp add: ada_def visible_def)
qed (simp_all add: demo_site_def demo_world_inv demo_app_def mem_scs_def recent_attempts_def empty_tables_def
    ResetTokenTTL_def mailed_token_def user_by_email_def ada_def)

lemma demo_outbox: "outbox (db demo_site) = []"
  by (simp add: demo_site_def)

lemma demo_app_argon: "argon demo_app = demo_argon2id"
  by (simp add: demo_app_def)

lemma demo_hash: "\<exists>hash. CreateHash (argon demo_app) p salt = Inr hash \<and> ComparePasswordAndHash (argon demo_app) p hash = Inr True"
  using demo_argon2id_contract by (auto simp: argon2id_contract_def demo_argon2id_def)

theorem recovery_completes_witness:
  "\<exists>st' u'. run demo_app (SES ''mail@app'') ''https://app'' demo_site
      [Request 1 ask_ada, Job (PasswordResetEmailArgs (u_email ada)), Request 1 confirm_ada] st' \<and>
    outbox (db st') = [reset_message (u_email ada) (reset_link ''https://app'' mailed_token)] \<and>
    user_by_id (tables (db st')) (u_id ada) = Some u' \<and>
    ComparePasswordAndHash demo_argon2id ''new-password'' (u_password_hash u') = Inr True"
proof -
  have "FormValue confirm_ada ''password'' = ''new-password''" by (rule ada_posts)
  then show ?thesis
    using recovery_completes[where P = demo_app and st = demo_site and b = 1 and ask = ask_ada and conf = confirm_ada
      and u = ada and token = mailed_token and sndr = "SES ''mail@app''" and base = "''https://app''", OF demo_app_sessions
      demo_site_ok(1-3) ada_posts(1) _ _ demo_site_ok(6-8) _ ada_posts(2,4) _ _]
      ada_posts(3) demo_site_ok(4,5,9) new_password_ok demo_hash demo_outbox
    by (simp add: demo_app_argon)
qed

text \<open>
  C2: Only the owner's mailbox can change a password.  In every run of the application, from a state
  with no reset under way, if the stored hash of an account is no longer what it was, then it is
  argon2's hash of a password that was posted to \<open>/password-reset/confirm\<close> with a token whose digest
  is stored for that very account; the job that issued tokens to the account was the one for an
  address which is the account's up to case, and it was queued because somebody asked for that
  address at \<open>/password-reset\<close>.
\<close>

theorem password_change_traced:
  assumes "scs_contract (sessions P)" and "store_inv (lower_of P) (db st)"
    and "\<forall>b. GetInt64 (sessions P) (jar st b) ''user_id'' = 0"
    and "password_reset_tokens (tables (db st)) = []" and "enqueued (db st) = []"
    and "run P sndr base st es st'"
    and "u0 \<in> set (users (tables (db st)))" and "u \<in> set (users (tables (db st')))"
    and "u_id u = u_id u0" and "u_password_hash u \<noteq> u_password_hash u0"
  shows "\<exists>b req salt t e b' req'.
    Request b req \<in> set es \<and> Method req = ''POST'' \<and> Path req = ''/password-reset/confirm'' \<and>
    CreateHash (argon P) (FormValue req ''password'') salt = Inr (u_password_hash u) \<and>
    t \<in> set (password_reset_tokens (tables (db st'))) \<and> t_user_id t = u_id u \<and>
    t_token_hash t = hash_reset_token (sha_of P) (FormValue req ''token'') \<and>
    Job (PasswordResetEmailArgs e) \<in> set es \<and> lower_of P (u_email u) = lower_of P (trim_space e) \<and>
    Request b' req' \<in> set es \<and> Method req' = ''POST'' \<and> Path req' = ''/password-reset'' \<and>
    lower_of P e = lower_of P (trim_space (FormValue req' ''email''))"
proof -
  let ?T = "tables (db st')"
  have start: "site_inv P [] st" using assms(2,3) by (simp add: site_inv_def proven_def login_def)
  have inv: "store_inv (lower_of P) (db st')"
    using site_inv_run[OF assms(6,1) start] by (simp add: site_inv_def)
  have r: "recovery_inv P (users (tables (db st))) es (users ?T, password_reset_tokens ?T, enqueued (db st'), db_now (db st'))"
    using recovery_run[OF assms(6,1) start assms(4,5)] by (simp add: vault_def)
  have unique: "h = u_password_hash u0" if "(u_id u0, h) \<in> hashes (users (tables (db st)))" for h
  proof -
    from that obtain u1 where u1: "u1 \<in> set (users (tables (db st)))" "u_id u1 = u_id u0" "u_password_hash u1 = h"
      by (auto simp: hashes_def)
    from user_by_id_mem[OF assms(2) u1(1), unfolded u1(2)] user_by_id_mem[OF assms(2,7)] have "u1 = u0" by simp
    with u1 show ?thesis by simp
  qed
  have now: "(u_id u, u_password_hash u) \<in> hashes (users ?T)"
    unfolding hashes_def by (rule imageI[OF assms(8)])
  have old: "u_id u \<in> fst ` hashes (users (tables (db st)))"
    using assms(7,9) by (simp add: hashes_def image_image)
  have "redeemed P (set es) (digests (password_reset_tokens ?T)) (u_id u) (u_password_hash u)"
  proof -
    have "(u_id u, u_password_hash u) \<in> hashes (users (tables (db st))) \<or>
        redeemed P (set es) (digests (password_reset_tokens ?T)) (u_id u) (u_password_hash u)"
      by (rule explainedD(2)[OF r[unfolded recovery_inv.simps] now old])
    with unique assms(9,10) show ?thesis by auto
  qed
  then obtain b req salt where c: "Request b req \<in> set es" "Method req = ''POST''"
    "Path req = ''/password-reset/confirm''"
    "CreateHash (argon P) (FormValue req ''password'') salt = Inr (u_password_hash u)"
    and d: "(u_id u, hash_reset_token (sha_of P) (FormValue req ''token'')) \<in> digests (password_reset_tokens ?T)"
    unfolding redeemed_def by blast
  from d obtain t where t: "t \<in> set (password_reset_tokens ?T)" "t_user_id t = u_id u"
    "t_token_hash t = hash_reset_token (sha_of P) (FormValue req ''token'')" by auto
  have "issued P (set es) (accts (users ?T)) (u_id u)"
    by (rule explainedD(1)[OF r[unfolded recovery_inv.simps] d])
  then obtain e m where i: "Job (PasswordResetEmailArgs e) \<in> set es" "asked P (set es) (accts (users ?T)) e"
    "(u_id u, m) \<in> accts (users ?T)" "lower_of P m = lower_of P (trim_space e)"
    unfolding issued_def by blast
  from i(3) obtain v where v: "v \<in> set (users ?T)" "u_id v = u_id u" "u_email v = m" by auto
  from user_by_id_mem[OF inv v(1), unfolded v(2)] user_by_id_mem[OF inv assms(8)] have "v = u" by simp
  with v(3) have m: "m = u_email u" by simp
  from i(2) obtain b' req' where a: "Request b' req' \<in> set es" "Method req' = ''POST''"
    "Path req' = ''/password-reset''" "lower_of P e = lower_of P (trim_space (FormValue req' ''email''))"
    unfolding asked_def by blast
  show ?thesis
    using c t i(1) i(4)[unfolded m] a
    by (intro exI[of _ b] exI[of _ req] exI[of _ salt] exI[of _ t] exI[of _ e] exI[of _ b'] exI[of _ req']) simp
qed

theorem password_change_traced_witness:
  "\<exists>st' u'. run demo_app (SES ''mail@app'') ''https://app'' demo_site
      [Request 1 ask_ada, Job (PasswordResetEmailArgs (u_email ada)), Request 1 confirm_ada] st' \<and>
    u' \<in> set (users (tables (db st'))) \<and> u_password_hash u' \<noteq> u_password_hash ada \<and>
    (\<exists>t \<in> set (password_reset_tokens (tables (db st'))). t_user_id t = 1)"
proof -
  obtain st' u' where r: "run demo_app (SES ''mail@app'') ''https://app'' demo_site
      [Request 1 ask_ada, Job (PasswordResetEmailArgs (u_email ada)), Request 1 confirm_ada] st'"
    and u: "user_by_id (tables (db st')) (u_id ada) = Some u'"
    and c: "ComparePasswordAndHash (argon demo_app) ''new-password'' (u_password_hash u') = Inr True"
    using recovery_steps[where P = demo_app and st = demo_site and b = 1 and ask = ask_ada and conf = confirm_ada
      and u = ada and token = mailed_token and sndr = "SES ''mail@app''" and base = "''https://app''", OF demo_app_sessions
      demo_site_ok(1-3) ada_posts(1) _ _ demo_site_ok(6-8) _ ada_posts(2,4) _ _]
      ada_posts(3,5) demo_site_ok(4,5,9) new_password_ok demo_hash
    by auto
  have "ComparePasswordAndHash (argon demo_app) ''new-password'' (u_password_hash ada) \<noteq> Inr True"
    by (simp add: demo_app_argon demo_compare)
  then have d: "u_password_hash u' \<noteq> u_password_hash ada" using c by auto
  have u': "u' \<in> set (users (tables (db st')))" "u_id u' = u_id ada" using user_by_id_Some[OF u] by simp_all
  have a: "ada \<in> set (users (tables (db demo_site)))" by (simp add: demo_site_ok)
  from password_change_traced[OF demo_app_sessions demo_site_ok(1) _ demo_site_ok(9,10) r a u' d]
  have "\<exists>t \<in> set (password_reset_tokens (tables (db st'))). t_user_id t = 1"
    using demo_site_ok(3) u'(2) by (auto simp: ada_def)
  with r u' d show ?thesis by blast
qed

end
