(* ===== verification/Conngen.thy ===== *)
theory Conngen
  imports Go_Errors Go_Strings "HOL-Library.Char_ord" "HOL-Library.List_Lexorder" "HOL-Library.Multiset" Prelude
begin

text \<open>
  The generator \<open>cmd/conngen\<close>: for every function \<open>FooTx(ctx, tx db.Queryable, ...)\<close> of a package it
  writes \<open>Foo(ctx, ...)\<close>, which calls \<open>FooTx\<close> with \<open>db.Conn\<close>.  The part of \<open>go/ast\<close> it looks at is the
  datatypes below; the forms of type expressions it only prints are a few constructors and
  \<open>Verbatim\<close>.  \<open>imports.Process\<close> is a parameter, the disk a map of the files it may write.
\<close>

subsection \<open>Syntax\<close>

datatype expr =
    Ident string
  | SelectorExpr expr string
  | StarExpr expr
  | Ellipsis expr
  | ArrayType expr
  | Verbatim string

fun print_expr :: "expr \<Rightarrow> string" where
  "print_expr (Ident n) = n"
| "print_expr (SelectorExpr x n) = print_expr x @ ''.'' @ n"
| "print_expr (StarExpr x) = ''*'' @ print_expr x"
| "print_expr (Ellipsis x) = ''...'' @ print_expr x"
| "print_expr (ArrayType x) = ''[]'' @ print_expr x"
| "print_expr (Verbatim s) = s"

record field =
  Names :: "string list"
  Type :: expr

record func_decl =
  Name :: string
  Recv :: "field list"
  TypeParams :: "field list"
  Params :: "field list"
  Results :: "field list"

datatype spec = TypeSpec string | ValueSpec "string list" | ImportSpec

datatype decl = FuncDecl func_decl | GenDecl "spec list"

record import_spec =
  ImportName :: "string option"
  ImportPath :: string

record go_file =
  Filename :: string
  Imports :: "import_spec list"
  Decls :: "decl list"

record package =
  PkgName :: string
  Files :: "go_file list"

definition path_base :: "string \<Rightarrow> string" where
  "path_base p = last (split_on CHR ''/'' p)"

definition path_dir :: "string \<Rightarrow> string" where
  "path_dir p = join ''/'' (butlast (split_on CHR ''/'' p))"

definition is_exported :: "string \<Rightarrow> bool" where
  "is_exported n \<longleftrightarrow> n \<noteq> [] \<and> hd n \<in> set ''ABCDEFGHIJKLMNOPQRSTUVWXYZ''"

subsection \<open>The generator\<close>

definition gen_file_name :: string where
  "gen_file_name = ''conn.gen.go''"

definition hand_written :: "go_file \<Rightarrow> bool" where
  "hand_written f \<longleftrightarrow> path_base (Filename f) \<noteq> gen_file_name"

definition trim_quotes :: "string \<Rightarrow> string" where
  "trim_quotes s = rev (dropWhile (\<lambda>c. c = CHR 0x22) (rev (dropWhile (\<lambda>c. c = CHR 0x22) s)))"

fun import_path :: "import_spec list \<Rightarrow> string \<Rightarrow> string" where
  "import_path [] local = []"
| "import_path (i # is) local =
     (let path = trim_quotes (ImportPath i);
          name = (case ImportName i of Some n \<Rightarrow> n | None \<Rightarrow> path_base path) in
      if name = local then path else import_path is local)"

fun is_queryable :: "go_file \<Rightarrow> string \<Rightarrow> expr \<Rightarrow> bool" where
  "is_queryable file pkg (Ident n) = (pkg = ''db'' \<and> n = ''Queryable'')"
| "is_queryable file pkg (SelectorExpr (Ident x) sel) =
     (sel = ''Queryable'' \<and> has_suffix (import_path (Imports file) x) ''/db'')"
| "is_queryable file pkg _ = False"

fun queryable_field_from :: "nat \<Rightarrow> go_file \<Rightarrow> string \<Rightarrow> field list \<Rightarrow> nat option" where
  "queryable_field_from i file pkg [] = None"
| "queryable_field_from i file pkg (f # fs) =
     (if is_queryable file pkg (Type f)
      then (if length (Names f) \<noteq> 1 then None else Some i)
      else queryable_field_from (Suc i) file pkg fs)"

definition queryable_field :: "go_file \<Rightarrow> string \<Rightarrow> func_decl \<Rightarrow> nat option" where
  "queryable_field file pkg fn = queryable_field_from 0 file pkg (Params fn)"

fun spec_declares :: "string \<Rightarrow> spec \<Rightarrow> bool" where
  "spec_declares name (TypeSpec n) = (n = name)"
| "spec_declares name (ValueSpec ns) = (name \<in> set ns)"
| "spec_declares name ImportSpec = False"

fun decl_declares :: "string \<Rightarrow> decl \<Rightarrow> bool" where
  "decl_declares name (FuncDecl d) = (Recv d = [] \<and> Name d = name)"
| "decl_declares name (GenDecl specs) = list_ex (spec_declares name) specs"

definition declares_top_level :: "package \<Rightarrow> string \<Rightarrow> bool" where
  "declares_top_level pkg name =
     list_ex (\<lambda>f. list_ex (decl_declares name) (Decls f)) (filter hand_written (Files pkg))"

definition already_defined :: "package \<Rightarrow> string \<Rightarrow> bool" where
  "already_defined pkg name = declares_top_level pkg name"

definition conn_expr :: "package \<Rightarrow> string" where
  "conn_expr pkg = (if declares_top_level pkg ''Conn'' then ''Conn'' else ''db.Conn'')"

definition comma :: string where "comma = '', ''"

fun print_fields_from :: "nat \<Rightarrow> nat \<Rightarrow> field list \<Rightarrow> string list" where
  "print_fields_from i skip [] = []"
| "print_fields_from i skip (f # fs) =
     (if i = skip then [] else [join comma (Names f) @ '' '' @ print_expr (Type f)]) @
     print_fields_from (Suc i) skip fs"

definition print_fields :: "field list \<Rightarrow> nat \<Rightarrow> string" where
  "print_fields fs skip = join comma (print_fields_from 0 skip fs)"

definition print_results :: "field list \<Rightarrow> string" where
  "print_results fs =
     (if fs = [] then []
      else let parts = concat (map (\<lambda>f. replicate (max (length (Names f)) 1) (print_expr (Type f))) fs) in
        if length parts = 1 then '' '' @ hd parts else '' ('' @ join comma parts @ '')'')"

definition print_type_params :: "field list \<Rightarrow> string \<times> string" where
  "print_type_params fs =
     (if fs = [] then ([], [])
      else (''['' @ join comma (map (\<lambda>f. join comma (Names f) @ '' '' @ print_expr (Type f)) fs) @ '']'',
            ''['' @ join comma (concat (map Names fs)) @ '']''))"

fun is_ellipsis :: "expr \<Rightarrow> bool" where
  "is_ellipsis (Ellipsis _) = True"
| "is_ellipsis _ = False"

fun call_args_from :: "nat \<Rightarrow> nat \<Rightarrow> string \<Rightarrow> field list \<Rightarrow> string list" where
  "call_args_from i tx conn [] = []"
| "call_args_from i tx conn (f # fs) =
     (if i = tx then [conn]
      else map (\<lambda>n. if is_ellipsis (Type f) then n @ ''...'' else n) (Names f)) @
     call_args_from (Suc i) tx conn fs"

definition call_args :: "func_decl \<Rightarrow> nat \<Rightarrow> string \<Rightarrow> string list" where
  "call_args fn tx conn = call_args_from 0 tx conn (Params fn)"

definition nl :: string where "nl = [CHR 0x0A]"
definition tab :: string where "tab = [CHR 0x09]"

definition render :: "package \<Rightarrow> func_decl \<Rightarrow> nat \<Rightarrow> gerr + string" where
  "render pkg fn tx =
     (let bare = trim_suffix (Name fn) ''Tx'' in
      if already_defined pkg bare
      then Inl (External (bare @ '' already hand-written; delete it so conngen can own it''))
      else
        let params = print_fields (Params fn) tx;
            results = print_results (Results fn);
            (type_params, type_args) = print_type_params (TypeParams fn);
            args = call_args fn tx (conn_expr pkg) in
        Inr (''// '' @ bare @ '' is the direct db.Conn variant of '' @ Name fn @ ''.'' @ nl @
             ''func '' @ bare @ type_params @ ''('' @ params @ '')'' @ results @ '' {'' @ nl @
             tab @ ''return '' @ Name fn @ type_args @ ''('' @ join comma args @ '')'' @ nl @ ''}'' @ nl))"

record variant =
  v_name :: string
  v_src :: string

fun decl_variants :: "package \<Rightarrow> go_file \<Rightarrow> decl list \<Rightarrow> gerr + variant list" where
  "decl_variants pkg file [] = Inr []"
| "decl_variants pkg file (GenDecl _ # ds) = decl_variants pkg file ds"
| "decl_variants pkg file (FuncDecl fn # ds) =
     (if Recv fn \<noteq> [] \<or> \<not> is_exported (Name fn) then decl_variants pkg file ds
      else if \<not> has_suffix (Name fn) ''Tx'' then decl_variants pkg file ds
      else case queryable_field file (PkgName pkg) fn of
        None \<Rightarrow> decl_variants pkg file ds
      | Some tx \<Rightarrow>
          (case render pkg fn tx of
             Inl err \<Rightarrow> Inl (errorf (''rendering '' @ Name fn @ '': '') err)
           | Inr src \<Rightarrow>
               (case decl_variants pkg file ds of
                  Inl err \<Rightarrow> Inl err
                | Inr vs \<Rightarrow> Inr (\<lparr>v_name = Name fn, v_src = src\<rparr> # vs))))"

fun file_variants :: "package \<Rightarrow> go_file list \<Rightarrow> gerr + variant list" where
  "file_variants pkg [] = Inr []"
| "file_variants pkg (f # fs) =
     (if \<not> hand_written f then file_variants pkg fs
      else case decl_variants pkg f (Decls f) of
        Inl err \<Rightarrow> Inl err
      | Inr vs \<Rightarrow>
          (case file_variants pkg fs of Inl err \<Rightarrow> Inl err | Inr ws \<Rightarrow> Inr (vs @ ws)))"

definition gen_text :: "string \<Rightarrow> variant list \<Rightarrow> string" where
  "gen_text pkg vs =
     ''// Code generated by conngen. DO NOT EDIT.'' @ nl @ nl @
     ''// Direct db.Conn variants of this package'' @ [CHR 0x27] @ ''s *Tx functions.'' @ nl @ nl @
     ''package '' @ pkg @ nl @ nl @ concat (map (\<lambda>v. v_src v @ nl) (sort_key v_name vs))"

text \<open>
  The files on disk, and what the operating system refuses: to remove a file, to open one for writing, or,
  once \<open>os.WriteFile\<close> has truncated it, to take more than the first bytes.
\<close>

datatype write_error = Not_Opened string | Cut_Short string nat

record disk =
  contents :: "string \<rightharpoonup> string"
  unremovable :: "string \<Rightarrow> string option"
  unwritable :: "string \<Rightarrow> write_error option"

definition write_file :: "string \<Rightarrow> string \<Rightarrow> disk \<Rightarrow> (gerr + unit) \<times> disk" where
  "write_file path bytes d =
     (case unwritable d path of
        Some (Not_Opened m) \<Rightarrow> (Inl (External m), d)
      | Some (Cut_Short m n) \<Rightarrow> (Inl (External m), d\<lparr>contents := (contents d)(path \<mapsto> take n bytes)\<rparr>)
      | None \<Rightarrow> (Inr (), d\<lparr>contents := (contents d)(path \<mapsto> bytes)\<rparr>))"

definition remove_stale :: "string \<Rightarrow> disk \<Rightarrow> (gerr + unit) \<times> disk" where
  "remove_stale dir d =
     (let path = dir @ ''/'' @ gen_file_name in
      if contents d path = None then (Inr (), d)
      else case unremovable d path of
        Some m \<Rightarrow> (Inl (errorf (''removing stale '' @ path @ '': '') (External m)), d)
      | None \<Rightarrow> (Inr (), d\<lparr>contents := (contents d)(path := None)\<rparr>))"

definition dir_of :: "package \<Rightarrow> string" where
  "dir_of pkg = path_dir (Filename (hd (Files pkg)))"

definition generate :: "(string \<Rightarrow> gerr + string) \<Rightarrow> package \<Rightarrow> disk \<Rightarrow> (gerr + unit) \<times> disk" where
  "generate process pkg d =
     (case file_variants pkg (Files pkg) of
        Inl err \<Rightarrow> (Inl err, d)
      | Inr [] \<Rightarrow> remove_stale (dir_of pkg) d
      | Inr vs \<Rightarrow>
          (let path = dir_of pkg @ ''/'' @ gen_file_name; buf = gen_text (PkgName pkg) vs in
           case process buf of
             Inl err \<Rightarrow> (Inl (Wrap (''resolving imports ('' @ path @ ''): '') err (nl @ buf)), d)
           | Inr out \<Rightarrow> wrapE (errorf (''writing '' @ path @ '': '')) (write_file path out) d))"

text \<open>\<open>main\<close>: the packages one after another, up to the first failure; a package without files is skipped.\<close>

fun generate_all :: "(string \<Rightarrow> gerr + string) \<Rightarrow> package list \<Rightarrow> disk \<Rightarrow> (gerr + unit) \<times> disk" where
  "generate_all process [] d = (Inr (), d)"
| "generate_all process (pkg # pkgs) d =
     (if Files pkg = [] then generate_all process pkgs d
      else case generate process pkg d of
        (Inl err, d') \<Rightarrow> (Inl err, d')
      | (Inr _, d') \<Rightarrow> generate_all process pkgs d')"

subsection \<open>What the generated call passes on\<close>

definition pass_on :: "field \<Rightarrow> string list" where
  "pass_on f = map (\<lambda>n. if is_ellipsis (Type f) then n @ ''...'' else n) (Names f)"

lemma call_args_from_eq:
  "i \<le> tx \<Longrightarrow> tx - i < length fs \<Longrightarrow> call_args_from i tx conn fs =
     concat (map pass_on (take (tx - i) fs)) @ [conn] @ concat (map pass_on (drop (Suc (tx - i)) fs))"
proof (induction fs arbitrary: i)
  case (Cons f fs)
  have after: "call_args_from j tx conn gs = concat (map pass_on gs)" if "tx < j" for j gs
    using that by (induction gs arbitrary: j) (auto simp: pass_on_def)
  show ?case
  proof (cases "i = tx")
    case True
    then show ?thesis by (simp add: after)
  next
    case False
    with Cons.prems have "Suc i \<le> tx" "tx - Suc i < length fs" "tx - i = Suc (tx - Suc i)" by auto
    with Cons.IH[of "Suc i"] False show ?thesis by (simp add: pass_on_def)
  qed
qed simp

definition wrapper_params :: "func_decl \<Rightarrow> nat \<Rightarrow> field list" where
  "wrapper_params fn tx = take tx (Params fn) @ drop (Suc tx) (Params fn)"

definition names_of :: "field list \<Rightarrow> string list" where
  "names_of fs = concat (map Names fs)"

text \<open>For every parameter whether it is variadic.\<close>

definition variadic :: "field list \<Rightarrow> bool list" where
  "variadic fs = concat (map (\<lambda>f. map (\<lambda>_. is_ellipsis (Type f)) (Names f)) fs)"

lemma names_of_simps [simp]:
  "names_of [] = []" "names_of (f # fs) = Names f @ names_of fs" "names_of (fs @ gs) = names_of fs @ names_of gs"
  by (simp_all add: names_of_def)

lemma variadic_simps [simp]:
  "variadic [] = []" "variadic (f # fs) = map (\<lambda>_. is_ellipsis (Type f)) (Names f) @ variadic fs"
  "variadic (fs @ gs) = variadic fs @ variadic gs"
  by (simp_all add: variadic_def)

lemma length_variadic: "length (variadic fs) = length (names_of fs)"
  by (induction fs) simp_all

text \<open>
  Go's calls: the parameter list binds the arguments one by one; the variadic one, the last, is the slice that
  is spread (\<open>xs...\<close>), or a new slice of the arguments that are left.  A slice passed without the dots is
  one element of that new slice.
\<close>

datatype 'v go_val = Atom 'v | Slice "'v go_val list"
datatype 'v arg = Plain "'v go_val" | Spread "'v go_val"

fun plain_values :: "'v arg list \<Rightarrow> 'v go_val list option" where
  "plain_values [] = Some []"
| "plain_values (Plain v # as) = map_option ((#) v) (plain_values as)"
| "plain_values (Spread _ # _) = None"

fun go_bind :: "bool list \<Rightarrow> 'v arg list \<Rightarrow> 'v go_val list option" where
  "go_bind [] [] = Some []"
| "go_bind (False # ps) (Plain v # as) = map_option ((#) v) (go_bind ps as)"
| "go_bind [True] [Spread (Slice vs)] = Some [Slice vs]"
| "go_bind [True] as = map_option (\<lambda>vs. [Slice vs]) (plain_values as)"
| "go_bind _ _ = None"

text \<open>The text of an argument within the wrapper: the pool, a variable, or a variable that is spread.\<close>

definition eval_arg :: "string \<Rightarrow> 'v go_val \<Rightarrow> (string \<rightharpoonup> 'v go_val) \<Rightarrow> string \<Rightarrow> 'v arg option" where
  "eval_arg conn pool env a =
     (if a = conn then Some (Plain pool)
      else if has_suffix a ''...'' then map_option Spread (env (trim_suffix a ''...''))
      else map_option Plain (env a))"

definition passed :: "bool \<Rightarrow> 'v go_val \<Rightarrow> 'v arg" where
  "passed b v = (if b then Spread v else Plain v)"

lemma eval_pass_on:
  assumes "\<forall>n \<in> set (names_of fs). CHR ''.'' \<notin> set n" and "conn \<notin> set (names_of fs)"
    and "conn = ''Conn'' \<or> conn = ''db.Conn''" and "map env (names_of fs) = map Some vs"
  shows "map (eval_arg conn pool env) (concat (map pass_on fs)) = map Some (map2 passed (variadic fs) vs)"
  using assms
proof (induction fs arbitrary: vs)
  case (Cons f fs)
  let ?k = "length (Names f)"
  from Cons.prems(4) have vs: "map env (Names f) = map Some (take ?k vs)" "map env (names_of fs) = map Some (drop ?k vs)"
    by (simp_all add: append_eq_conv_conj take_map drop_map)
  have one: "eval_arg conn pool env (if b then n @ ''...'' else n) = map_option (passed b) (env n)"
    if "n \<in> set (Names f)" for n b
  proof -
    have dot: "CHR ''.'' \<notin> set n" using Cons.prems(1) that by simp
    then have "\<not> has_suffix n ''...''" by (auto simp: has_suffix_iff)
    moreover have "n \<noteq> conn" "n @ ''...'' \<noteq> conn" using Cons.prems(2,3) that by auto
    ultimately
    show ?thesis
      by (cases "env n") (auto simp: eval_arg_def passed_def trim_suffix_append has_suffix_iff)
  qed
  let ?b = "is_ellipsis (Type f)"
  have "map (eval_arg conn pool env) (pass_on f) = map (map_option (passed ?b)) (map env (Names f))"
    using one by (simp add: pass_on_def)
  also have "\<dots> = map Some (map (passed ?b) (take ?k vs))" by (simp add: vs(1))
  also have "map (passed ?b) (take ?k vs) = map2 passed (map (\<lambda>_. ?b) (Names f)) (take ?k vs)"
  proof -
    have "length (take ?k vs) = ?k" using arg_cong[OF vs(1), of length] by simp
    then show ?thesis by (intro nth_equalityI) simp_all
  qed
  finally have head: "map (eval_arg conn pool env) (pass_on f) =
      map Some (map2 passed (map (\<lambda>_. ?b) (Names f)) (take ?k vs))" .
  have len: "length (take ?k vs) = ?k" using arg_cong[OF vs(1), of length] by simp
  have "map2 passed (variadic (f # fs)) vs =
      map2 passed (map (\<lambda>_. ?b) (Names f)) (take ?k vs) @ map2 passed (variadic fs) (drop ?k vs)"
    using zip_append[of "map (\<lambda>_. ?b) (Names f)" "take ?k vs" "variadic fs" "drop ?k vs"] len by simp
  with head Cons.IH[of "drop ?k vs"] Cons.prems(1-3) vs(2) show ?case by simp
qed simp

lemma go_bind_passed:
  assumes "list_all2 (\<lambda>b v. b \<longrightarrow> (\<exists>xs. v = Slice xs)) bs vs" and "\<forall>b \<in> set (butlast bs). \<not> b"
  shows "go_bind bs (map2 passed bs vs) = Some vs"
  using assms
proof (induction bs vs rule: list_all2_induct)
  case (Cons b bs v vs)
  then show ?case
    by (cases b; cases bs) (auto simp: passed_def split: if_splits)
qed simp

lemma map_env_zip:
  "distinct ns \<Longrightarrow> length ns = length vs \<Longrightarrow> map (map_of (zip ns vs)) ns = map Some vs"
  by (simp add: list_eq_iff_nth_eq map_of_zip_nth)

text \<open>
  The function of the name \<open>bare\<close> with the parameters \<open>ps\<close> whose body is a call of \<open>fn\<close> with \<open>args\<close>; it
  has \<open>fn\<close>'s type parameters, instantiates \<open>fn\<close> with them, and returns \<open>fn\<close>'s results.
\<close>

definition field_text :: "field \<Rightarrow> string" where
  "field_text f = join '', '' (Names f) @ '' '' @ print_expr (Type f)"

definition result_types :: "func_decl \<Rightarrow> string list" where
  "result_types fn = concat (map (\<lambda>f. if Names f = [] then [print_expr (Type f)] else map (\<lambda>_. print_expr (Type f)) (Names f))
     (Results fn))"

definition forwarding :: "string \<Rightarrow> func_decl \<Rightarrow> field list \<Rightarrow> string list \<Rightarrow> string" where
  "forwarding bare fn ps args =
     ''// '' @ bare @ '' is the direct db.Conn variant of '' @ Name fn @ ''.'' @ nl @
     ''func '' @ bare @
     (if TypeParams fn = [] then [] else ''['' @ join '', '' (map field_text (TypeParams fn)) @ '']'') @
     ''('' @ join '', '' (map field_text ps) @ '')'' @
     (case result_types fn of [] \<Rightarrow> [] | [t] \<Rightarrow> '' '' @ t | ts \<Rightarrow> '' ('' @ join '', '' ts @ '')'') @ '' {'' @ nl @
     tab @ ''return '' @ Name fn @
     (if TypeParams fn = [] then [] else ''['' @ join '', '' (names_of (TypeParams fn)) @ '']'') @
     ''('' @ join '', '' args @ '')'' @ nl @ ''}'' @ nl"

lemma print_fields_eq: "tx < length fs \<Longrightarrow> print_fields fs tx = join '', '' (map field_text (take tx fs @ drop (Suc tx) fs))"
proof -
  have after: "print_fields_from j tx gs = map field_text gs" if "tx < j" for j gs
    using that by (induction gs arbitrary: j) (auto simp: field_text_def comma_def)
  have "i \<le> tx \<Longrightarrow> tx - i < length fs \<Longrightarrow>
      print_fields_from i tx fs = map field_text (take (tx - i) fs @ drop (Suc (tx - i)) fs)" for i
  proof (induction fs arbitrary: i)
    case (Cons f fs)
    show ?case
    proof (cases "i = tx")
      case False
      with Cons.prems have "Suc i \<le> tx" "tx - Suc i < length fs" "tx - i = Suc (tx - Suc i)" by auto
      with Cons.IH[of "Suc i"] False show ?thesis by (simp add: field_text_def comma_def)
    qed (simp add: after)
  qed simp
  from this[of 0] show "tx < length fs \<Longrightarrow> ?thesis" by (simp add: print_fields_def comma_def)
qed

lemma print_results_eq:
  "print_results (Results fn) =
     (case result_types fn of [] \<Rightarrow> [] | [t] \<Rightarrow> '' '' @ t | ts \<Rightarrow> '' ('' @ join '', '' ts @ '')'')"
proof -
  have rep: "replicate (max (length (Names f)) 1) (print_expr (Type f)) =
      (if Names f = [] then [print_expr (Type f)] else map (\<lambda>_. print_expr (Type f)) (Names f))" for f
    by (cases "Names f") (simp_all add: map_replicate_const)
  have parts: "concat (map (\<lambda>f. replicate (max (length (Names f)) 1) (print_expr (Type f))) (Results fn)) = result_types fn"
    unfolding result_types_def rep ..
  have "Results fn \<noteq> [] \<Longrightarrow> result_types fn \<noteq> []" by (cases "Results fn") (simp_all add: result_types_def)
  moreover have "Results fn = [] \<Longrightarrow> result_types fn = []" by (simp add: result_types_def)
  ultimately show ?thesis
    unfolding print_results_def parts by (auto simp: comma_def Let_def split: list.split)
qed

lemma render_forwarding:
  assumes "tx < length (Params fn)" and "render pkg fn tx = Inr src"
  shows "src = forwarding (trim_suffix (Name fn) ''Tx'') fn (wrapper_params fn tx) (call_args fn tx (conn_expr pkg)) \<and>
    \<not> declares_top_level pkg (trim_suffix (Name fn) ''Tx'')"
proof -
  have t: "print_type_params ts = (if ts = [] then [] else ''['' @ join '', '' (map field_text ts) @ '']'',
      if ts = [] then [] else ''['' @ join '', '' (names_of ts) @ '']'')" for ts
    by (simp add: print_type_params_def comma_def field_text_def[abs_def] names_of_def)
  show ?thesis
    using assms(2) unfolding render_def Let_def t print_fields_eq[OF assms(1)] print_results_eq
    by (auto simp: forwarding_def wrapper_params_def already_defined_def comma_def split: if_splits)
qed

text \<open>Where the transaction is: the first parameter of the seam type, if it has one name.\<close>

definition seam_at :: "go_file \<Rightarrow> string \<Rightarrow> func_decl \<Rightarrow> nat \<Rightarrow> bool" where
  "seam_at file pkg fn tx \<longleftrightarrow> tx < length (Params fn) \<and> is_queryable file pkg (Type (Params fn ! tx)) \<and>
     length (Names (Params fn ! tx)) = 1 \<and> (\<forall>i<tx. \<not> is_queryable file pkg (Type (Params fn ! i)))"

lemma queryable_field_iff: "queryable_field file pkg fn = Some tx \<longleftrightarrow> seam_at file pkg fn tx"
proof -
  have "queryable_field_from i file pkg fs = Some j \<longleftrightarrow> (\<exists>k. j = i + k \<and> k < length fs \<and>
      is_queryable file pkg (Type (fs ! k)) \<and> length (Names (fs ! k)) = 1 \<and>
      (\<forall>l<k. \<not> is_queryable file pkg (Type (fs ! l))))" for i fs j
  proof (induction fs arbitrary: i)
    case (Cons f fs)
    show ?case
    proof (cases "is_queryable file pkg (Type f)")
      case True
      have "(\<exists>k. j = i + k \<and> k < length (f # fs) \<and> Q k \<and> N k \<and> (\<forall>l<k. \<not> Q l)) \<longleftrightarrow> j = i \<and> N 0" if "Q 0" for Q N
      proof
        assume "\<exists>k. j = i + k \<and> k < length (f # fs) \<and> Q k \<and> N k \<and> (\<forall>l<k. \<not> Q l)"
        then obtain k where k: "j = i + k" "N k" "\<forall>l<k. \<not> Q l" by blast
        from k(3) that have "k = 0" by (cases k) auto
        with k show "j = i \<and> N 0" by simp
      next
        assume "j = i \<and> N 0"
        with that show "\<exists>k. j = i + k \<and> k < length (f # fs) \<and> Q k \<and> N k \<and> (\<forall>l<k. \<not> Q l)"
          by (intro exI[of _ 0]) simp
      qed
      from this[of "\<lambda>k. is_queryable file pkg (Type ((f # fs) ! k))" "\<lambda>k. length (Names ((f # fs) ! k)) = 1"] True
      show ?thesis by auto
    next
      case False
      have "(\<exists>k. j = i + k \<and> Q k) \<longleftrightarrow> (\<exists>k. j = Suc i + k \<and> Q (Suc k))" if "\<not> Q 0" for Q
      proof
        assume "\<exists>k. j = i + k \<and> Q k"
        then obtain k where k: "j = i + k" "Q k" by blast
        with that obtain m where "k = Suc m" by (cases k) auto
        with k show "\<exists>k. j = Suc i + k \<and> Q (Suc k)" by auto
      next
        assume "\<exists>k. j = Suc i + k \<and> Q (Suc k)"
        then obtain k where "j = Suc i + k" "Q (Suc k)" by blast
        then show "\<exists>k. j = i + k \<and> Q k" by (intro exI[of _ "Suc k"]) simp
      qed
      from this[of "\<lambda>k. k < length (f # fs) \<and> is_queryable file pkg (Type ((f # fs) ! k)) \<and>
          length (Names ((f # fs) ! k)) = 1 \<and> (\<forall>l<k. \<not> is_queryable file pkg (Type ((f # fs) ! l)))"] False
      show ?thesis by (simp add: Cons.IH All_less_Suc2)
    qed
  qed simp
  from this[of 0 "Params fn" tx] show ?thesis by (simp add: queryable_field_def seam_at_def)
qed

lemma is_queryable_not_variadic: "is_queryable file pkg t \<Longrightarrow> \<not> is_ellipsis t"
  by (cases t) simp_all

text \<open>
  C26: A generated function does what its name promises.  Its text is a function with the parameters of the
  hand-written \<open>FooTx\<close> less the transaction, whose body returns a call of \<open>FooTx\<close>; and that call, by Go's
  rules for arguments, binds \<open>FooTx\<close>'s parameters to the values the function was called with, each once and
  in order, with the pool in the transaction's place - a variadic last parameter gets the very slice, not a
  slice within a slice.  This asks of the source that every parameter has a name of its own, other than
  the blank one and those the call refers to.
\<close>

theorem conn_call_faithful:
  assumes "seam_at file (PkgName pkg) fn tx" and "has_suffix (Name fn) ''Tx''" and "render pkg fn tx = Inr src"
    and "distinct (names_of (wrapper_params fn tx))"
    and "set (names_of (wrapper_params fn tx)) \<inter> {''_'', ''Conn'', ''db'', Name fn} = {}"
    and "\<forall>n \<in> set (names_of (wrapper_params fn tx)). CHR ''.'' \<notin> set n"
    and "\<forall>b \<in> set (butlast (variadic (Params fn))). \<not> b"
    and "list_all2 (\<lambda>b v. b \<longrightarrow> (\<exists>xs. v = Slice xs)) (variadic (wrapper_params fn tx)) vs"
    and "env = map_of (zip (names_of (wrapper_params fn tx)) vs)" and "k = length (names_of (take tx (Params fn)))"
  shows "\<exists>bare args as. Name fn = bare @ ''Tx'' \<and> src = forwarding bare fn (wrapper_params fn tx) args \<and>
    map (eval_arg (conn_expr pkg) pool env) args = map Some as \<and>
    go_bind (variadic (Params fn)) as = Some (take k vs @ [pool] @ drop k vs)"
proof -
  let ?conn = "conn_expr pkg" and ?pre = "take tx (Params fn)" and ?post = "drop (Suc tx) (Params fn)"
  have tx: "tx < length (Params fn)" and seam: "is_queryable file (PkgName pkg) (Type (Params fn ! tx))"
    "length (Names (Params fn ! tx)) = 1" using assms(1) by (simp_all add: seam_at_def)
  have conn: "?conn = ''Conn'' \<or> ?conn = ''db.Conn''" by (simp add: conn_expr_def)
  have names: "names_of (wrapper_params fn tx) = names_of ?pre @ names_of ?post" by (simp add: wrapper_params_def)
  have dot: "''db.Conn'' \<notin> set (names_of (wrapper_params fn tx))" using assms(6) by fastforce
  have free: "?conn \<notin> set (names_of ?pre)" "?conn \<notin> set (names_of ?post)"
    using assms(5) conn dot unfolding names by auto
  have len: "length vs = length (names_of (wrapper_params fn tx))"
    using list_all2_lengthD[OF assms(8)] by (simp add: length_variadic)
  have "map env (names_of (wrapper_params fn tx)) = map Some vs"
    unfolding assms(9) by (rule map_env_zip[OF assms(4) len[symmetric]])
  then have env: "map env (names_of ?pre) = map Some (take k vs)" "map env (names_of ?post) = map Some (drop k vs)"
    by (simp_all add: names append_eq_conv_conj take_map drop_map assms(10))
  have args: "call_args fn tx ?conn = concat (map pass_on ?pre) @ [?conn] @ concat (map pass_on ?post)"
    using call_args_from_eq[of 0 tx "Params fn" ?conn] tx by (simp add: call_args_def)
  let ?as = "map2 passed (variadic ?pre) (take k vs) @ [Plain pool] @ map2 passed (variadic ?post) (drop k vs)"
  have eval: "map (eval_arg ?conn pool env) (call_args fn tx ?conn) = map Some ?as"
    using eval_pass_on[OF _ free(1) conn env(1), of pool] eval_pass_on[OF _ free(2) conn env(2), of pool] assms(6)
    by (simp add: args names eval_arg_def)
  obtain n where n: "Names (Params fn ! tx) = [n]" using seam(2) by (auto simp: length_Suc_conv)
  have "variadic (Params fn) = variadic (?pre @ Params fn ! tx # ?post)"
    by (rule arg_cong[OF id_take_nth_drop[OF tx]])
  also have "\<dots> = variadic ?pre @ [False] @ variadic ?post"
    using is_queryable_not_variadic[OF seam(1)] by (simp only: variadic_simps n list.map)
  finally have flags: "variadic (Params fn) = variadic ?pre @ [False] @ variadic ?post" .
  have k: "length (variadic ?pre) = length (take k vs)"
    by (simp add: length_variadic assms(10) len names)
  have as: "?as = map2 passed (variadic ?pre @ [False] @ variadic ?post) (take k vs @ [pool] @ drop k vs)"
    using k by (simp add: passed_def)
  have "variadic (wrapper_params fn tx) = variadic ?pre @ variadic ?post" by (simp add: wrapper_params_def)
  with assms(8) have "list_all2 (\<lambda>b v. b \<longrightarrow> (\<exists>xs. v = Slice xs)) (variadic ?pre @ variadic ?post) (take k vs @ drop k vs)"
    by simp
  with k have "list_all2 (\<lambda>b v. b \<longrightarrow> (\<exists>xs. v = Slice xs)) (variadic ?pre) (take k vs)"
    "list_all2 (\<lambda>b v. b \<longrightarrow> (\<exists>xs. v = Slice xs)) (variadic ?post) (drop k vs)"
    by (simp_all only: list_all2_append)
  then have slices: "list_all2 (\<lambda>b v. b \<longrightarrow> (\<exists>xs. v = Slice xs)) (variadic ?pre @ [False] @ variadic ?post) (take k vs @ [pool] @ drop k vs)"
    by (intro list_all2_appendI) simp_all
  have bind: "go_bind (variadic (Params fn)) ?as = Some (take k vs @ [pool] @ drop k vs)"
    unfolding flags as by (rule go_bind_passed[OF slices]) (use assms(7) in \<open>simp only: flags\<close>)
  obtain bare where bare: "Name fn = bare @ ''Tx''" using assms(2) by (auto simp: has_suffix_iff)
  then have "trim_suffix (Name fn) ''Tx'' = bare" by (simp add: trim_suffix_append)
  with render_forwarding[OF tx assms(3)] have "src = forwarding bare fn (wrapper_params fn tx) (call_args fn tx ?conn)" by simp
  with eval bind bare show ?thesis by blast
qed

definition find_decl :: func_decl where
  "find_decl = \<lparr>Name = ''FindTx'', Recv = [], TypeParams = [\<lparr>Names = [''T''], Type = Ident ''any''\<rparr>], Params =
     [\<lparr>Names = [''ctx''], Type = SelectorExpr (Ident ''context'') ''Context''\<rparr>, \<lparr>Names = [''tx''], Type = Ident ''Queryable''\<rparr>,
      \<lparr>Names = [''sql''], Type = Ident ''string''\<rparr>, \<lparr>Names = [''args''], Type = Ellipsis (Ident ''any'')\<rparr>],
     Results = [\<lparr>Names = [], Type = ArrayType (Ident ''T'')\<rparr>, \<lparr>Names = [], Type = Ident ''error''\<rparr>]\<rparr>"

definition query_go :: go_file where
  "query_go = \<lparr>Filename = ''/app/db/query.go'', Imports = [],
     Decls = [GenDecl [ValueSpec [''Conn'']], FuncDecl find_decl]\<rparr>"

definition find_src :: string where
  "find_src = ''// Find is the direct db.Conn variant of FindTx.'' @ nl @
     ''func Find[T any](ctx context.Context, sql string, args ...any) ([]T, error) {'' @ nl @
     tab @ ''return FindTx[T](ctx, Conn, sql, args...)'' @ nl @ ''}'' @ nl"

theorem conn_call_faithful_witness:
  "render \<lparr>PkgName = ''db'', Files = [query_go]\<rparr> find_decl 1 = Inr find_src \<and>
   (\<exists>args as. find_src = forwarding ''Find'' find_decl (wrapper_params find_decl 1) args \<and>
     go_bind [False, False, False, True] as = Some [Atom 10, Atom (0 :: nat), Atom 20, Slice [Atom 30, Atom 40]])"
proof -
  let ?pkg = "\<lparr>PkgName = ''db'', Files = [query_go]\<rparr>"
  have src: "render ?pkg find_decl 1 = Inr find_src"
    by (simp add: render_def find_decl_def query_go_def find_src_def Let_def already_defined_def declares_top_level_def
        hand_written_def path_base_def gen_file_name_def trim_suffix_def has_suffix_def print_fields_def
        print_results_def print_type_params_def call_args_def conn_expr_def comma_def)
  have seam: "seam_at query_go (PkgName ?pkg) find_decl 1"
    by (simp add: queryable_field_iff[symmetric]) (simp add: queryable_field_def find_decl_def)
  have ps: "wrapper_params find_decl 1 = [\<lparr>Names = [''ctx''], Type = SelectorExpr (Ident ''context'') ''Context''\<rparr>,
      \<lparr>Names = [''sql''], Type = Ident ''string''\<rparr>, \<lparr>Names = [''args''], Type = Ellipsis (Ident ''any'')\<rparr>]"
    by (simp add: wrapper_params_def find_decl_def)
  have "\<exists>bare args as. Name find_decl = bare @ ''Tx'' \<and> find_src = forwarding bare find_decl (wrapper_params find_decl 1) args \<and>
      map (eval_arg (conn_expr ?pkg) (Atom 0) (map_of (zip (names_of (wrapper_params find_decl 1)) [Atom 10, Atom 20, Slice [Atom 30, Atom 40]]))) args =
        map Some as \<and>
      go_bind (variadic (Params find_decl)) as =
        Some (take 1 [Atom 10, Atom 20, Slice [Atom 30, Atom 40]] @ [Atom 0] @ drop 1 [Atom 10, Atom 20, Slice [Atom 30, Atom 40]])"
    by (rule conn_call_faithful[OF seam _ src]) (simp_all add: ps ps[unfolded One_nat_def], simp_all add: find_decl_def has_suffix_def)
  then show ?thesis using src by (auto simp: find_decl_def)
qed

subsection \<open>Which functions are generated\<close>

definition eligible :: "package \<Rightarrow> go_file \<Rightarrow> decl \<Rightarrow> bool" where
  "eligible pkg file d = (case d of
     FuncDecl fn \<Rightarrow> Recv fn = [] \<and> is_exported (Name fn) \<and> has_suffix (Name fn) ''Tx'' \<and>
       list_ex (seam_at file (PkgName pkg) fn) [0..<length (Params fn)]
   | GenDecl _ \<Rightarrow> False)"

lemma eligible_iff: "eligible pkg file (FuncDecl fn) \<longleftrightarrow> Recv fn = [] \<and> is_exported (Name fn) \<and>
    has_suffix (Name fn) ''Tx'' \<and> (\<exists>tx. queryable_field file (PkgName pkg) fn = Some tx)"
  by (auto simp: eligible_def list_ex_iff queryable_field_iff seam_at_def)

lemma eligible_gen [simp]: "\<not> eligible pkg file (GenDecl specs)"
  by (simp add: eligible_def)

fun decl_name :: "decl \<Rightarrow> string" where
  "decl_name (FuncDecl fn) = Name fn"
| "decl_name (GenDecl _) = []"

definition eligible_names :: "package \<Rightarrow> string list" where
  "eligible_names pkg = concat (map (\<lambda>f. map decl_name (filter (eligible pkg f) (Decls f)))
     (filter hand_written (Files pkg)))"

lemma render_Inr: "render pkg fn tx = Inr src \<Longrightarrow> \<not> declares_top_level pkg (trim_suffix (Name fn) ''Tx'')"
  by (auto simp: render_def already_defined_def Let_def split: if_splits)

text \<open>The function of a declaration and the text generated for it.\<close>

definition generated :: "package \<Rightarrow> go_file \<Rightarrow> decl \<Rightarrow> variant \<Rightarrow> bool" where
  "generated pkg file d v \<longleftrightarrow> (\<exists>fn tx. d = FuncDecl fn \<and> v_name v = Name fn \<and>
     seam_at file (PkgName pkg) fn tx \<and> render pkg fn tx = Inr (v_src v))"

lemma decl_variants_all:
  "decl_variants pkg file ds = Inr vs \<Longrightarrow> list_all2 (generated pkg file) (filter (eligible pkg file) ds) vs"
proof (induction ds arbitrary: vs)
  case (Cons d ds)
  show ?case
  proof (cases d)
    case (FuncDecl fn)
    show ?thesis
    proof (cases "eligible pkg file d")
      case True
      then obtain tx where "queryable_field file (PkgName pkg) fn = Some tx" "Recv fn = []" "is_exported (Name fn)"
        "has_suffix (Name fn) ''Tx''" by (auto simp: FuncDecl eligible_iff)
      with Cons.prems True Cons.IH show ?thesis
        by (auto simp: FuncDecl generated_def queryable_field_iff split: sum.splits)
    next
      case False
      with Cons show ?thesis by (auto simp: FuncDecl eligible_iff split: if_splits option.splits)
    qed
  next
    case (GenDecl specs)
    with Cons show ?thesis by simp
  qed
qed simp

lemma file_variants_all:
  "file_variants pkg fs = Inr vs \<Longrightarrow> \<exists>vss. vs = concat vss \<and>
     list_all2 (\<lambda>f. list_all2 (generated pkg f) (filter (eligible pkg f) (Decls f))) (filter hand_written fs) vss"
proof (induction fs arbitrary: vs)
  case (Cons f fs)
  show ?case
  proof (cases "hand_written f")
    case True
    with Cons.prems obtain us ws where "decl_variants pkg f (Decls f) = Inr us" "file_variants pkg fs = Inr ws" "vs = us @ ws"
      by (auto split: sum.splits)
    with Cons.IH[of ws] True decl_variants_all show ?thesis by (metis (no_types, lifting) concat.simps(2) filter.simps(2) list_all2_Cons)
  next
    case False
    with Cons show ?thesis by simp
  qed
qed simp

lemma generated_names: "list_all2 (generated pkg f) ds vs \<Longrightarrow> map v_name vs = map decl_name ds"
  by (induction rule: list_all2_induct) (auto simp: generated_def)

lemma file_variants_names:
  assumes "file_variants pkg fs = Inr vs"
  shows "map v_name vs = concat (map (\<lambda>f. map decl_name (filter (eligible pkg f) (Decls f))) (filter hand_written fs))"
proof -
  obtain vss where "vs = concat vss" and
    all: "list_all2 (\<lambda>f. list_all2 (generated pkg f) (filter (eligible pkg f) (Decls f))) (filter hand_written fs) vss"
    using file_variants_all[OF assms] by blast
  moreover from all have "map (map v_name) vss = map (\<lambda>f. map decl_name (filter (eligible pkg f) (Decls f))) (filter hand_written fs)"
    by (induction rule: list_all2_induct) (simp_all add: generated_names)
  ultimately show ?thesis by (simp add: map_concat)
qed

text \<open>The convention, and the text that is generated for it.\<close>

definition convention :: "package \<Rightarrow> go_file \<Rightarrow> func_decl \<Rightarrow> nat \<Rightarrow> bool" where
  "convention pkg fl fn tx \<longleftrightarrow> fl \<in> set (Files pkg) \<and> path_base (Filename fl) \<noteq> ''conn.gen.go'' \<and>
     FuncDecl fn \<in> set (Decls fl) \<and> Recv fn = [] \<and> is_exported (Name fn) \<and> (\<exists>bare. Name fn = bare @ ''Tx'') \<and>
     seam_at fl (PkgName pkg) fn tx"

lemma list_all2_set: "list_all2 R xs ys \<Longrightarrow> y \<in> set ys \<Longrightarrow> \<exists>x \<in> set xs. R x y"
  "list_all2 R xs ys \<Longrightarrow> x \<in> set xs \<Longrightarrow> \<exists>y \<in> set ys. R x y"
  by (induction rule: list_all2_induct) auto

lemma seam_unique: "seam_at fl p fn i \<Longrightarrow> seam_at fl p fn j \<Longrightarrow> i = j"
  by (metis queryable_field_iff option.inject)

lemma convention_eligible:
  "convention pkg fl fn tx \<longleftrightarrow> fl \<in> set (filter hand_written (Files pkg)) \<and>
     FuncDecl fn \<in> set (filter (eligible pkg fl) (Decls fl)) \<and> seam_at fl (PkgName pkg) fn tx"
  by (auto simp: convention_def hand_written_def gen_file_name_def eligible_iff queryable_field_iff has_suffix_iff)

lemma file_variants_convention:
  assumes "file_variants pkg (Files pkg) = Inr vs"
  shows "v \<in> set vs \<longleftrightarrow> (\<exists>fl fn tx. convention pkg fl fn tx \<and> v_name v = Name fn \<and> render pkg fn tx = Inr (v_src v))"
    and "convention pkg fl fn tx \<Longrightarrow> \<exists>src. render pkg fn tx = Inr src"
proof -
  obtain vss where vs: "vs = concat vss" and
    all: "list_all2 (\<lambda>f. list_all2 (generated pkg f) (filter (eligible pkg f) (Decls f))) (filter hand_written (Files pkg)) vss"
    using file_variants_all[OF assms] by blast
  have one: "\<exists>v \<in> set vs. v_name v = Name fn \<and> render pkg fn tx = Inr (v_src v)" if c: "convention pkg fl fn tx" for fl fn tx
  proof -
    from c list_all2_set(2)[OF all] obtain us where us: "us \<in> set vss"
      "list_all2 (generated pkg fl) (filter (eligible pkg fl) (Decls fl)) us" unfolding convention_eligible by blast
    from c list_all2_set(2)[OF us(2)] obtain v where "v \<in> set us" "generated pkg fl (FuncDecl fn) v"
      unfolding convention_eligible by blast
    moreover have "seam_at fl (PkgName pkg) fn tx" using c by (simp add: convention_eligible)
    ultimately show ?thesis using us(1) seam_unique unfolding vs generated_def by (metis UN_I decl.inject(1) set_concat)
  qed
  then show "convention pkg fl fn tx \<Longrightarrow> \<exists>src. render pkg fn tx = Inr src" by blast
  show "v \<in> set vs \<longleftrightarrow> (\<exists>fl fn tx. convention pkg fl fn tx \<and> v_name v = Name fn \<and> render pkg fn tx = Inr (v_src v))"
  proof
    assume "v \<in> set vs"
    then obtain us where us: "us \<in> set vss" "v \<in> set us" unfolding vs by auto
    from list_all2_set(1)[OF all us(1)] obtain f where f: "f \<in> set (filter hand_written (Files pkg))"
      "list_all2 (generated pkg f) (filter (eligible pkg f) (Decls f)) us" by blast
    from list_all2_set(1)[OF f(2) us(2)] obtain d where "d \<in> set (filter (eligible pkg f) (Decls f))" "generated pkg f d v" by blast
    with f(1) show "\<exists>fl fn tx. convention pkg fl fn tx \<and> v_name v = Name fn \<and> render pkg fn tx = Inr (v_src v)"
      unfolding convention_eligible generated_def by blast
  next
    assume "\<exists>fl fn tx. convention pkg fl fn tx \<and> v_name v = Name fn \<and> render pkg fn tx = Inr (v_src v)"
    then obtain fl fn tx where c: "convention pkg fl fn tx" and v: "v_name v = Name fn" "render pkg fn tx = Inr (v_src v)" by blast
    from one[OF c] obtain w where "w \<in> set vs" "v_name w = Name fn" "render pkg fn tx = Inr (v_src w)" by blast
    with v have "w = v" by simp
    with \<open>w \<in> set vs\<close> show "v \<in> set vs" by simp
  qed
qed

text \<open>
  C27: The generator is complete and never overwrites the author.  After a run that succeeds, the package's
  \<open>conn.gen.go\<close> is the formatted text of its header and, sorted by name, exactly one function for every
  exported top-level \<open>...Tx\<close> function of the hand-written files whose first parameter of the type
  \<open>db.Queryable\<close> has one name, each with the text \<open>render\<close> makes for it (C26 says what that does); without
  any such function there is no \<open>conn.gen.go\<close>.  No generated name is declared by hand, and no other
  file changes.
\<close>

theorem conngen_complete:
  assumes "generate process pkg d = (Inr (), d')" and "path = dir_of pkg @ ''/conn.gen.go''"
  shows "(if \<exists>fl fn tx. convention pkg fl fn tx
      then \<exists>(vs :: variant list) out. contents d' path = Some out \<and>
        process (''// Code generated by conngen. DO NOT EDIT.'' @ nl @ nl @
          ''// Direct db.Conn variants of this package'' @ [CHR 0x27] @ ''s *Tx functions.'' @ nl @ nl @
          ''package '' @ PkgName pkg @ nl @ nl @ concat (map (\<lambda>v. v_src v @ nl) vs)) = Inr out \<and>
        sorted (map v_name vs) \<and> mset (map v_name vs) = mset (eligible_names pkg) \<and>
        (\<forall>v. v \<in> set vs \<longleftrightarrow> (\<exists>fl fn tx. convention pkg fl fn tx \<and> v_name v = Name fn \<and> render pkg fn tx = Inr (v_src v)))
      else contents d' path = None) \<and>
    (\<forall>fl fn tx bare. convention pkg fl fn tx \<and> Name fn = bare @ ''Tx'' \<longrightarrow> \<not> declares_top_level pkg bare) \<and>
    (\<forall>other. other \<noteq> path \<longrightarrow> contents d' other = contents d other)"
proof -
  obtain vs where vs: "file_variants pkg (Files pkg) = Inr vs"
    using assms(1) by (auto simp: generate_def split: sum.splits)
  note conv = file_variants_convention[OF vs]
  have any: "(\<exists>fl fn tx. convention pkg fl fn tx) \<longleftrightarrow> vs \<noteq> []"
  proof
    assume "\<exists>fl fn tx. convention pkg fl fn tx"
    with conv show "vs \<noteq> []" by (metis length_greater_0_conv length_pos_if_in_set variant.select_convs(1,2))
  next
    assume "vs \<noteq> []"
    then have "hd vs \<in> set vs" by simp
    with conv(1) show "\<exists>fl fn tx. convention pkg fl fn tx" by blast
  qed
  have "if vs = [] then contents d' path = None
      else \<exists>out. contents d' path = Some out \<and> process (gen_text (PkgName pkg) vs) = Inr out"
    using assms by (auto simp: generate_def vs remove_stale_def write_file_def wrapE_def gen_file_name_def Let_def
        split: list.splits sum.splits option.splits write_error.splits if_splits)
  moreover have "\<forall>other. other \<noteq> path \<longrightarrow> contents d' other = contents d other"
    using assms by (auto simp: generate_def vs remove_stale_def write_file_def wrapE_def gen_file_name_def Let_def
        split: list.splits sum.splits option.splits write_error.splits if_splits)
  moreover have "\<not> declares_top_level pkg bare" if "convention pkg fl fn tx" "Name fn = bare @ ''Tx''" for fl fn tx bare
    using conv(2)[OF that(1)] that(2) render_Inr[of pkg fn tx] by (auto simp: trim_suffix_append)
  moreover have "mset (map v_name (sort_key v_name vs)) = mset (map v_name vs)" by simp
  then have "mset (map v_name (sort_key v_name vs)) = mset (eligible_names pkg)"
    unfolding file_variants_names[OF vs] eligible_names_def .
  moreover have "sorted (map v_name (sort_key v_name vs))" by (rule sorted_sort_key)
  ultimately show ?thesis
    unfolding any gen_text_def using conv(1) by (auto split: if_splits intro!: exI[of _ "sort_key v_name vs"])
qed

subsection \<open>Generating again\<close>

text \<open>Its own output, and the order in which the files are listed, do not matter to the generator.\<close>

lemma declares_hand_written:
  "declares_top_level (pkg\<lparr>Files := filter hand_written (Files pkg)\<rparr>) name = declares_top_level pkg name"
  by (simp add: declares_top_level_def)

lemma render_hand_written: "render (pkg\<lparr>Files := filter hand_written (Files pkg)\<rparr>) fn tx = render pkg fn tx"
proof -
  have conn: "conn_expr (pkg\<lparr>Files := filter hand_written (Files pkg)\<rparr>) = conn_expr pkg"
    by (simp add: conn_expr_def declares_hand_written)
  show ?thesis unfolding render_def already_defined_def declares_hand_written conn ..
qed

lemma decl_variants_hand_written:
  "decl_variants (pkg\<lparr>Files := filter hand_written (Files pkg)\<rparr>) file ds = decl_variants pkg file ds"
proof (induction ds)
  case (Cons d ds)
  then show ?case by (cases d) (simp_all add: render_hand_written split: option.split sum.split)
qed simp

lemma file_variants_filter:
  "file_variants (pkg\<lparr>Files := filter hand_written (Files pkg)\<rparr>) (filter hand_written fs) = file_variants pkg fs"
  by (induction pkg fs rule: file_variants.induct) (simp_all add: decl_variants_hand_written split: sum.split)

text \<open>
  Generating again changes nothing: whatever \<open>conn.gen.go\<close> holds, the generator computes the text
  from the hand-written files alone, so after a run that wrote it a second run writes the same.
\<close>

theorem conngen_idempotent:
  assumes "generate process pkg d = (Inr (), d')" and "file_variants pkg (Files pkg) \<noteq> Inr []"
    and "filter hand_written (Files pkg') = filter hand_written (Files pkg)" and "PkgName pkg' = PkgName pkg"
    and "dir_of pkg' = dir_of pkg"
  shows "generate process pkg' d' = (Inr (), d')"
proof -
  have pkgs: "pkg'\<lparr>Files := filter hand_written (Files pkg')\<rparr> = pkg\<lparr>Files := filter hand_written (Files pkg)\<rparr>"
    using assms(3,4) by simp
  have same: "file_variants pkg' (Files pkg') = file_variants pkg (Files pkg)"
    using file_variants_filter[of pkg' "Files pkg'"] file_variants_filter[of pkg "Files pkg"] assms(3) pkgs by simp
  show ?thesis
    using assms(1,2)
    by (auto simp: generate_def same assms(4,5) Let_def fun_upd_idem_iff write_file_def wrapE_def
        split: sum.splits list.splits option.splits write_error.splits)
qed

text \<open>A run, also one that fails, touches \<open>conn.gen.go\<close> only.\<close>

lemma generate_frame:
  "generate process pkg d = (r, d') \<Longrightarrow> path \<noteq> dir_of pkg @ ''/'' @ gen_file_name \<Longrightarrow> contents d' path = contents d path"
  by (auto simp: generate_def remove_stale_def write_file_def wrapE_def Let_def
      split: sum.splits list.splits option.splits if_splits write_error.splits)

lemma file_variants_concat:
  "file_variants pkg fs = Inr vs \<longleftrightarrow>
     list_all (\<lambda>f. \<exists>ws. decl_variants pkg f (Decls f) = Inr ws) (filter hand_written fs) \<and>
     vs = concat (map (\<lambda>f. projr (decl_variants pkg f (Decls f))) (filter hand_written fs))"
proof (induction fs arbitrary: vs)
  case (Cons f fs)
  let ?rest = "concat (map (\<lambda>f. projr (decl_variants pkg f (Decls f))) (filter hand_written fs))"
  from Cons.IH[of ?rest] Cons.IH show ?case
    by (cases "decl_variants pkg f (Decls f)"; cases "file_variants pkg fs") auto
qed auto

lemma decl_variants_cong:
  assumes "\<And>name. declares_top_level pkg' name = declares_top_level pkg name" and "PkgName pkg' = PkgName pkg"
  shows "decl_variants pkg' file ds = decl_variants pkg file ds"
proof -
  have "conn_expr pkg' = conn_expr pkg" by (simp add: conn_expr_def assms(1))
  then have r: "render pkg' fn tx = render pkg fn tx" for fn tx
    unfolding render_def already_defined_def assms(1) by (simp only:)
  show ?thesis
  proof (induction ds)
    case (Cons d ds)
    then show ?case by (cases d) (simp_all add: r assms(2) split: option.split sum.split)
  qed simp
qed

text \<open>
  The output is deterministic: the order in which the loader lists the files of a package does not
  change a byte of it, when the package has no two functions of one name.
\<close>

theorem conngen_deterministic:
  assumes "mset (Files pkg') = mset (Files pkg)" and "PkgName pkg' = PkgName pkg"
    and "distinct (eligible_names pkg)" and "file_variants pkg (Files pkg) = Inr vs"
  shows "\<exists>vs'. file_variants pkg' (Files pkg') = Inr vs' \<and> gen_text (PkgName pkg') vs' = gen_text (PkgName pkg) vs"
proof -
  let ?g = "\<lambda>f. projr (decl_variants pkg f (Decls f))"
  have files: "set (Files pkg') = set (Files pkg)" using assms(1) by (rule mset_eq_setD)
  have "declares_top_level pkg' name = declares_top_level pkg name" for name
    by (simp add: declares_top_level_def list_ex_iff files)
  note dv = decl_variants_cong[OF this assms(2)]
  have vs: "list_all (\<lambda>f. \<exists>ws. decl_variants pkg f (Decls f) = Inr ws) (filter hand_written (Files pkg))"
    "vs = concat (map ?g (filter hand_written (Files pkg)))"
    using assms(4) file_variants_concat by blast+
  let ?vs = "concat (map ?g (filter hand_written (Files pkg')))"
  have ok: "file_variants pkg' (Files pkg') = Inr ?vs"
    using vs(1) by (simp add: file_variants_concat dv list_all_iff files)
  let ?parts = "\<lambda>fs. map (mset \<circ> ?g) (filter hand_written fs)"
  have "mset (?parts (Files pkg')) = mset (?parts (Files pkg))" by (simp add: assms(1))
  from arg_cong[where f = sum_mset, OF this]
  have "sum_list (?parts (Files pkg')) = sum_list (?parts (Files pkg))" unfolding sum_mset_sum_list .
  then have m: "mset ?vs = mset vs" unfolding vs(2) mset_concat by simp
  have dist: "distinct (map v_name vs)"
    using assms(3) file_variants_names[OF assms(4)] by (simp add: eligible_names_def)
  have "mset (map v_name ?vs) = mset (map v_name vs)" unfolding mset_map m ..
  from mset_eq_imp_distinct_iff[OF this] dist have "distinct (map v_name ?vs)" by (simp only:)
  then have "sort_key v_name ?vs = sort_key v_name vs"
    using mset_eq_setD[OF m] dist by (intro map_sorted_distinct_set_unique[of v_name]) (simp_all add: distinct_map)
  then have "gen_text (PkgName pkg') ?vs = gen_text (PkgName pkg) vs"
    unfolding gen_text_def assms(2) by (simp only:)
  with ok show ?thesis by blast
qed

text \<open>The function \<open>ByEmailTx\<close> of \<open>auth/users.go\<close>, and what \<open>auth/conn.gen.go\<close> has for it.\<close>

definition by_email_decl :: func_decl where
  "by_email_decl = \<lparr>Name = ''ByEmailTx'', Recv = [], TypeParams = [],
     Params = [\<lparr>Names = [''ctx''], Type = SelectorExpr (Ident ''context'') ''Context''\<rparr>,
       \<lparr>Names = [''tx''], Type = SelectorExpr (Ident ''db'') ''Queryable''\<rparr>,
       \<lparr>Names = [''email''], Type = Ident ''string''\<rparr>],
     Results = [\<lparr>Names = [], Type = Ident ''User''\<rparr>, \<lparr>Names = [], Type = Ident ''error''\<rparr>]\<rparr>"

definition users_go :: go_file where
  "users_go = \<lparr>Filename = ''/app/auth/users.go'', Imports =
     [\<lparr>ImportName = None, ImportPath = [CHR 0x22] @ ''context'' @ [CHR 0x22]\<rparr>,
      \<lparr>ImportName = None, ImportPath = [CHR 0x22] @ ''github.com/mbriggs/go-bootstrap/db'' @ [CHR 0x22]\<rparr>],
     Decls = [GenDecl [ImportSpec], GenDecl [TypeSpec ''User''], FuncDecl by_email_decl]\<rparr>"

definition auth_pkg :: package where
  "auth_pkg = \<lparr>PkgName = ''auth'', Files = [\<lparr>Filename = ''/app/auth/conn.gen.go'', Imports = [],
     Decls = [FuncDecl (by_email_decl\<lparr>Name := ''ByEmail''\<rparr>)]\<rparr>, users_go]\<rparr>"

definition by_email_src :: string where
  "by_email_src = ''// ByEmail is the direct db.Conn variant of ByEmailTx.'' @ nl @
     ''func ByEmail(ctx context.Context, email string) (User, error) {'' @ nl @
     tab @ ''return ByEmailTx(ctx, db.Conn, email)'' @ nl @ ''}'' @ nl"

lemmas conngen_eval = auth_pkg_def users_go_def by_email_decl_def hand_written_def path_base_def gen_file_name_def
  is_exported_def has_suffix_def queryable_field_def trim_quotes_def render_def already_defined_def
  declares_top_level_def conn_expr_def trim_suffix_def print_fields_def print_results_def print_type_params_def
  call_args_def comma_def Let_def

lemma by_email_generated: "file_variants auth_pkg (Files auth_pkg) = Inr [\<lparr>v_name = ''ByEmailTx'', v_src = by_email_src\<rparr>]"
  by (simp add: conngen_eval by_email_src_def)

lemma users_go_hand_written: "hand_written users_go"
  by (simp add: users_go_def hand_written_def path_base_def gen_file_name_def)

lemma auth_convention: "convention auth_pkg users_go by_email_decl 1"
proof -
  have "seam_at users_go ''auth'' by_email_decl 1"
    by (simp add: queryable_field_iff[symmetric] conngen_eval)
  then show ?thesis
    by (simp add: convention_def auth_pkg_def) (simp add: users_go_def path_base_def by_email_decl_def is_exported_def)
qed

theorem conngen_complete_witness:
  "\<exists>d (vs :: variant list). generate Inr auth_pkg \<lparr>contents = Map.empty, unremovable = Map.empty, unwritable = Map.empty\<rparr> = (Inr (), d) \<and>
     contents d ''/app/auth/conn.gen.go'' = Some (''// Code generated by conngen. DO NOT EDIT.'' @ nl @ nl @
       ''// Direct db.Conn variants of this package'' @ [CHR 0x27] @ ''s *Tx functions.'' @ nl @ nl @
       ''package auth'' @ nl @ nl @ concat (map (\<lambda>v. v_src v @ nl) vs)) \<and>
     map v_name vs = [''ByEmailTx''] \<and> map v_src vs = [by_email_src] \<and> \<not> declares_top_level auth_pkg ''ByEmail''"
proof -
  let ?d0 = "\<lparr>contents = Map.empty, unremovable = Map.empty, unwritable = Map.empty\<rparr>"
  obtain d where d: "generate Inr auth_pkg ?d0 = (Inr (), d)"
    by (simp add: generate_def by_email_generated Let_def wrapE_def write_file_def)
  have names: "eligible_names auth_pkg = [''ByEmailTx'']"
    using file_variants_names[OF by_email_generated] by (simp add: eligible_names_def)
  have at: "dir_of auth_pkg @ ''/conn.gen.go'' = ''/app/auth/conn.gen.go''" "PkgName auth_pkg = ''auth''"
    by (simp_all add: dir_of_def path_dir_def auth_pkg_def)
  have ex: "\<exists>fl fn tx. convention auth_pkg fl fn tx" using auth_convention by blast
  note all = conngen_complete[OF d refl, unfolded names at if_P[OF ex]]
  from all[THEN conjunct1] obtain vs :: "variant list" where
    written: "contents d ''/app/auth/conn.gen.go'' = Some (''// Code generated by conngen. DO NOT EDIT.'' @ nl @ nl @
       ''// Direct db.Conn variants of this package'' @ [CHR 0x27] @ ''s *Tx functions.'' @ nl @ nl @
       ''package '' @ ''auth'' @ nl @ nl @ concat (map (\<lambda>v. v_src v @ nl) vs))"
    and ns: "mset (map v_name vs) = mset [''ByEmailTx'']"
    and src: "\<And>v. v \<in> set vs \<longleftrightarrow> (\<exists>fl fn tx. convention auth_pkg fl fn tx \<and> v_name v = Name fn \<and> render auth_pkg fn tx = Inr (v_src v))"
    by (auto simp only: sum.inject)
  have free: "\<not> declares_top_level auth_pkg ''ByEmail''"
    using all[THEN conjunct2, THEN conjunct1] auth_convention by (fastforce simp: by_email_decl_def)
  obtain v where v: "vs = [v]" using ns by (cases vs) auto
  then have "v \<in> set [\<lparr>v_name = ''ByEmailTx'', v_src = by_email_src\<rparr>]"
    using src[of v] file_variants_convention(1)[OF by_email_generated, of v] by simp
  with v have "map v_name vs = [''ByEmailTx'']" "map v_src vs = [by_email_src]" by simp_all
  with d written free show ?thesis by (intro exI[of _ d] exI[of _ vs]) simp
qed

theorem conngen_deterministic_witness:
  "\<exists>vs'. file_variants (auth_pkg\<lparr>Files := rev (Files auth_pkg)\<rparr>) (rev (Files auth_pkg)) = Inr vs' \<and>
     gen_text ''auth'' vs' = gen_text ''auth'' [\<lparr>v_name = ''ByEmailTx'', v_src = by_email_src\<rparr>]"
proof -
  have "eligible_names auth_pkg = [''ByEmailTx'']"
    using file_variants_names[OF by_email_generated] by (simp add: eligible_names_def)
  then have "distinct (eligible_names auth_pkg)" by simp
  from conngen_deterministic[OF _ _ this by_email_generated, of "auth_pkg\<lparr>Files := rev (Files auth_pkg)\<rparr>"]
  show ?thesis by (simp add: auth_pkg_def)
qed

theorem conngen_idempotent_witness:
  "\<exists>d. generate Inr auth_pkg \<lparr>contents = Map.empty, unremovable = Map.empty, unwritable = Map.empty\<rparr> = (Inr (), d) \<and>
     generate Inr (auth_pkg\<lparr>Files := [users_go]\<rparr>) d = (Inr (), d)"
proof -
  obtain d where d: "generate Inr auth_pkg \<lparr>contents = Map.empty, unremovable = Map.empty, unwritable = Map.empty\<rparr> = (Inr (), d)"
    by (simp add: generate_def by_email_generated Let_def write_file_def)
  have "filter hand_written [users_go] = filter hand_written (Files auth_pkg)"
    by (simp add: auth_pkg_def users_go_hand_written) (simp add: hand_written_def path_base_def gen_file_name_def)
  moreover have "dir_of (auth_pkg\<lparr>Files := [users_go]\<rparr>) = dir_of auth_pkg"
    by (simp add: dir_of_def path_dir_def auth_pkg_def users_go_def)
  ultimately have "generate Inr (auth_pkg\<lparr>Files := [users_go]\<rparr>) d = (Inr (), d)"
    using conngen_idempotent[OF d, of "auth_pkg\<lparr>Files := [users_go]\<rparr>"] by_email_generated by simp
  with d show ?thesis by blast
qed

end
