(* ===== verification/Modelgen.thy ===== *)
theory Modelgen
  imports Conngen Reset "HOL-Library.Sublist"
begin

text \<open>
  The generator \<open>cmd/modelgen\<close>: from the columns of a table it writes the row struct and its
  \<open>ToRowMap\<close>.  The query that introspects the columns and \<open>imports.Process\<close> are parameters.  What the
  generated \<open>ToRowMap\<close> does is \<open>row_map_of\<close>, and the two models the repository has generated are
  shown to be it.
\<close>

record table_config =
  Table :: string
  Package :: string
  TypeName :: string

record col =
  c_name :: string
  c_udt :: string
  c_nullable :: bool
  c_has_default :: bool
  c_is_pk :: bool
  c_comment :: string

text \<open>\<open>strconv.Quote\<close>, for ASCII and for printable text beyond it.\<close>

definition hex_digit :: "nat \<Rightarrow> char" where
  "hex_digit n = ''0123456789abcdef'' ! n"

definition quote_char :: "char \<Rightarrow> string" where
  "quote_char c =
     (let n = (byte c :: nat) in
      if n = 34 \<or> n = 92 then [CHR 0x5C, c]
      else if n = 7 then [CHR 0x5C, CHR ''a''] else if n = 8 then [CHR 0x5C, CHR ''b'']
      else if n = 9 then [CHR 0x5C, CHR ''t''] else if n = 10 then [CHR 0x5C, CHR ''n'']
      else if n = 11 then [CHR 0x5C, CHR ''v''] else if n = 12 then [CHR 0x5C, CHR ''f'']
      else if n = 13 then [CHR 0x5C, CHR ''r'']
      else if n < 32 \<or> n = 127 then [CHR 0x5C, CHR ''x'', hex_digit (n div 16), hex_digit (n mod 16)]
      else [c])"

definition go_quote :: "string \<Rightarrow> string" where
  "go_quote s = [CHR 0x22] @ concat (map quote_char s) @ [CHR 0x22]"

subsection \<open>Types and names\<close>

definition base_types :: "(string \<times> string) list" where
  "base_types =
     [(''int2'', ''int''), (''int4'', ''int''), (''int8'', ''int64''), (''varchar'', ''string''), (''text'', ''string''),
      (''bool'', ''bool''), (''float4'', ''float64''), (''float8'', ''float64''), (''timestamp'', ''time.Time''),
      (''timestamptz'', ''time.Time''), (''jsonb'', ''[]byte''), (''_varchar'', ''[]string''), (''_text'', ''[]string''),
      (''_int4'', ''[]int''), (''_int8'', ''[]int64''), (''uuid'', ''string''), (''citext'', ''string''), (''date'', ''time.Time''),
      (''bytea'', ''[]byte''), (''numeric'', ''string''), (''hstore'', ''map[string]string'')]"

definition go_type :: "col \<Rightarrow> gerr + string" where
  "go_type c =
     (if c_is_pk c \<and> (c_udt c = ''int4'' \<or> c_udt c = ''int8'') then Inr ''int64''
      else case map_of base_types (c_udt c) of
        None \<Rightarrow> Inl (External (''column '' @ c_name c @ '': no Go mapping for Postgres type '' @
          go_quote (c_udt c) @ '' '' @ em_dash @ '' add one to modelgen''))
      | Some b \<Rightarrow>
          if c_nullable c \<and> \<not> has_prefix b ''[]'' \<and> \<not> has_prefix b ''map['' then Inr (''*'' @ b) else Inr b)"

text \<open>\<open>part[:1]\<close> of an empty part panics.\<close>

fun field_part :: "(nat \<Rightarrow> nat) \<Rightarrow> string \<Rightarrow> string option" where
  "field_part uu [] = None"
| "field_part uu (c # cs) = Some (if c # cs = ''id'' then ''ID'' else to_upper uu [c] @ cs)"

definition field_name :: "(nat \<Rightarrow> nat) \<Rightarrow> string \<Rightarrow> string option" where
  "field_name uu column =
     (let parts = map (field_part uu) (split_on CHR ''_'' column) in
      if None \<in> set parts then None else Some (concat (map the parts)))"

definition receiver_name :: "(nat \<Rightarrow> nat) \<Rightarrow> string \<Rightarrow> string" where
  "receiver_name ul type_name =
     (let name = to_lower ul type_name in
      if name = ''db'' \<or> name = ''pgsql'' \<or> name = ''time'' then ''m'' else name)"

subsection \<open>The generator\<close>

definition panic :: gerr where
  "panic = External ''runtime error: slice bounds out of range''"

definition field_name_or_panic :: "(nat \<Rightarrow> nat) \<Rightarrow> string \<Rightarrow> gerr + string" where
  "field_name_or_panic uu n = (case field_name uu n of None \<Rightarrow> Inl panic | Some f \<Rightarrow> Inr f)"

fun struct_lines :: "(nat \<Rightarrow> nat) \<Rightarrow> col list \<Rightarrow> gerr + string" where
  "struct_lines uu [] = Inr []"
| "struct_lines uu (c # cs) =
     bindS (go_type c) (\<lambda>ty.
     bindS (field_name_or_panic uu (c_name c)) (\<lambda>f.
     bindS (struct_lines uu cs) (\<lambda>rest.
       Inr ((if c_comment c \<noteq> [] then tab @ ''// '' @ c_comment c @ nl else []) @
            tab @ f @ '' '' @ ty @ '' `db:'' @ go_quote (c_name c) @ ''`'' @ nl @ rest))))"

fun map_lines :: "(nat \<Rightarrow> nat) \<Rightarrow> string \<Rightarrow> col list \<Rightarrow> gerr + string" where
  "map_lines uu receiver [] = Inr []"
| "map_lines uu receiver (c # cs) =
     (if c_is_pk c then map_lines uu receiver cs
      else
        bindS (field_name_or_panic uu (c_name c)) (\<lambda>f.
        bindS (map_lines uu receiver cs) (\<lambda>rest.
          Inr (tab @ tab @ go_quote (c_name c) @ '': '' @ receiver @ ''.'' @ f @ '','' @ nl @ rest))))"

definition defaulted :: "col list \<Rightarrow> string list" where
  "defaulted cs = map c_name (filter (\<lambda>c. \<not> c_is_pk c \<and> c_has_default c) cs)"

definition render_model :: "(nat \<Rightarrow> nat) \<Rightarrow> (nat \<Rightarrow> nat) \<Rightarrow> table_config \<Rightarrow> col list \<Rightarrow> gerr + string" where
  "render_model ul uu t cs =
     (let receiver = receiver_name ul (TypeName t) in
      bindS (struct_lines uu cs) (\<lambda>fields.
      bindS (map_lines uu receiver cs) (\<lambda>entries.
        Inr (''// Code generated by modelgen from table '' @ go_quote (Table t) @ ''. DO NOT EDIT.'' @ nl @ nl @
          ''package '' @ Package t @ nl @ nl @
          ''// '' @ TypeName t @ '' is the row model for the '' @ Table t @ '' table.'' @ nl @
          ''type '' @ TypeName t @ '' struct {'' @ nl @ fields @ ''}'' @ nl @ nl @
          ''// ToRowMap returns the column map used to build inserts and updates.'' @ nl @
          ''// The primary key is omitted, and zero values are dropped for columns'' @ nl @
          ''// whose default lives in the database.'' @ nl @
          ''func ('' @ receiver @ '' '' @ TypeName t @ '') ToRowMap() pgsql.RowMap {'' @ nl @
          tab @ ''rm := pgsql.RowMap{'' @ nl @ entries @ tab @ ''}'' @ nl @
          (if defaulted cs \<noteq> []
           then nl @ tab @ ''db.FilterUnset(rm, '' @ join comma (map go_quote (defaulted cs)) @ '')'' @ nl else []) @
          nl @ tab @ ''return rm'' @ nl @ ''}'' @ nl))))"

text \<open>\<open>introspect\<close> is the catalog query: its failure to run, or to be read, or the columns.\<close>

datatype introspection = QueryFails gerr | ScanFails gerr | Columns "col list"

definition generate_model ::
  "(nat \<Rightarrow> nat) \<Rightarrow> (nat \<Rightarrow> nat) \<Rightarrow> (string \<Rightarrow> introspection) \<Rightarrow> (string \<Rightarrow> gerr + string) \<Rightarrow> table_config \<Rightarrow>
   disk \<Rightarrow> (gerr + unit) \<times> disk" where
  "generate_model ul uu introspect process t d =
     (case introspect (Table t) of
        QueryFails e \<Rightarrow> (Inl (errorf ''introspecting: '' e), d)
      | ScanFails e \<Rightarrow> (Inl (errorf ''scanning columns: '' e), d)
      | Columns [] \<Rightarrow> (Inl (External (''table '' @ Table t @ '' has no columns (does it exist?)'')), d)
      | Columns cs \<Rightarrow>
          (case render_model ul uu t cs of
             Inl err \<Rightarrow> (Inl err, d)
           | Inr src \<Rightarrow>
               (let path = Package t @ ''/'' @ Table t @ ''.gen.go'' in
                case process src of
                  Inl err \<Rightarrow> (Inl (Wrap ''resolving imports: '' err (nl @ src)), d)
                | Inr out \<Rightarrow> wrapE (errorf (''writing '' @ path @ '': '')) (write_file path out) d)))"

fun generate_models ::
  "(nat \<Rightarrow> nat) \<Rightarrow> (nat \<Rightarrow> nat) \<Rightarrow> (string \<Rightarrow> introspection) \<Rightarrow> (string \<Rightarrow> gerr + string) \<Rightarrow> table_config list \<Rightarrow>
   disk \<Rightarrow> (gerr + unit) \<times> disk" where
  "generate_models ul uu introspect process [] d = (Inr (), d)"
| "generate_models ul uu introspect process (t # ts) d =
     (case generate_model ul uu introspect process t d of
        (Inl err, d') \<Rightarrow> (Inl (errorf (''generating '' @ Table t @ '': '') err), d')
      | (Inr _, d') \<Rightarrow> generate_models ul uu introspect process ts d')"

subsection \<open>When it succeeds\<close>

text \<open>
  What the types of Postgres and of Go hold, from their documentation: integers of so many bits (Go's \<open>int\<close> has
  at least 32), floating-point numbers, decimals of any precision, and so on.  A decimal is held by its text.
\<close>

datatype kind = Whole nat | Floating nat | Decimal | Characters | Truth | Instant | Raw | Many kind | Pairs

definition pg_kind :: "string \<Rightarrow> kind option" where
  "pg_kind = map_of
     [(''int2'', Whole 16), (''int4'', Whole 32), (''int8'', Whole 64), (''float4'', Floating 32), (''float8'', Floating 64),
      (''numeric'', Decimal), (''varchar'', Characters), (''text'', Characters), (''citext'', Characters), (''uuid'', Characters),
      (''bool'', Truth), (''timestamp'', Instant), (''timestamptz'', Instant), (''date'', Instant), (''jsonb'', Raw), (''bytea'', Raw),
      (''_varchar'', Many Characters), (''_text'', Many Characters), (''_int4'', Many (Whole 32)), (''_int8'', Many (Whole 64)),
      (''hstore'', Pairs)]"

definition go_kind :: "string \<Rightarrow> kind option" where
  "go_kind = map_of
     [(''int'', Whole 32), (''int64'', Whole 64), (''float64'', Floating 64), (''string'', Characters), (''bool'', Truth),
      (''time.Time'', Instant), (''[]byte'', Raw), (''[]string'', Many Characters), (''[]int'', Many (Whole 32)),
      (''[]int64'', Many (Whole 64)), (''map[string]string'', Pairs)]"

fun holds :: "kind \<Rightarrow> kind \<Rightarrow> bool" where
  "holds (Whole a) (Whole b) = (a \<le> b)"
| "holds (Floating a) (Floating b) = (a \<le> b)"
| "holds Decimal Characters = True"
| "holds (Many a) (Many b) = holds a b"
| "holds a b = (a = b)"

text \<open>
  A type holds every value of a column: those of the column's type, and NULL when the column allows it (a
  primary key does not), in a pointer or in a slice or map, which have a nil of their own.
\<close>

definition holds_column :: "col \<Rightarrow> string \<Rightarrow> bool" where
  "holds_column c ty \<longleftrightarrow> (\<exists>k g b. pg_kind (c_udt c) = Some k \<and> go_kind b = Some g \<and> holds k g \<and>
     (if c_nullable c \<and> \<not> c_is_pk c then ty = ''*'' @ b \<or> ty = b \<and> (g = Raw \<or> g = Pairs \<or> (\<exists>e. g = Many e))
      else ty = b \<or> c_nullable c \<and> ty = ''*'' @ b))"

definition well_named :: "string \<Rightarrow> bool" where
  "well_named n \<longleftrightarrow> [] \<notin> set (split_on CHR ''_'' n)"

lemma base_types_kinds: "map_of base_types udt \<noteq> None \<longleftrightarrow> pg_kind udt \<noteq> None"
proof -
  have "fst ` set base_types = dom pg_kind"
    unfolding pg_kind_def dom_map_of_conv_image_fst by (simp add: base_types_def insert_commute)
  then show ?thesis by (metis domIff map_of_eq_None_iff)
qed

lemma base_types_hold:
  assumes "map_of base_types udt = Some b"
  shows "\<exists>k g. pg_kind udt = Some k \<and> go_kind b = Some g \<and> holds k g \<and>
    ((has_prefix b ''[]'' \<or> has_prefix b ''map['') \<longrightarrow> g = Raw \<or> g = Pairs \<or> (\<exists>e. g = Many e))"
proof -
  have "list_all (\<lambda>(udt, b). case (pg_kind udt, go_kind b) of
      (Some k, Some g) \<Rightarrow> holds k g \<and> ((has_prefix b ''[]'' \<or> has_prefix b ''map['') \<longrightarrow> g = Raw \<or> g = Pairs \<or> (\<exists>e. g = Many e))
    | _ \<Rightarrow> False) base_types"
    by (simp add: base_types_def pg_kind_def go_kind_def)
  moreover have "(udt, b) \<in> set base_types" using assms by (rule map_of_SomeD)
  ultimately show ?thesis by (fastforce simp: list_all_iff split: option.splits)
qed

lemma go_type_ok: "(\<exists>ty. go_type c = Inr ty) \<longleftrightarrow> pg_kind (c_udt c) \<noteq> None"
proof -
  have "c_udt c = ''int4'' \<or> c_udt c = ''int8'' \<Longrightarrow> pg_kind (c_udt c) \<noteq> None" by (auto simp: pg_kind_def)
  with base_types_kinds[of "c_udt c"] show ?thesis by (auto simp: go_type_def split: option.split)
qed

lemma go_type_holds: "go_type c = Inr ty \<Longrightarrow> holds_column c ty"
proof (cases "c_is_pk c \<and> (c_udt c = ''int4'' \<or> c_udt c = ''int8'')")
  case True
  moreover assume "go_type c = Inr ty"
  moreover have "go_kind ''int64'' = Some (Whole 64)" by (simp add: go_kind_def)
  moreover have "pg_kind ''int4'' = Some (Whole 32)" "pg_kind ''int8'' = Some (Whole 64)" by (simp_all add: pg_kind_def)
  ultimately show ?thesis by (auto simp: go_type_def holds_column_def intro!: exI[of _ "''int64''"])
next
  case False
  assume "go_type c = Inr ty"
  with False obtain b where b: "map_of base_types (c_udt c) = Some b"
    "ty = (if c_nullable c \<and> \<not> has_prefix b ''[]'' \<and> \<not> has_prefix b ''map['' then ''*'' @ b else b)"
    by (auto simp: go_type_def split: option.splits if_splits)
  from base_types_hold[OF b(1)] b(2) show ?thesis unfolding holds_column_def by (smt (verit))
qed

lemma field_name_ok: "field_name uu n = None \<longleftrightarrow> \<not> well_named n"
proof -
  have "None = field_part uu p \<longleftrightarrow> p = []" for p by (cases p) auto
  then show ?thesis by (simp add: field_name_def well_named_def Let_def image_iff)
qed

lemma field_name_or_panic_ok: "(\<exists>f. field_name_or_panic uu n = Inr f) \<longleftrightarrow> well_named n"
  using field_name_ok[of uu n] by (auto simp: field_name_or_panic_def split: option.split)

lemma struct_lines_ok: "(\<exists>s. struct_lines uu cs = Inr s) \<longleftrightarrow> (\<forall>c \<in> set cs. pg_kind (c_udt c) \<noteq> None \<and> well_named (c_name c))"
proof (induction cs)
  case (Cons c cs)
  with go_type_ok[of c] field_name_or_panic_ok[of uu "c_name c"] show ?case by (auto simp: bindS_eq_Inr)
qed simp

lemma map_lines_ok: "\<forall>c \<in> set cs. well_named (c_name c) \<Longrightarrow> \<exists>s. map_lines uu r cs = Inr s"
proof (induction cs)
  case (Cons c cs)
  with field_name_or_panic_ok[of uu "c_name c"] show ?case by (auto simp: bindS_eq_Inr)
qed simp

text \<open>The line of a field in the struct.\<close>

definition field_line :: "string \<Rightarrow> string \<Rightarrow> string \<Rightarrow> string" where
  "field_line field ty column = tab @ field @ '' '' @ ty @ '' `db:'' @ go_quote column @ ''`'' @ nl"

lemma sublist_skip: "sublist xs ys \<Longrightarrow> sublist xs (zs @ ys)"
  by (rule sublist_order.order_trans, assumption, rule sublist_append_leftI)

lemma struct_lines_fields:
  assumes "struct_lines uu cs = Inr s" and "c \<in> set cs"
  shows "\<exists>field ty. field_name uu (c_name c) = Some field \<and> holds_column c ty \<and> sublist (field_line field ty (c_name c)) s"
  using assms
proof (induction cs arbitrary: s)
  case (Cons d cs)
  from Cons.prems(1) obtain ty f rest where d: "go_type d = Inr ty" "field_name uu (c_name d) = Some f"
    and rest: "struct_lines uu cs = Inr rest"
    and s: "s = (if c_comment d \<noteq> [] then tab @ ''// '' @ c_comment d @ nl else []) @ field_line f ty (c_name d) @ rest"
    by (auto simp: bindS_eq_Inr field_name_or_panic_def field_line_def split: option.splits)
  show ?case
  proof (cases "c = d")
    case True
    with d go_type_holds[OF d(1)] show ?thesis unfolding s by (blast intro: sublist_appendI)
  next
    case False
    with Cons.IH[OF rest] Cons.prems(2) obtain field t where
      "field_name uu (c_name c) = Some field" "holds_column c t" "sublist (field_line field t (c_name c)) rest" by auto
    moreover have "sublist rest s" unfolding s by (intro sublist_skip sublist_order.order_refl)
    ultimately show ?thesis by (blast intro: sublist_order.order_trans)
  qed
qed simp

lemma render_model_ok: "(\<exists>src. render_model ul uu t cs = Inr src) \<longleftrightarrow>
    (\<forall>c \<in> set cs. pg_kind (c_udt c) \<noteq> None \<and> well_named (c_name c))"
proof -
  have "(\<exists>src. render_model ul uu t cs = Inr src) \<longleftrightarrow>
      (\<exists>s. struct_lines uu cs = Inr s) \<and> (\<exists>m. map_lines uu (receiver_name ul (TypeName t)) cs = Inr m)"
    by (cases "struct_lines uu cs"; cases "map_lines uu (receiver_name ul (TypeName t)) cs")
      (simp_all add: render_model_def Let_def)
  with struct_lines_ok[of uu cs] map_lines_ok[of cs uu "receiver_name ul (TypeName t)"] show ?thesis by blast
qed

lemma render_model_fields:
  assumes "render_model ul uu t cs = Inr src" and "c \<in> set cs"
  shows "\<exists>field ty. field_name uu (c_name c) = Some field \<and> holds_column c ty \<and> sublist (field_line field ty (c_name c)) src"
proof -
  obtain fields where f: "struct_lines uu cs = Inr fields" and part: "sublist fields src"
  proof (cases "struct_lines uu cs"; cases "map_lines uu (receiver_name ul (TypeName t)) cs")
    fix fields entries
    assume f: "struct_lines uu cs = Inr fields" and m: "map_lines uu (receiver_name ul (TypeName t)) cs = Inr entries"
    note src = assms(1)[unfolded render_model_def Let_def f m bindS_simps sum.inject, symmetric]
    have "sublist fields src"
      unfolding src by (rule sublist_append_rightI | rule sublist_skip)+
    with f show thesis by (rule that)
  qed (use assms(1) in \<open>simp_all add: render_model_def Let_def\<close>)
  from struct_lines_fields[OF f assms(2)] part show ?thesis by (blast intro: sublist_order.order_trans)
qed

lemma generate_model_run:
  assumes "introspect (Table t) = Columns cs"
  shows "generate_model ul uu introspect process t d =
    (if cs = [] then (Inl (External (''table '' @ Table t @ '' has no columns (does it exist?)'')), d)
     else case render_model ul uu t cs of
       Inl e \<Rightarrow> (Inl e, d)
     | Inr src \<Rightarrow>
         (case process src of
            Inl e \<Rightarrow> (Inl (Wrap ''resolving imports: '' e (nl @ src)), d)
          | Inr out \<Rightarrow> wrapE (errorf (''writing '' @ (Package t @ ''/'' @ Table t @ ''.gen.go'') @ '': ''))
              (write_file (Package t @ ''/'' @ Table t @ ''.gen.go'') out) d))"
  by (cases cs) (simp_all add: generate_model_def assms Let_def split: sum.split)



subsection \<open>The checked-in models\<close>

text \<open>The columns of \<open>migrations/001\<close> and \<open>005\<close>.\<close>

definition plain_col :: "string \<Rightarrow> string \<Rightarrow> bool \<Rightarrow> bool \<Rightarrow> col" where
  "plain_col n udt null dflt =
     \<lparr>c_name = n, c_udt = udt, c_nullable = null, c_has_default = dflt, c_is_pk = False, c_comment = []\<rparr>"

definition id_col :: col where
  "id_col = (plain_col ''id'' ''int8'' False False)\<lparr>c_is_pk := True\<rparr>"

definition users_columns :: "col list" where
  "users_columns = [id_col, plain_col ''email'' ''text'' False False, plain_col ''password_hash'' ''text'' False False,
     plain_col ''name'' ''text'' False True, plain_col ''roles'' ''_text'' False True,
     plain_col ''created_at'' ''timestamptz'' False True, plain_col ''updated_at'' ''timestamptz'' False True]"

definition tokens_columns :: "col list" where
  "tokens_columns = [id_col, plain_col ''user_id'' ''int8'' False False, plain_col ''token_hash'' ''text'' False False,
     plain_col ''expires_at'' ''timestamptz'' False False, plain_col ''used_at'' ''timestamptz'' True False,
     plain_col ''created_at'' ''timestamptz'' False True]"

lemmas columns_eval = users_columns_def tokens_columns_def id_col_def plain_col_def

text \<open>
  The two files of \<open>auth\<close> that are checked in, word by word; the import block, which \<open>imports.Process\<close>
  adds, is left out.
\<close>

definition qt :: "string \<Rightarrow> string" where
  "qt s = [CHR 0x22] @ s @ [CHR 0x22]"

definition method_doc :: "string list" where
  "method_doc = [''//'', ''ToRowMap'', ''returns'', ''the'', ''column'', ''map'', ''used'', ''to'', ''build'', ''inserts'', ''and'', ''updates.'',
     ''//'', ''The'', ''primary'', ''key'', ''is'', ''omitted,'', ''and'', ''zero'', ''values'', ''are'', ''dropped'', ''for'', ''columns'',
     ''//'', ''whose'', ''default'', ''lives'', ''in'', ''the'', ''database.'']"

definition users_gen_go :: "string list" where
  "users_gen_go =
     [''//'', ''Code'', ''generated'', ''by'', ''modelgen'', ''from'', ''table'', qt ''users'' @ ''.'', ''DO'', ''NOT'', ''EDIT.'',
      ''package'', ''auth'',
      ''//'', ''User'', ''is'', ''the'', ''row'', ''model'', ''for'', ''the'', ''users'', ''table.'',
      ''type'', ''User'', ''struct'', ''{'',
      ''ID'', ''int64'', ''`db:'' @ qt ''id'' @ ''`'',
      ''Email'', ''string'', ''`db:'' @ qt ''email'' @ ''`'',
      ''PasswordHash'', ''string'', ''`db:'' @ qt ''password_hash'' @ ''`'',
      ''Name'', ''string'', ''`db:'' @ qt ''name'' @ ''`'',
      ''Roles'', ''[]string'', ''`db:'' @ qt ''roles'' @ ''`'',
      ''CreatedAt'', ''time.Time'', ''`db:'' @ qt ''created_at'' @ ''`'',
      ''UpdatedAt'', ''time.Time'', ''`db:'' @ qt ''updated_at'' @ ''`'',
      ''}''] @ method_doc @
     [''func'', ''(user'', ''User)'', ''ToRowMap()'', ''pgsql.RowMap'', ''{'',
      ''rm'', '':='', ''pgsql.RowMap{'',
      qt ''email'' @ '':'', ''user.Email,'',
      qt ''password_hash'' @ '':'', ''user.PasswordHash,'',
      qt ''name'' @ '':'', ''user.Name,'',
      qt ''roles'' @ '':'', ''user.Roles,'',
      qt ''created_at'' @ '':'', ''user.CreatedAt,'',
      qt ''updated_at'' @ '':'', ''user.UpdatedAt,'',
      ''}'',
      ''db.FilterUnset(rm,'', qt ''name'' @ '','', qt ''roles'' @ '','', qt ''created_at'' @ '','', qt ''updated_at'' @ '')'',
      ''return'', ''rm'', ''}'']"

definition tokens_gen_go :: "string list" where
  "tokens_gen_go =
     [''//'', ''Code'', ''generated'', ''by'', ''modelgen'', ''from'', ''table'', qt ''password_reset_tokens'' @ ''.'', ''DO'', ''NOT'', ''EDIT.'',
      ''package'', ''auth'',
      ''//'', ''PasswordResetToken'', ''is'', ''the'', ''row'', ''model'', ''for'', ''the'', ''password_reset_tokens'', ''table.'',
      ''type'', ''PasswordResetToken'', ''struct'', ''{'',
      ''ID'', ''int64'', ''`db:'' @ qt ''id'' @ ''`'',
      ''UserID'', ''int64'', ''`db:'' @ qt ''user_id'' @ ''`'',
      ''TokenHash'', ''string'', ''`db:'' @ qt ''token_hash'' @ ''`'',
      ''ExpiresAt'', ''time.Time'', ''`db:'' @ qt ''expires_at'' @ ''`'',
      ''UsedAt'', ''*time.Time'', ''`db:'' @ qt ''used_at'' @ ''`'',
      ''CreatedAt'', ''time.Time'', ''`db:'' @ qt ''created_at'' @ ''`'',
      ''}''] @ method_doc @
     [''func'', ''(passwordresettoken'', ''PasswordResetToken)'', ''ToRowMap()'', ''pgsql.RowMap'', ''{'',
      ''rm'', '':='', ''pgsql.RowMap{'',
      qt ''user_id'' @ '':'', ''passwordresettoken.UserID,'',
      qt ''token_hash'' @ '':'', ''passwordresettoken.TokenHash,'',
      qt ''expires_at'' @ '':'', ''passwordresettoken.ExpiresAt,'',
      qt ''used_at'' @ '':'', ''passwordresettoken.UsedAt,'',
      qt ''created_at'' @ '':'', ''passwordresettoken.CreatedAt,'',
      ''}'',
      ''db.FilterUnset(rm,'', qt ''created_at'' @ '')'',
      ''return'', ''rm'', ''}'']"

text \<open>The words of a text: the formatter changes only the white space between them.\<close>

primrec words_from :: "string \<Rightarrow> string \<Rightarrow> string list" where
  "words_from w [] = (if w = [] then [] else [rev w])"
| "words_from w (c # cs) =
     (if c = CHR '' '' \<or> c = CHR 0x09 \<or> c = CHR 0x0A then (if w = [] then [] else [rev w]) @ words_from [] cs
      else words_from (c # w) cs)"

definition go_words :: "string \<Rightarrow> string list" where
  "go_words s = words_from [] s"

text \<open>
  What a generated \<open>ToRowMap\<close> does, from its words: the entries of the map literal, whose values are fields of
  the receiver, and then \<open>db.FilterUnset\<close> of the columns it names.
\<close>

fun literal_entries :: "string list \<Rightarrow> (string \<times> string) list \<times> string list" where
  "literal_entries (k # v # ws) =
     (if k = ''}'' then ([], v # ws)
      else case literal_entries ws of (es, rest) \<Rightarrow> ((k, v) # es, rest))"
| "literal_entries ws = ([], ws)"

definition run_to_row_map :: "(string \<Rightarrow> gval) \<Rightarrow> string list \<Rightarrow> row_map" where
  "run_to_row_map field ws =
     (case literal_entries (tl (dropWhile (\<lambda>w. w \<noteq> ''pgsql.RowMap{'') ws)) of (es, rest) \<Rightarrow>
        filter_unset
          (map_of (map (\<lambda>(k, v). (takeWhile (\<lambda>c. c \<noteq> CHR 0x22) (tl k), field (butlast (tl (dropWhile (\<lambda>c. c \<noteq> CHR ''.'') v))))) es))
          (if hd rest = ''db.FilterUnset(rm,''
           then map (\<lambda>w. takeWhile (\<lambda>c. c \<noteq> CHR 0x22) (tl w)) (takeWhile (\<lambda>w. w \<noteq> ''return'') (tl rest)) else []))"

text \<open>The fields of the two structs by their names in Go.\<close>

definition user_field :: "user \<Rightarrow> string \<Rightarrow> gval" where
  "user_field u f = the (map_of [(''ID'', VInt (u_id u)), (''Email'', VStr (u_email u)), (''PasswordHash'', VStr (u_password_hash u)),
     (''Name'', VStr (u_name u)), (''Roles'', VStrs (u_roles u)), (''CreatedAt'', VTime (u_created_at u)),
     (''UpdatedAt'', VTime (u_updated_at u))] f)"

definition token_field :: "reset_token \<Rightarrow> string \<Rightarrow> gval" where
  "token_field t f = the (map_of [(''ID'', VInt (t_id t)), (''UserID'', VInt (t_user_id t)), (''TokenHash'', VStr (t_token_hash t)),
     (''ExpiresAt'', VTime (t_expires_at t)), (''UsedAt'', VTimePtr (t_used_at t)), (''CreatedAt'', VTime (t_created_at t))] f)"

definition users_table :: table_config where
  "users_table = \<lparr>Table = ''users'', Package = ''auth'', TypeName = ''User''\<rparr>"

definition tokens_table :: table_config where
  "tokens_table = \<lparr>Table = ''password_reset_tokens'', Package = ''auth'', TypeName = ''PasswordResetToken''\<rparr>"


text \<open>The text as its lines, each ended by a newline.\<close>

definition lines_text :: "string list \<Rightarrow> string" where
  "lines_text ls = concat (map (\<lambda>l. l @ nl) ls)"

lemma words_line: "words_from w (l @ nl @ s) = words_from w l @ go_words s"
  by (induction l arbitrary: w) (simp_all add: nl_def go_words_def)

lemma words_lines: "go_words (lines_text ls) = concat (map go_words ls)"
  by (induction ls) (simp_all add: lines_text_def words_line go_words_def)

lemma go_quote_plain: "list_all (\<lambda>c. c \<in> set ''abcdefghijklmnopqrstuvwxyz_'') s \<Longrightarrow> go_quote s = qt s"
proof (induction s)
  case (Cons c s)
  have "quote_char c = [c]" using Cons.prems by (auto simp: quote_char_def)
  with Cons show ?case by (simp add: go_quote_def qt_def)
qed (simp add: go_quote_def qt_def)

definition users_lines :: "string list" where
  "users_lines =
     [''// Code generated by modelgen from table '' @ qt ''users'' @ ''. DO NOT EDIT.'', [], ''package auth'', [],
      ''// User is the row model for the users table.'', ''type User struct {'',
      tab @ ''ID int64 `db:'' @ qt ''id'' @ ''`'', tab @ ''Email string `db:'' @ qt ''email'' @ ''`'',
      tab @ ''PasswordHash string `db:'' @ qt ''password_hash'' @ ''`'', tab @ ''Name string `db:'' @ qt ''name'' @ ''`'',
      tab @ ''Roles []string `db:'' @ qt ''roles'' @ ''`'', tab @ ''CreatedAt time.Time `db:'' @ qt ''created_at'' @ ''`'',
      tab @ ''UpdatedAt time.Time `db:'' @ qt ''updated_at'' @ ''`'', ''}'', [],
      ''// ToRowMap returns the column map used to build inserts and updates.'',
      ''// The primary key is omitted, and zero values are dropped for columns'', ''// whose default lives in the database.'',
      ''func (user User) ToRowMap() pgsql.RowMap {'', tab @ ''rm := pgsql.RowMap{'',
      tab @ tab @ qt ''email'' @ '': user.Email,'', tab @ tab @ qt ''password_hash'' @ '': user.PasswordHash,'',
      tab @ tab @ qt ''name'' @ '': user.Name,'', tab @ tab @ qt ''roles'' @ '': user.Roles,'',
      tab @ tab @ qt ''created_at'' @ '': user.CreatedAt,'', tab @ tab @ qt ''updated_at'' @ '': user.UpdatedAt,'', tab @ ''}'', [],
      tab @ ''db.FilterUnset(rm, '' @ qt ''name'' @ '', '' @ qt ''roles'' @ '', '' @ qt ''created_at'' @ '', '' @ qt ''updated_at'' @ '')'', [],
      tab @ ''return rm'', ''}'']"

lemmas render_eval = render_model_def receiver_name_def field_name_or_panic_def field_name_def go_type_def base_types_def
  to_upper_def to_lower_def ascii_def ascii_upper_def ascii_lower_def chr_eval Let_def columns_eval defaulted_def comma_def

lemma users_rendered: "render_model ul uu users_table users_columns = Inr (lines_text users_lines)"
  by (simp add: render_eval users_table_def go_quote_plain users_lines_def lines_text_def)

lemma users_words: "concat (map go_words users_lines) = users_gen_go"
  by (simp add: users_lines_def users_gen_go_def method_doc_def go_words_def qt_def tab_def)

definition tokens_lines :: "string list" where
  "tokens_lines =
     [''// Code generated by modelgen from table '' @ qt ''password_reset_tokens'' @ ''. DO NOT EDIT.'', [], ''package auth'', [],
      ''// PasswordResetToken is the row model for the password_reset_tokens table.'', ''type PasswordResetToken struct {'',
      tab @ ''ID int64 `db:'' @ qt ''id'' @ ''`'', tab @ ''UserID int64 `db:'' @ qt ''user_id'' @ ''`'',
      tab @ ''TokenHash string `db:'' @ qt ''token_hash'' @ ''`'', tab @ ''ExpiresAt time.Time `db:'' @ qt ''expires_at'' @ ''`'',
      tab @ ''UsedAt *time.Time `db:'' @ qt ''used_at'' @ ''`'', tab @ ''CreatedAt time.Time `db:'' @ qt ''created_at'' @ ''`'',
      ''}'', [],
      ''// ToRowMap returns the column map used to build inserts and updates.'',
      ''// The primary key is omitted, and zero values are dropped for columns'', ''// whose default lives in the database.'',
      ''func (passwordresettoken PasswordResetToken) ToRowMap() pgsql.RowMap {'', tab @ ''rm := pgsql.RowMap{'',
      tab @ tab @ qt ''user_id'' @ '': passwordresettoken.UserID,'', tab @ tab @ qt ''token_hash'' @ '': passwordresettoken.TokenHash,'',
      tab @ tab @ qt ''expires_at'' @ '': passwordresettoken.ExpiresAt,'', tab @ tab @ qt ''used_at'' @ '': passwordresettoken.UsedAt,'',
      tab @ tab @ qt ''created_at'' @ '': passwordresettoken.CreatedAt,'', tab @ ''}'', [],
      tab @ ''db.FilterUnset(rm, '' @ qt ''created_at'' @ '')'', [],
      tab @ ''return rm'', ''}'']"

lemma tokens_rendered: "render_model ul uu tokens_table tokens_columns = Inr (lines_text tokens_lines)"
  by (simp add: render_eval tokens_table_def go_quote_plain tokens_lines_def lines_text_def)

lemma tokens_words: "concat (map go_words tokens_lines) = tokens_gen_go"
  by (simp add: tokens_lines_def tokens_gen_go_def method_doc_def go_words_def qt_def tab_def)

lemma users_run: "run_to_row_map (user_field u) users_gen_go = user_to_row_map u"
proof -
  have "[''email'' \<mapsto> user_field u ''Email'', ''password_hash'' \<mapsto> user_field u ''PasswordHash'', ''name'' \<mapsto> user_field u ''Name'',
      ''roles'' \<mapsto> user_field u ''Roles'', ''created_at'' \<mapsto> user_field u ''CreatedAt'', ''updated_at'' \<mapsto> user_field u ''UpdatedAt''] =
    map_of [(''email'', user_field u ''Email''), (''password_hash'', user_field u ''PasswordHash''), (''name'', user_field u ''Name''),
      (''roles'', user_field u ''Roles''), (''created_at'', user_field u ''CreatedAt''), (''updated_at'', user_field u ''UpdatedAt'')]"
    by (simp add: fun_upd_twist)
  moreover have "run_to_row_map (user_field u) users_gen_go = filter_unset
     (map_of [(''email'', user_field u ''Email''), (''password_hash'', user_field u ''PasswordHash''), (''name'', user_field u ''Name''),
      (''roles'', user_field u ''Roles''), (''created_at'', user_field u ''CreatedAt''), (''updated_at'', user_field u ''UpdatedAt'')])
     [''name'', ''roles'', ''created_at'', ''updated_at'']"
    by (simp add: run_to_row_map_def users_gen_go_def method_doc_def qt_def del: filter_unset.simps map_of.simps)
  ultimately show ?thesis unfolding user_to_row_map_def by (simp add: user_field_def del: filter_unset.simps)
qed

lemma tokens_run: "run_to_row_map (token_field t) tokens_gen_go = token_to_row_map t"
proof -
  have "[''user_id'' \<mapsto> token_field t ''UserID'', ''token_hash'' \<mapsto> token_field t ''TokenHash'', ''expires_at'' \<mapsto> token_field t ''ExpiresAt'',
      ''used_at'' \<mapsto> token_field t ''UsedAt'', ''created_at'' \<mapsto> token_field t ''CreatedAt''] =
    map_of [(''user_id'', token_field t ''UserID''), (''token_hash'', token_field t ''TokenHash''), (''expires_at'', token_field t ''ExpiresAt''),
      (''used_at'', token_field t ''UsedAt''), (''created_at'', token_field t ''CreatedAt'')]"
    by (simp add: fun_upd_twist)
  moreover have "run_to_row_map (token_field t) tokens_gen_go = filter_unset
     (map_of [(''user_id'', token_field t ''UserID''), (''token_hash'', token_field t ''TokenHash''), (''expires_at'', token_field t ''ExpiresAt''),
      (''used_at'', token_field t ''UsedAt''), (''created_at'', token_field t ''CreatedAt'')])
     [''created_at'']"
    by (simp add: run_to_row_map_def tokens_gen_go_def method_doc_def qt_def del: filter_unset.simps map_of.simps)
  ultimately show ?thesis unfolding token_to_row_map_def by (simp add: token_field_def del: filter_unset.simps)
qed

text \<open>
  C29: The checked-in models are the ones the generator makes of the schema.  For the columns the migrations
  declare, what it writes for \<open>users\<close> and \<open>password_reset_tokens\<close> is \<open>auth/users.gen.go\<close> and
  \<open>auth/password_reset_tokens.gen.go\<close>, word for word (the formatter moves white space and adds the imports).
  Executing the \<open>ToRowMap\<close> in that text - the map literal and the call of \<open>FilterUnset\<close> - gives the row maps
  the model works with: no primary key, and no column with a database default that is unset.
\<close>

theorem models_match_schema:
  "(\<exists>src. render_model ul uu users_table users_columns = Inr src \<and> go_words src = users_gen_go) \<and>
   (\<exists>src. render_model ul uu tokens_table tokens_columns = Inr src \<and> go_words src = tokens_gen_go) \<and>
   run_to_row_map (user_field u) users_gen_go = user_to_row_map u \<and>
   run_to_row_map (token_field t) tokens_gen_go = token_to_row_map t \<and>
   user_to_row_map u = [''email'' \<mapsto> VStr (u_email u), ''password_hash'' \<mapsto> VStr (u_password_hash u)] ++
     (if u_name u = [] then Map.empty else [''name'' \<mapsto> VStr (u_name u)]) ++
     (if u_roles u = None then Map.empty else [''roles'' \<mapsto> VStrs (u_roles u)]) ++
     (if u_created_at u = 0 then Map.empty else [''created_at'' \<mapsto> VTime (u_created_at u)]) ++
     (if u_updated_at u = 0 then Map.empty else [''updated_at'' \<mapsto> VTime (u_updated_at u)]) \<and>
   token_to_row_map t = [''user_id'' \<mapsto> VInt (t_user_id t), ''token_hash'' \<mapsto> VStr (t_token_hash t),
       ''expires_at'' \<mapsto> VTime (t_expires_at t), ''used_at'' \<mapsto> VTimePtr (t_used_at t)] ++
     (if t_created_at t = 0 then Map.empty else [''created_at'' \<mapsto> VTime (t_created_at t)])"
proof (intro conjI users_run tokens_run)
  show "\<exists>src. render_model ul uu users_table users_columns = Inr src \<and> go_words src = users_gen_go"
    "\<exists>src. render_model ul uu tokens_table tokens_columns = Inr src \<and> go_words src = tokens_gen_go"
    by (simp_all add: users_rendered tokens_rendered words_lines users_words tokens_words)
qed (rule ext, simp add: user_to_row_map_def token_to_row_map_def filter_unset_at map_add_def del: filter_unset.simps)+

subsection \<open>Names\<close>

lemma receiver_free: "receiver_name ul n \<notin> {''db'', ''pgsql'', ''time''}"
  by (simp add: receiver_name_def Let_def)

text \<open>The receiver may still be a keyword, and two columns may get one field name.\<close>

lemma receiver_keyword: "receiver_name ul ''Type'' = ''type''"
  by (simp add: receiver_name_def to_lower_def ascii_def ascii_lower_def chr_eval)

lemma field_name_collision: "field_name id ''id'' = field_name id ''i_d''"
  by (simp add: field_name_def to_upper_def ascii_def ascii_upper_def chr_eval Let_def)

end
