(* ===== verification/Boot.thy ===== *)
theory Boot
  imports Env_Config Logging Appname Router Jobs
begin

text \<open>
  How the process comes up: \<open>run\<close> of \<open>server.go\<close> as far as the listener, with the \<open>Configure\<close>
  functions it calls (\<open>telemetry\<close>, \<open>db\<close>, \<open>web\<close>, \<open>mailer\<close>, \<open>jobs\<close>, \<open>flows\<close>).  The process-wide
  variables are the fields of \<open>process\<close>; \<open>deferred\<close> is the stack of \<open>run\<close>'s \<open>defer\<close> statements,
  and \<open>events\<close> records, in order, the calls that leave the process.  What such a call answers is
  decided by \<open>fate\<close>, as for every other call.  \<open>local_pool\<close> is a pool that \<open>db.Configure\<close> has made and
  only its local variable names; \<open>workers\<close> is true from \<open>jobs.Start\<close> to \<open>jobs.Stop\<close>.
\<close>

subsection \<open>The process\<close>

datatype boot_call =
    NewExporter | MergeResource | ForceFlush | ShutdownTraces
  | SentryInit | SentryFlush
  | ParseConfig | NewPool | Ping | ClosePool
  | LoadAWSConfig | NewRiver | StartRiver | StopRiver
  | NewInngest | CreateWelcome
  | ShutdownHTTP

datatype deferral = FlushTraces bool | FlushSentry bool | CloseConn

datatype pool_state = NoPool | Open | Closing | Closed

text \<open>The router as far as the start decides on it: the directory of \<open>/public\<close>, and what is mounted beside its routes.\<close>

record mux =
  mux_public :: string
  mux_mounts :: "string list"

record 's process =
  environ :: getenv
  pworld :: world
  events :: "boot_call list"
  deferred :: "deferral list"
  error_log :: "string list"
  manager :: Manager
  webapp :: "'s app"
  cookie :: "session_config option"
  Outbox :: sender
  Conn :: pool_state
  local_pool :: bool
  Client :: "string option"
  workers :: bool
  echo_mux :: "mux option"
  inngest :: bool
  provider :: "string option"
  sentry :: "string option"

type_synonym ('s, 'a) boot = "('s process, gerr, 'a) act"

definition leaves :: "boot_call \<Rightarrow> (world, gerr, unit) act \<Rightarrow> ('s, unit) boot" where
  "leaves c m = (\<lambda>p. case m (pworld p) of (r, w) \<Rightarrow> (r, p\<lparr>pworld := w, events := events p @ [c]\<rparr>))"

definition ext_call :: "boot_call \<Rightarrow> ('s, unit) boot" where
  "ext_call c = leaves c (external_call id)"

definition log_error :: "string \<Rightarrow> ('s, unit) boot" where
  "log_error m = modify (\<lambda>p. p\<lparr>error_log := error_log p @ [m]\<rparr>)"

definition defer_to :: "deferral \<Rightarrow> ('s, unit) boot" where
  "defer_to d = modify (\<lambda>p. p\<lparr>deferred := d # deferred p\<rparr>)"

subsection \<open>The packages\<close>

definition logging_configure :: "(nat \<Rightarrow> nat) \<Rightarrow> string \<Rightarrow> string \<Rightarrow> ('s, unit) boot" where
  "logging_configure uu settings level = (\<lambda>p. case manager_configure uu settings level (manager p) of
     (r, m) \<Rightarrow> (r, p\<lparr>manager := m\<rparr>))"

text \<open>\<open>telemetry.Configure\<close>: the flag says whether the returned shutdown has a provider to flush.\<close>

definition telemetry_configure :: "string option \<Rightarrow> ('s, bool) boot" where
  "telemetry_configure info =
     bindE (gets environ) (\<lambda>os.
     if os ''OTEL_EXPORTER_OTLP_ENDPOINT'' = [] \<or> os ''OTEL_SDK_DISABLED'' = ''true'' then ret False
     else
       bindE (wrapE (errorf ''creating otlp exporter: '') (ext_call NewExporter)) (\<lambda>_.
       bindE (wrapE (errorf ''merging resource attributes: '') (ext_call MergeResource)) (\<lambda>_.
       bindE (modify (\<lambda>p. p\<lparr>provider := Some (service_name os info)\<rparr>)) (\<lambda>_.
       ret True))))"

definition configure_sentry :: "string \<Rightarrow> ('s, bool) boot" where
  "configure_sentry environment =
     bindE (gets environ) (\<lambda>os.
     if os ''SENTRY_DSN'' = [] then ret False
     else
       bindE (wrapE (errorf ''initializing sentry: '') (ext_call SentryInit)) (\<lambda>_.
       bindE (modify (\<lambda>p. p\<lparr>sentry := Some environment\<rparr>)) (\<lambda>_.
       ret True)))"

definition db_configure :: "('s, unit) boot" where
  "db_configure =
     bindE (wrapE (errorf ''parsing pool config: '') (ext_call ParseConfig)) (\<lambda>_.
     bindE (wrapE (errorf ''creating connection pool: '') (ext_call NewPool)) (\<lambda>_.
     bindE (modify (\<lambda>p. p\<lparr>local_pool := True\<rparr>)) (\<lambda>_.
     bindE (wrapE (errorf ''error pinging database: '') (ext_call Ping)) (\<lambda>_.
     modify (\<lambda>p. p\<lparr>Conn := Open, local_pool := False\<rparr>)))))"

definition db_close :: "('s, unit) boot" where
  "db_close = modify (\<lambda>p. p\<lparr>Conn := Closed, events := events p @ [ClosePool]\<rparr>)"

text \<open>
  \<open>registerHstore\<close>, run on every new connection: \<open>found\<close> is the row of the catalog query, or
  nothing when it fails; the connection's type map is from OIDs to type names.
\<close>

fun register_hstore :: "(nat \<times> nat) option \<Rightarrow> (nat \<rightharpoonup> string) \<Rightarrow> (nat \<rightharpoonup> string)" where
  "register_hstore None types = types"
| "register_hstore (Some (oid, array_oid)) types = types(oid \<mapsto> ''hstore'', array_oid \<mapsto> ''_hstore'')"

definition web_setup :: "string \<Rightarrow> ('s, unit) boot" where
  "web_setup appEnv = modify (\<lambda>p. case web_configure appEnv (webapp p) of
     (a, c) \<Rightarrow> p\<lparr>webapp := a, cookie := Some c\<rparr>)"

definition new_ses :: "string \<Rightarrow> ('s, sender) boot" where
  "new_ses sent_from =
     bindE (wrapE (errorf ''loading aws config: '') (ext_call LoadAWSConfig)) (\<lambda>_. ret (SES sent_from))"

definition jobs_configure :: "string \<Rightarrow> ('s, unit) boot" where
  "jobs_configure base_url =
     bindE (wrapE (errorf ''creating river client: '') (ext_call NewRiver)) (\<lambda>_.
     modify (\<lambda>p. p\<lparr>Client := Some base_url\<rparr>))"

definition jobs_start :: "('s, unit) boot" where
  "jobs_start = bindE (leaves StartRiver start) (\<lambda>_. modify (\<lambda>p. p\<lparr>workers := True\<rparr>))"

definition register_welcome :: "('s, unit) boot" where
  "register_welcome = wrapE (errorf ''creating welcome function: '') (ext_call CreateWelcome)"

definition flows_configure :: "('s, unit) boot" where
  "flows_configure =
     bindE (wrapE (errorf ''creating inngest client: '') (ext_call NewInngest)) (\<lambda>_.
     bindE (wrapE (errorf ''registering welcome flow: '') register_welcome) (\<lambda>_.
     modify (\<lambda>p. p\<lparr>inngest := True\<rparr>)))"

text \<open>
  \<open>web.Router\<close> before the chain of \<open>Router\<close>: without sessions it panics, which runs the deferred calls
  as a return does.
\<close>

definition new_router :: "string \<Rightarrow> ('s, unit) boot" where
  "new_router public_dir =
     bindE (gets cookie) (\<lambda>sess.
     if sess = None
     then fail (External ''web.Router: call web.Configure before building the router'')
     else modify (\<lambda>p. p\<lparr>echo_mux := Some \<lparr>mux_public = public_dir, mux_mounts = []\<rparr>\<rparr>))"

definition mount_flows :: "('s, unit) boot" where
  "mount_flows = modify (\<lambda>p. p\<lparr>echo_mux :=
     map_option (\<lambda>m. m\<lparr>mux_mounts := mux_mounts m @ [''/api/inngest'']\<rparr>) (echo_mux p)\<rparr>)"

subsection \<open>The start of run\<close>

record http_server =
  Addr :: string
  ReadHeaderTimeout :: int
  ReadTimeout :: int
  WriteTimeout :: int
  IdleTimeout_s :: int

definition listen_addr :: "env \<Rightarrow> string" where
  "listen_addr cfg = (if env_dev cfg then ''localhost:'' @ Port cfg else '':'' @ Port cfg)"

definition http_server_of :: "string \<Rightarrow> http_server" where
  "http_server_of addr =
     \<lparr>Addr = addr, ReadHeaderTimeout = 10, ReadTimeout = 30, WriteTimeout = 30, IdleTimeout_s = 120\<rparr>"

definition load_env :: "(string \<Rightarrow> string) \<Rightarrow> ('s, env) boot" where
  "load_env quote = (\<lambda>p. (env_load quote (environ p), p))"

text \<open>\<open>run\<close> up to the listener.\<close>

definition start_up :: "(nat \<Rightarrow> nat) \<Rightarrow> (string \<Rightarrow> string) \<Rightarrow> string option \<Rightarrow> ('s, http_server) boot" where
  "start_up uu quote info =
     bindE (load_env quote) (\<lambda>cfg.
     bindE (logging_configure uu ''_all'' ''info'') (\<lambda>_.
     bindE (wrapE (errorf ''configuring telemetry: '') (telemetry_configure info)) (\<lambda>traced.
     bindE (defer_to (FlushTraces traced)) (\<lambda>_.
     bindE (wrapE (errorf ''configuring sentry: '') (configure_sentry (AppEnv cfg))) (\<lambda>reported.
     bindE (defer_to (FlushSentry reported)) (\<lambda>_.
     bindE db_configure (\<lambda>_.
     bindE (defer_to CloseConn) (\<lambda>_.
     bindE (web_setup (AppEnv cfg)) (\<lambda>_.
     bindE (if MailFrom cfg \<noteq> []
            then bindE (wrapE (errorf ''configuring ses mailer: '') (new_ses (MailFrom cfg))) (\<lambda>sndr.
                 modify (\<lambda>p. p\<lparr>Outbox := sndr\<rparr>))
            else ret ()) (\<lambda>_.
     bindE (wrapE (errorf ''configuring jobs: '') (jobs_configure (BaseURL cfg))) (\<lambda>_.
     bindE (wrapE (errorf ''starting jobs: '') jobs_start) (\<lambda>_.
     bindE (new_router (PublicDir cfg)) (\<lambda>_.
     bindE (wrapE (errorf ''configuring flows: '') flows_configure) (\<lambda>_.
     bindE mount_flows (\<lambda>_.
     ret (http_server_of (listen_addr cfg)))))))))))))))))"

subsection \<open>The deferred calls\<close>

fun run_deferred :: "deferral \<Rightarrow> ('s, unit) boot" where
  "run_deferred (FlushTraces installed) =
     (if installed
      then bindE (attempt (ext_call ForceFlush)) (\<lambda>flushed.
           bindE (attempt (ext_call ShutdownTraces)) (\<lambda>down.
           if isl flushed \<or> isl down then log_error ''flushing traces'' else ret ()))
      else ret ())"
| "run_deferred (FlushSentry installed) =
     (if installed
      then bindE (attempt (ext_call SentryFlush)) (\<lambda>r. if isl r then log_error ''flushing sentry events'' else ret ())
      else ret ())"
| "run_deferred CloseConn = db_close"

fun unwind :: "deferral list \<Rightarrow> 's process \<Rightarrow> 's process" where
  "unwind [] p = p"
| "unwind (d # ds) p = unwind ds (snd (run_deferred d (p\<lparr>deferred := ds\<rparr>)))"

text \<open>\<open>run\<close> when it does not come to listen: the error, and the process after the deferred calls.\<close>

definition return_from_run :: "'s process \<Rightarrow> 's process" where
  "return_from_run p = unwind (deferred p) p"

subsection \<open>How the pieces run\<close>

definition called :: "boot_call \<Rightarrow> world \<Rightarrow> 's process \<Rightarrow> 's process" where
  "called c w p = p\<lparr>pworld := w, events := events p @ [c]\<rparr>"

lemma called_fields [simp]:
  "environ (called c w p) = environ p" "deferred (called c w p) = deferred p" "manager (called c w p) = manager p"
  "webapp (called c w p) = webapp p" "cookie (called c w p) = cookie p" "Outbox (called c w p) = Outbox p"
  "Conn (called c w p) = Conn p" "Client (called c w p) = Client p" "inngest (called c w p) = inngest p"
  "provider (called c w p) = provider p" "sentry (called c w p) = sentry p" "pworld (called c w p) = w"
  "local_pool (called c w p) = local_pool p" "workers (called c w p) = workers p"
  "echo_mux (called c w p) = echo_mux p" "events (called c w p) = events p @ [c]" "error_log (called c w p) = error_log p"
  by (simp_all add: called_def)

lemma leaves_run: "leaves c m p = (fst (m (pworld p)), called c (snd (m (pworld p))) p)"
  by (simp add: leaves_def called_def split: prod.split)

lemma ext_call_run: "ext_call c p = (fst (external_call id (pworld p)), called c (snd (external_call id (pworld p))) p)"
  by (simp add: ext_call_def leaves_run)

lemma bind_wrap_ext:
  "bindE (wrapE f (ext_call c)) k p =
     (case fst (external_call id (pworld p)) of
        Inl e \<Rightarrow> (Inl (f e), called c (snd (external_call id (pworld p))) p)
      | Inr u \<Rightarrow> k u (called c (snd (external_call id (pworld p))) p))"
  by (simp add: bindE_def wrapE_def ext_call_run split: sum.split)

subsection \<open>Every resource in use has its deferred release\<close>

definition boot_inv :: "'s process \<Rightarrow> bool" where
  "boot_inv p \<longleftrightarrow>
     Conn p \<noteq> Closed \<and> Conn p \<noteq> Closing \<and> (Conn p = Open \<longleftrightarrow> CloseConn \<in> set (deferred p)) \<and>
     (sentry p \<noteq> None \<longleftrightarrow> FlushSentry True \<in> set (deferred p)) \<and>
     (provider p \<noteq> None \<longleftrightarrow> FlushTraces True \<in> set (deferred p))"

lemma boot_inv_called [simp]: "boot_inv (called c w p) = boot_inv p"
  by (simp add: boot_inv_def)

lemma boot_inv_leaves [keeps_intros]: "keeps boot_inv (leaves c m)" "keeps boot_inv (ext_call c)"
  by (simp_all add: keeps_def leaves_run ext_call_run)

lemma boot_inv_frame [keeps_intros]:
  "keeps boot_inv (load_env quote)" "keeps boot_inv (logging_configure uu st lv)"
  "keeps boot_inv (web_setup e)" "keeps boot_inv (modify (\<lambda>p. p\<lparr>Outbox := sndr\<rparr>))"
  "keeps boot_inv (modify (\<lambda>p. p\<lparr>Client := cl\<rparr>))" "keeps boot_inv (modify (\<lambda>p. p\<lparr>inngest := b\<rparr>))"
  "keeps boot_inv (modify (\<lambda>p. p\<lparr>workers := b\<rparr>))"
  "keeps boot_inv (modify (\<lambda>p. p\<lparr>echo_mux := g p\<rparr>))"
  by (simp_all add: keeps_def boot_inv_def load_env_def logging_configure_def web_setup_def split: prod.split)

text \<open>A \<open>Configure\<close> and the \<open>defer\<close> after it are one step: when it fails, nothing is installed.\<close>

lemma boot_inv_telemetry: "keeps boot_inv (bindE (wrapE f (telemetry_configure info)) (\<lambda>on. defer_to (FlushTraces on)))"
  by (rule keepsI)
    (simp add: telemetry_configure_def bind_wrap_ext defer_to_def bindE_def wrapE_def ext_call_run
      split: sum.split, simp add: boot_inv_def)

lemma boot_inv_sentry: "keeps boot_inv (bindE (wrapE f (configure_sentry e)) (\<lambda>on. defer_to (FlushSentry on)))"
  by (rule keepsI)
    (simp add: configure_sentry_def bind_wrap_ext defer_to_def bindE_def wrapE_def ext_call_run
      split: sum.split, simp add: boot_inv_def)

lemma boot_inv_db:
  assumes "boot_inv p" and "Conn p = NoPool"
  shows "boot_inv (snd (bindE db_configure (\<lambda>_. defer_to CloseConn) p))"
  using assms by (simp add: db_configure_def bindE_assoc bind_wrap_ext defer_to_def split: sum.split)
    (auto simp: boot_inv_def)

text \<open>The start as a chain of such steps.\<close>

definition after_db :: "env \<Rightarrow> ('s, http_server) boot" where
  "after_db cfg =
     bindE (web_setup (AppEnv cfg)) (\<lambda>_.
     bindE (if MailFrom cfg \<noteq> []
            then bindE (wrapE (errorf ''configuring ses mailer: '') (new_ses (MailFrom cfg))) (\<lambda>sndr.
                 modify (\<lambda>p. p\<lparr>Outbox := sndr\<rparr>))
            else ret ()) (\<lambda>_.
     bindE (wrapE (errorf ''configuring jobs: '') (jobs_configure (BaseURL cfg))) (\<lambda>_.
     bindE (wrapE (errorf ''starting jobs: '') jobs_start) (\<lambda>_.
     bindE (new_router (PublicDir cfg)) (\<lambda>_.
     bindE (wrapE (errorf ''configuring flows: '') flows_configure) (\<lambda>_.
     bindE mount_flows (\<lambda>_.
     ret (http_server_of (listen_addr cfg)))))))))"

lemma start_up_chain:
  "start_up uu quote info =
     bindE (load_env quote) (\<lambda>cfg.
     bindE (logging_configure uu ''_all'' ''info'') (\<lambda>_.
     bindE (bindE (wrapE (errorf ''configuring telemetry: '') (telemetry_configure info))
        (\<lambda>on. defer_to (FlushTraces on))) (\<lambda>_.
     bindE (bindE (wrapE (errorf ''configuring sentry: '') (configure_sentry (AppEnv cfg)))
        (\<lambda>on. defer_to (FlushSentry on))) (\<lambda>_.
     bindE (bindE db_configure (\<lambda>_. defer_to CloseConn)) (\<lambda>_.
     after_db cfg)))))"
  by (simp add: start_up_def after_db_def bindE_assoc)

lemma boot_inv_after_db: "keeps boot_inv (after_db cfg)"
  unfolding after_db_def new_ses_def jobs_configure_def jobs_start_def flows_configure_def register_welcome_def
    new_router_def mount_flows_def
  by (intro keeps_intros)

lemma no_pool_yet:
  "snd (load_env quote p) = p" "Conn (snd (logging_configure uu st lv p)) = Conn p"
  "Conn (snd (bindE (wrapE f (telemetry_configure info)) (\<lambda>on. defer_to (FlushTraces on)) p)) = Conn p"
  "Conn (snd (bindE (wrapE f (configure_sentry e)) (\<lambda>on. defer_to (FlushSentry on)) p)) = Conn p"
  by (simp_all add: load_env_def logging_configure_def telemetry_configure_def configure_sentry_def
      bind_wrap_ext defer_to_def bindE_def wrapE_def ext_call_run split: sum.split prod.split)

lemma start_up_inv: "leads (\<lambda>p. boot_inv p \<and> Conn p = NoPool) (start_up uu quote info) boot_inv"
proof -
  let ?I = "\<lambda>p. boot_inv p \<and> Conn p = NoPool"
  have frame: "keeps ?I m" if "keeps boot_inv m" "\<And>p. Conn (snd (m p)) = Conn p" for m :: "('a, 'b) boot"
    using that by (simp add: keeps_def)
  have db: "leads ?I (bindE (bindE db_configure (\<lambda>_. defer_to CloseConn)) (\<lambda>_. after_db cfg)) boot_inv" for cfg
    by (rule leads_after[OF _ boot_inv_after_db]) (simp add: leads_def boot_inv_db)
  have cfg: "keeps ?I (load_env quote)" "keeps ?I (logging_configure uu ''_all'' ''info'')"
    using boot_inv_frame(1,2) by (auto simp: keeps_def no_pool_yet)
  show ?thesis
    unfolding start_up_chain
    by (intro leads_before frame boot_inv_telemetry boot_inv_sentry db cfg no_pool_yet) simp_all
qed

subsection \<open>Returning\<close>

fun closing :: "deferral \<Rightarrow> boot_call list" where
  "closing (FlushTraces installed) = (if installed then [ForceFlush, ShutdownTraces] else [])"
| "closing (FlushSentry installed) = (if installed then [SentryFlush] else [])"
| "closing CloseConn = [ClosePool]"

lemma run_deferred_fields:
  "events (snd (run_deferred d p)) = events p @ closing d" "deferred (snd (run_deferred d p)) = deferred p"
  "Conn (snd (run_deferred d p)) = (if d = CloseConn then Closed else Conn p)"
  "provider (snd (run_deferred d p)) = provider p" "sentry (snd (run_deferred d p)) = sentry p"
  "webapp (snd (run_deferred d p)) = webapp p" "Client (snd (run_deferred d p)) = Client p"
  "local_pool (snd (run_deferred d p)) = local_pool p" "workers (snd (run_deferred d p)) = workers p"
  "\<exists>xs. set xs \<subseteq> {''flushing traces'', ''flushing sentry events''} \<and> error_log (snd (run_deferred d p)) = error_log p @ xs"
  by (cases d; auto simp: bindE_def attempt_def ext_call_run log_error_def db_close_def split: if_splits)+

lemma unwind_fields:
  "events (unwind ds p) = events p @ concat (map closing ds)"
  "deferred (unwind ds p) = (if ds = [] then deferred p else [])"
  "Conn (unwind ds p) = (if CloseConn \<in> set ds then Closed else Conn p)"
  "local_pool (unwind ds p) = local_pool p" "workers (unwind ds p) = workers p"
  by (induction ds arbitrary: p) (auto simp: run_deferred_fields db_close_def)

definition fresh_process :: "'s process \<Rightarrow> bool" where
  "fresh_process p \<longleftrightarrow> deferred p = [] \<and> Conn p = NoPool \<and> provider p = None \<and> sentry p = None \<and>
     \<not> local_pool p \<and> \<not> workers p \<and> Client p = None \<and> \<not> inngest p \<and> Outbox p = LogSender \<and> error_log p = []"

lemma fresh_boot_inv: "fresh_process p \<Longrightarrow> boot_inv p \<and> Conn p = NoPool"
  by (simp add: fresh_process_def boot_inv_def)

subsection \<open>A process that is up\<close>

lemma ext_call_Inr [simp]: "ext_call c p = (Inr u, p') \<longleftrightarrow>
    fst (external_call id (pworld p)) = Inr u \<and> p' = called c (snd (external_call id (pworld p))) p"
  by (auto simp: ext_call_run)

definition core :: "'s process \<Rightarrow> _" where
  "core p = (environ p, deferred p, webapp p, cookie p, Outbox p, Conn p, local_pool p, Client p, workers p, inngest p, echo_mux p)"

lemma core_frame [simp]:
  "core (called c w p) = core p" "core (p\<lparr>provider := t\<rparr>) = core p" "core (p\<lparr>sentry := e\<rparr>) = core p"
  "core (p\<lparr>manager := m\<rparr>) = core p"
  by (simp_all add: core_def)

definition traces_on :: "getenv \<Rightarrow> bool" where
  "traces_on os \<longleftrightarrow> os ''OTEL_EXPORTER_OTLP_ENDPOINT'' \<noteq> [] \<and> os ''OTEL_SDK_DISABLED'' \<noteq> ''true''"

lemma configured_Inr:
  "telemetry_configure info p = (Inr on, p') \<Longrightarrow> on = traces_on (environ p) \<and> core p' = core p"
  "configure_sentry e p = (Inr on, p') \<Longrightarrow> on = (environ p ''SENTRY_DSN'' \<noteq> []) \<and> core p' = core p"
  "db_configure p = (Inr u, p') \<Longrightarrow> core p' = core (p\<lparr>Conn := Open, local_pool := False\<rparr>)"
  "jobs_configure b p = (Inr u, p') \<Longrightarrow> core p' = core (p\<lparr>Client := Some b\<rparr>)"
  "jobs_start p = (Inr u, p') \<Longrightarrow> core p' = core (p\<lparr>workers := True\<rparr>)"
  "new_ses f p = (Inr sndr, p') \<Longrightarrow> sndr = SES f \<and> core p' = core p"
  "new_router d p = (Inr u, p') \<Longrightarrow> core p' = core (p\<lparr>echo_mux := Some \<lparr>mux_public = d, mux_mounts = []\<rparr>\<rparr>)"
  "flows_configure p = (Inr u, p') \<Longrightarrow> core p' = core (p\<lparr>inngest := True\<rparr>)"
  "leaves c m p = (Inr u, p') \<Longrightarrow> core p' = core p"
  by (auto simp: telemetry_configure_def configure_sentry_def db_configure_def jobs_configure_def jobs_start_def new_ses_def
      flows_configure_def register_welcome_def new_router_def leaves_run traces_on_def bindE_eq_Inr core_def split: if_splits)

definition wired :: "env \<Rightarrow> 's process \<Rightarrow> 's process \<Rightarrow> bool" where
  "wired cfg p p' \<longleftrightarrow>
     deferred p' = [CloseConn, FlushSentry (environ p ''SENTRY_DSN'' \<noteq> []), FlushTraces (traces_on (environ p))] \<and>
     Conn p' = Open \<and> Client p' = Some (BaseURL cfg) \<and> workers p' \<and> inngest p' \<and>
     Outbox p' = (if MailFrom cfg \<noteq> [] then SES (MailFrom cfg) else Outbox p) \<and>
     echo_mux p' = Some \<lparr>mux_public = PublicDir cfg, mux_mounts = [''/api/inngest'']\<rparr> \<and>
     webapp p' = (webapp p)\<lparr>dev_mode := (AppEnv cfg = Development), prod_mode := (AppEnv cfg = Production)\<rparr> \<and>
     cookie p' = Some (session_settings (AppEnv cfg))"

lemma after_db_Inr:
  assumes "after_db cfg p = (Inr srv, p')"
  shows "srv = http_server_of (listen_addr cfg) \<and>
    core p' = core (p\<lparr>webapp := (webapp p)\<lparr>dev_mode := (AppEnv cfg = Development), prod_mode := (AppEnv cfg = Production)\<rparr>,
      cookie := Some (session_settings (AppEnv cfg)), Outbox := (if MailFrom cfg \<noteq> [] then SES (MailFrom cfg) else Outbox p),
      Client := Some (BaseURL cfg), workers := True, inngest := True,
      echo_mux := Some \<lparr>mux_public = PublicDir cfg, mux_mounts = [''/api/inngest'']\<rparr>\<rparr>)"
  using assms
  by (auto simp: after_db_def bindE_eq_Inr web_setup_def web_configure_def mount_flows_def dest!: configured_Inr split: if_splits;
      auto simp: core_def)

lemma start_up_Inr:
  assumes "start_up uu quote info p = (Inr srv, p')" and "deferred p = []"
  shows "\<exists>cfg. env_load quote (environ p) = Inr cfg \<and> srv = http_server_of (listen_addr cfg) \<and> wired cfg p p'"
proof -
  have "load_env quote p = (Inr cfg, p0) \<Longrightarrow> env_load quote (environ p) = Inr cfg \<and> p0 = p" for cfg p0
    by (auto simp: load_env_def)
  moreover have "logging_configure uu st lv p = (Inr u, p1) \<Longrightarrow> core p1 = core p" for st lv u p1
    by (auto simp: logging_configure_def split: prod.splits)
  ultimately obtain cfg p1 where cfg: "env_load quote (environ p) = Inr cfg" and p1: "core p1 = core p"
    and rest: "bindE (bindE (wrapE (errorf ''configuring telemetry: '') (telemetry_configure info))
        (\<lambda>on. defer_to (FlushTraces on))) (\<lambda>_.
     bindE (bindE (wrapE (errorf ''configuring sentry: '') (configure_sentry (AppEnv cfg)))
        (\<lambda>on. defer_to (FlushSentry on))) (\<lambda>_.
     bindE (bindE db_configure (\<lambda>_. defer_to CloseConn)) (\<lambda>_.
     after_db cfg))) p1 = (Inr srv, p')"
    using assms(1) unfolding start_up_chain bindE_eq_Inr[of "load_env quote"]
      bindE_eq_Inr[of "logging_configure uu ''_all'' ''info''"] by metis
  from rest obtain on p2 sn p3 p4 where t: "telemetry_configure info p1 = (Inr on, p2)"
    and s: "configure_sentry (AppEnv cfg) (p2\<lparr>deferred := FlushTraces on # deferred p2\<rparr>) = (Inr sn, p3)"
    and d: "db_configure (p3\<lparr>deferred := FlushSentry sn # deferred p3\<rparr>) = (Inr (), p4)"
    and a: "after_db cfg (p4\<lparr>deferred := CloseConn # deferred p4\<rparr>) = (Inr srv, p')"
    by (auto simp: bindE_eq_Inr defer_to_def)
  from cfg p1 configured_Inr(1)[OF t] configured_Inr(2)[OF s] configured_Inr(3)[OF d] after_db_Inr[OF a] assms(2)
  show ?thesis by (auto simp: core_def wired_def)
qed

text \<open>The settings \<open>run\<close> gives the loggers always parse, and enable every logger.\<close>

lemma boot_logging:
  "new_config uu ''_all'' ''info'' = Inr \<lparr>lc_value = ''_all'', defaultLevel = InfoLevel, includeAll = True,
     lc_include = Map.empty, lc_level = Map.empty, lc_exclude = Map.empty\<rparr>"
  by (simp add: new_config_def apply_tag_def sample_trims parse_log_level_def Let_def to_upper_def ascii_def
      ascii_upper_def chr_eval)

lemma logging_configure_ok: "\<exists>m. logging_configure uu ''_all'' ''info'' p = (Inr (), p\<lparr>manager := m\<rparr>)"
  by (simp add: logging_configure_def manager_configure_def boot_logging) (rule exI, rule refl)

lemma ext_call_reliable:
  "reliable (pworld p) \<Longrightarrow> ext_call c p = (Inr (), called c (tick (pworld p)) p)"
  by (simp add: ext_call_run external_call_reliable)

lemma start_up_reliable:
  assumes "reliable (pworld p)" and "env_load quote (environ p) = Inr cfg"
  shows "\<exists>p'. start_up uu quote info p = (Inr (http_server_of (listen_addr cfg)), p')"
proof -
  have start: "leaves StartRiver start q = (Inr (), called StartRiver (tick (pworld q)) q)"
    if "reliable (pworld q)" for q :: "'a process"
    using that by (simp add: leaves_run start_def wrapE_def external_call_reliable)
  obtain m where m: "logging_configure uu ''_all'' ''info'' p = (Inr (), p\<lparr>manager := m\<rparr>)"
    using logging_configure_ok by blast
  have "load_env quote p = (Inr cfg, p)" using assms(2) by (simp add: load_env_def)
  with m assms(1) show ?thesis
    by (simp add: start_up_def bindE_def wrapE_def telemetry_configure_def configure_sentry_def db_configure_def
        web_setup_def new_ses_def jobs_configure_def jobs_start_def flows_configure_def register_welcome_def new_router_def
        mount_flows_def web_configure_def defer_to_def ext_call_reliable start split: prod.split)
qed

lemma start_up_log: "start_up uu quote info p = (r, p') \<Longrightarrow> error_log p' = error_log p"
proof -
  let ?I = "\<lambda>q. error_log q = error_log p"
  have "keeps ?I (leaves c m)" "keeps ?I (ext_call c)" "keeps ?I (load_env quote)"
    "keeps ?I (logging_configure uu st lv)" "keeps ?I (web_setup e)" "keeps ?I (defer_to d)"
    "keeps ?I (modify (\<lambda>q. q\<lparr>Outbox := sndr\<rparr>))" "keeps ?I (modify (\<lambda>q. q\<lparr>Client := cl\<rparr>))"
    "keeps ?I (modify (\<lambda>q. q\<lparr>inngest := b\<rparr>))" "keeps ?I (modify (\<lambda>q. q\<lparr>provider := t\<rparr>))"
    "keeps ?I (modify (\<lambda>q. q\<lparr>sentry := t\<rparr>))" "keeps ?I (modify (\<lambda>q. q\<lparr>Conn := cn, local_pool := b\<rparr>))"
    "keeps ?I (modify (\<lambda>q. q\<lparr>local_pool := b\<rparr>))" "keeps ?I (modify (\<lambda>q. q\<lparr>workers := b\<rparr>))"
    "keeps ?I (modify (\<lambda>q. q\<lparr>echo_mux := g q\<rparr>))"
    for c m st lv e d sndr cl b t cn g
    by (simp_all add: keeps_def leaves_run ext_call_run load_env_def logging_configure_def web_setup_def
        defer_to_def split: prod.split)
  note frame = this
  have "keeps ?I (start_up uu quote info)"
    unfolding start_up_def telemetry_configure_def configure_sentry_def db_configure_def new_ses_def
      jobs_configure_def jobs_start_def flows_configure_def register_welcome_def new_router_def mount_flows_def
    by (intro keeps_intros frame)
  then show "start_up uu quote info p = (r, p') \<Longrightarrow> error_log p' = error_log p"
    unfolding keeps_def by (metis snd_conv)
qed

text \<open>
  C32: A process that came up has the configuration of its environment.  In production mail goes through
  SES from the operator's \<open>MAIL_FROM\<close> and never to the log, mailed links have the operator's \<open>APP_URL\<close> as their origin, session
  cookies are marked \<open>Secure\<close>, and error details are off; they are on exactly when \<open>APP_ENV\<close> is
  unset or \<open>development\<close>, and then the listener is bound to localhost.  The router is built after the
  sessions it needs, and the flows are mounted on it.
\<close>

theorem boot_configuration:
  assumes "fresh_process p" and "start_up uu quote info p = (Inr srv, p')"
  shows "(environ p ''APP_ENV'' = Production \<longrightarrow> Outbox p' = SES (environ p ''MAIL_FROM'') \<and>
      Client p' = Some (environ p ''APP_URL'') \<and>
      environ p ''APP_URL'' \<noteq> [] \<and> (\<exists>c. cookie p' = Some c \<and> CookieSecure c) \<and> prod_mode (webapp p')) \<and>
    (dev_mode (webapp p') \<longleftrightarrow> environ p ''APP_ENV'' \<in> {[], Development}) \<and>
    (dev_mode (webapp p') \<longleftrightarrow> has_prefix (Addr srv) ''localhost:'') \<and>
    (\<exists>m. echo_mux p' = Some m \<and> mux_mounts m = [''/api/inngest''] \<and> mux_public m \<noteq> [])"
proof -
  obtain cfg where cfg: "env_load quote (environ p) = Inr cfg" and srv: "srv = http_server_of (listen_addr cfg)"
    and w: "wired cfg p p'"
    using start_up_Inr[OF assms(2)] assms(1) by (auto simp: fresh_process_def)
  have e: "AppEnv cfg = (if environ p ''APP_ENV'' = [] then Development else environ p ''APP_ENV'')"
    "MailFrom cfg = environ p ''MAIL_FROM''" "PublicDir cfg \<noteq> []"
    "AppEnv cfg = Production \<longrightarrow> MailFrom cfg \<noteq> [] \<and> BaseURL cfg = environ p ''APP_URL'' \<and> environ p ''APP_URL'' \<noteq> []"
    using cfg by (auto simp: env_load_def Let_def getenv_or_def app_env_defs split: if_splits)
  have l: "has_prefix (listen_addr cfg) ''localhost:'' \<longleftrightarrow> env_dev cfg"
    by (simp add: listen_addr_def has_prefix_iff)
  show ?thesis
    using w e by (auto simp: wired_def srv http_server_of_def l env_dev_def session_settings_def app_env_defs)
qed

definition demo_process :: "'s app \<Rightarrow> world \<Rightarrow> 's process" where
  "demo_process P w =
     \<lparr>environ = prod_environ, pworld = w, events = [], deferred = [], error_log = [],
      manager = \<lparr>config = \<lparr>lc_value = [], defaultLevel = InfoLevel, includeAll = False, lc_include = Map.empty,
        lc_level = Map.empty, lc_exclude = Map.empty\<rparr>, loggers = {}, handlers = Map.empty\<rparr>,
      webapp = P, cookie = None, Outbox = LogSender, Conn = NoPool, local_pool = False, Client = None, workers = False, echo_mux = None, inngest = False,
      provider = None, sentry = None\<rparr>"

lemma demo_process_fresh: "fresh_process (demo_process P w)"
  by (simp add: fresh_process_def demo_process_def)

lemma demo_process_up:
  "reliable w \<Longrightarrow> \<exists>p'. start_up uu id info (demo_process P w) =
     (Inr (http_server_of '':8080''), p')"
  using start_up_reliable[of "demo_process P w" id] env_load_prod_environ
  by (fastforce simp: demo_process_def listen_addr_def env_dev_def app_env_defs)

theorem boot_configuration_witness:
  "\<exists>p'. start_up id id None (demo_process demo_app demo_world) = (Inr (http_server_of '':8080''), p') \<and>
     Outbox p' = SES ''a@x.org'' \<and> Client p' = Some ''https://x.org'' \<and> \<not> dev_mode (webapp p')"
proof -
  obtain p' where up: "start_up id id None (demo_process demo_app demo_world) = (Inr (http_server_of '':8080''), p')"
    using demo_process_up[of demo_world id None demo_app] by (auto simp: reliable_def demo_world_def fresh_world_def)
  then show ?thesis
    using boot_configuration[OF demo_process_fresh up]
    by (auto simp: demo_process_def prod_environ_def app_env_defs)
qed

subsection \<open>A start that fails\<close>

definition ping_error :: "gerr \<Rightarrow> bool" where
  "ping_error e \<longleftrightarrow> (\<exists>err. e = errorf ''error pinging database: '' err)"

definition flows_error :: "gerr \<Rightarrow> bool" where
  "flows_error e \<longleftrightarrow> (\<exists>err. e = errorf ''configuring flows: '' err)"

lemma stage_errors [simp]:
  "ping_error (errorf pre err) \<longleftrightarrow> pre = ''error pinging database: ''"
  "flows_error (errorf pre err) \<longleftrightarrow> pre = ''configuring flows: ''"
  by (auto simp: ping_error_def flows_error_def errorf_def)

text \<open>
  How a stage ends: from a process in \<open>A\<close> it either fails, and then \<open>E\<close> holds of the error and the process,
  or leads to \<open>B\<close>.
\<close>

definition ends :: "('w \<Rightarrow> bool) \<Rightarrow> ('w, 'e, 'a) act \<Rightarrow> ('e \<Rightarrow> 'w \<Rightarrow> bool) \<Rightarrow> ('w \<Rightarrow> bool) \<Rightarrow> bool" where
  "ends A m E B \<longleftrightarrow> (\<forall>w. A w \<longrightarrow> (case m w of (Inl e, w') \<Rightarrow> E e w' | (Inr _, w') \<Rightarrow> B w'))"

lemma ends_bindE: "ends A m E B \<Longrightarrow> (\<And>a. ends B (f a) E C) \<Longrightarrow> ends A (bindE m f) E C"
  by (fastforce simp: ends_def bindE_def split: prod.splits sum.splits)

lemma ends_wrapE: "keeps A m \<Longrightarrow> (\<And>e w. A w \<Longrightarrow> E (g e) w) \<Longrightarrow> ends A (wrapE g m) E A"
  by (fastforce simp: ends_def keeps_def wrapE_def split: prod.splits sum.splits)

lemma ends_modify: "(\<And>w. A w \<Longrightarrow> B (g w)) \<Longrightarrow> ends A (modify g) E B"
  by (simp add: ends_def)

lemma ends_ret: "ends A (ret a) E A"
  by (simp add: ends_def)

lemma ends_if: "ends A m E B \<Longrightarrow> ends A n E B \<Longrightarrow> ends A (if b then m else n) E B"
  by simp

text \<open>The states of a start: before and after the workers run.\<close>

definition quiet :: "'s process \<Rightarrow> bool" where
  "quiet p \<longleftrightarrow> \<not> local_pool p \<and> \<not> workers p"

definition ready :: "bool \<Rightarrow> 's process \<Rightarrow> bool" where
  "ready wk p \<longleftrightarrow> \<not> local_pool p \<and> workers p = wk \<and> cookie p \<noteq> None"

definition failed_as :: "gerr \<Rightarrow> 's process \<Rightarrow> bool" where
  "failed_as e p \<longleftrightarrow> (local_pool p \<longleftrightarrow> ping_error e) \<and> (workers p \<longleftrightarrow> flows_error e)"

lemma quiet_kept:
  "keeps quiet (ext_call c)" "keeps quiet (modify (\<lambda>p. p\<lparr>provider := t\<rparr>))" "keeps quiet (modify (\<lambda>p. p\<lparr>sentry := sy\<rparr>))"
  "keeps (ready wk) (ext_call c)" "keeps (ready wk) (modify (\<lambda>p. p\<lparr>Client := cl\<rparr>))"
  "keeps (ready wk) (modify (\<lambda>p. p\<lparr>inngest := b\<rparr>))"
  by (simp_all add: keeps_def quiet_def ready_def ext_call_run)

lemma stages_kept:
  "keeps quiet (telemetry_configure info)" "keeps quiet (configure_sentry env)"
  "keeps (ready wk) (new_ses from)" "keeps (ready wk) (jobs_configure b)" "keeps (ready wk) flows_configure"
  unfolding telemetry_configure_def configure_sentry_def new_ses_def jobs_configure_def flows_configure_def register_welcome_def
  by (intro keeps_bindE keeps_if keeps_wrapE keeps_gets keeps_ret quiet_kept)+

lemma quiet_failed: "quiet p \<Longrightarrow> failed_as (errorf pre e) p \<longleftrightarrow> pre \<notin> {''error pinging database: '', ''configuring flows: ''}"
  by (auto simp: quiet_def failed_as_def)

lemma ready_failed: "ready wk p \<Longrightarrow> failed_as (errorf pre e) p \<longleftrightarrow>
    pre \<noteq> ''error pinging database: '' \<and> (wk \<longleftrightarrow> pre = ''configuring flows: '')"
  by (auto simp: ready_def failed_as_def)

lemma ends_load: "ends quiet (load_env quote) failed_as quiet"
  by (auto simp: ends_def load_env_def env_load_def Let_def quiet_def failed_as_def ping_error_def flows_error_def errorf_def)

lemma ends_logging: "ends quiet (logging_configure uu ''_all'' ''info'') failed_as quiet"
proof -
  have "case logging_configure uu ''_all'' ''info'' p of (Inl e, q) \<Rightarrow> failed_as e q | (Inr _, q) \<Rightarrow> quiet q"
    if "quiet p" for p :: "'a process"
  proof -
    obtain m where "logging_configure uu ''_all'' ''info'' p = (Inr (), p\<lparr>manager := m\<rparr>)" using logging_configure_ok by blast
    with that show ?thesis by (simp add: quiet_def)
  qed
  then show ?thesis by (simp add: ends_def)
qed

lemma ends_db: "ends quiet db_configure failed_as quiet"
  by (auto simp: ends_def db_configure_def bind_wrap_ext quiet_def failed_as_def split: sum.split)

lemma ends_setup: "ends quiet (web_setup env) failed_as (ready False)"
  by (auto simp: ends_def web_setup_def web_configure_def quiet_def ready_def)

lemma ends_jobs: "ends (ready False) (wrapE (errorf ''starting jobs: '') jobs_start) failed_as (ready True)"
  by (auto simp: ends_def jobs_start_def wrapE_def bindE_def leaves_run ready_def failed_as_def split: sum.split)

lemma ends_router: "ends (ready True) (new_router d) failed_as (ready True)"
  by (auto simp: ends_def new_router_def bindE_def ready_def)

lemma start_up_ends: "ends quiet (start_up uu quote info) failed_as (ready True)"
proof -
  have dfr: "ends quiet (defer_to d) failed_as quiet" for d
    unfolding defer_to_def by (rule ends_modify) (simp add: quiet_def)
  have ses: "ends (ready False) (bindE (wrapE (errorf ''configuring ses mailer: '') (new_ses a)) (\<lambda>sndr.
      modify (\<lambda>p. p\<lparr>Outbox := sndr\<rparr>))) failed_as (ready False)" for a
    by (intro ends_bindE[OF ends_wrapE[OF stages_kept(3)]] ends_modify) (simp_all add: ready_failed, simp add: ready_def)
  have mount: "ends (ready True) mount_flows failed_as (ready True)"
    unfolding mount_flows_def by (rule ends_modify) (simp add: ready_def)
  show ?thesis
    unfolding start_up_def
    by (intro ends_bindE[OF ends_load] ends_bindE[OF ends_logging] ends_bindE[OF ends_wrapE[OF stages_kept(1)]]
        ends_bindE[OF dfr] ends_bindE[OF ends_wrapE[OF stages_kept(2)]] ends_bindE[OF ends_db] ends_bindE[OF ends_setup]
        ends_bindE[OF ends_if[OF ses ends_ret]] ends_bindE[OF ends_wrapE[OF stages_kept(4)]] ends_bindE[OF ends_jobs]
        ends_bindE[OF ends_router] ends_bindE[OF ends_wrapE[OF stages_kept(5)]] ends_bindE[OF mount] ends_ret)
      (simp_all add: quiet_failed ready_failed)
qed


text \<open>A start at which the database does not answer, and one at which the client of the flows cannot be made.\<close>

definition failing_at :: "nat \<Rightarrow> world" where
  "failing_at k = demo_world\<lparr>fate := (\<lambda>n. if n = k then Refused ''connection refused'' else Works)\<rparr>"

lemma failing_start:
  "\<exists>p'. start_up uu id info (demo_process P (failing_at 2)) =
     (Inl (errorf ''error pinging database: '' (External ''connection refused'')), p')"
  "\<exists>p'. start_up uu id info (demo_process P (failing_at 6)) =
     (Inl (errorf ''configuring flows: '' (errorf ''creating inngest client: '' (External ''connection refused''))), p')"
proof -
  have c: "calls (failing_at k) = 0" for k by (simp add: failing_at_def demo_world_def fresh_world_def)
  have f: "fate (tick w) = fate w" "calls (tick w) = Suc (calls w)" for w by (simp_all add: tick_def)
  have w: "fate (failing_at k) n = (if n = k then Refused ''connection refused'' else Works)" for k n
    by (simp add: failing_at_def)
  have e: "load_env id (demo_process P w) = (Inr \<lparr>AppEnv = ''production'', Port = ''8080'',
     PublicDir = ''public'', BaseURL = ''https://x.org'', MailFrom = ''a@x.org''\<rparr>, demo_process P w)" for w
    using env_load_prod_environ by (simp add: load_env_def demo_process_def)
  obtain m where m: "logging_configure uu ''_all'' ''info'' (demo_process P (failing_at 2)) =
    (Inr (), (demo_process P (failing_at 2))\<lparr>manager := m\<rparr>)"
    using logging_configure_ok by blast
  show "\<exists>p'. start_up uu id info (demo_process P (failing_at 2)) =
     (Inl (errorf ''error pinging database: '' (External ''connection refused'')), p')"
    using m e[of "failing_at 2"]
    by (simp add: start_up_def bindE_def wrapE_def telemetry_configure_def configure_sentry_def db_configure_def
        defer_to_def ext_call_run external_call_def next_call_eq demo_process_def prod_environ_def c w f)
  obtain m' where m': "logging_configure uu ''_all'' ''info'' (demo_process P (failing_at 6)) =
    (Inr (), (demo_process P (failing_at 6))\<lparr>manager := m'\<rparr>)"
    using logging_configure_ok by blast
  show "\<exists>p'. start_up uu id info (demo_process P (failing_at 6)) =
     (Inl (errorf ''configuring flows: '' (errorf ''creating inngest client: '' (External ''connection refused''))), p')"
    using m' e[of "failing_at 6"]
    by (simp add: start_up_def bindE_def wrapE_def telemetry_configure_def configure_sentry_def db_configure_def
        defer_to_def ext_call_run external_call_def next_call_eq demo_process_def prod_environ_def c w f
        web_setup_def web_configure_def new_ses_def jobs_configure_def jobs_start_def start_def leaves_run
        new_router_def flows_configure_def)
qed


end
