(* ===== verification/Discretion.thy ===== *)
theory Discretion
  imports Served_Pages Boot
begin

text \<open>
  What a failure shows to the outside, once \<open>server.go\<close> has started the program for production or
  tests: the promise of \<open>errorHandler\<close> (\<open>web/errors.go\<close>) that internal detail stays out of responses
  except in development, for the whole chain of \<open>web/router.go\<close>.
\<close>

lemma started_mode:
  assumes "fresh_process p" and "start_up uu quote info p = (Inr srv, p')"
    and "environ p ''APP_ENV'' \<notin> {[], Development}"
  shows "\<not> dev_mode (webapp p')"
proof -
  obtain cfg where cfg: "env_load quote (environ p) = Inr cfg" and w: "wired cfg p p'"
    using start_up_Inr[OF assms(2)] assms(1) by (auto simp: fresh_process_def)
  have "AppEnv cfg = environ p ''APP_ENV''"
    using cfg assms(3) by (auto simp: env_load_def Let_def getenv_or_def split: if_splits)
  with w assms(3) show ?thesis by (simp add: wired_def)
qed

lemma error_captured:
  assumes "\<not> committed (resp c)" and "error_status e \<ge> 500"
  shows "captured (snd (error_handler P req e c)) = captured c @ [report_of req e c]"
  using assms by (simp add: error_handler_eq blob_resp)

text \<open>
  C9: When the program was started outside of development, no answer to any request tells what went wrong
  inside: its body is a fixed text, an asset, the text of the status, or a page, and an error page has
  no details; two errors with the same status get the same answer in every header and byte.  What is
  kept from the client reaches Sentry whenever the status is a 5xx.
\<close>

theorem failure_detail_stays_inside:
  assumes "fresh_process p" and "start_up uu quote info p = (Inr srv, p')"
    and "environ p ''APP_ENV'' \<notin> {[], Development}" and "body (resp c) = NoBody" and "P = webapp p'"
  shows "(case body (resp (serve P req c)) of
       Html html \<Rightarrow> \<exists>n d pg. render P n d pg = Inr html \<and> no_detail pg
     | Text txt \<Rightarrow> txt \<in> {''A-OK!'', ''ready''} \<or> (\<exists>code. txt = status_text P code @ [CHR 0x0A])
     | JsonError msg code \<Rightarrow> msg = status_text P code
     | _ \<Rightarrow> True) \<and>
    (status_code e = status_code e' \<longrightarrow>
       resp (snd (error_handler P req e c')) = resp (snd (error_handler P req e' c'))) \<and>
    (\<not> committed (resp c') \<and> error_status e \<ge> 500 \<longrightarrow>
       captured (snd (error_handler P req e c')) = captured c' @ [report_of req e c'])"
proof -
  have d: "\<not> dev_mode P" using started_mode[OF assms(1-3)] assms(5) by simp
  from serve_page_inv[OF assms(4), of P req] obtain n where n: "sent_body P n (body (resp (serve P req c)))"
    unfolding page_inv_def by blast
  have "case body (resp (serve P req c)) of
       Html html \<Rightarrow> \<exists>n d pg. render P n d pg = Inr html \<and> no_detail pg
     | Text txt \<Rightarrow> txt \<in> {''A-OK!'', ''ready''} \<or> (\<exists>code. txt = status_text P code @ [CHR 0x0A])
     | JsonError msg code \<Rightarrow> msg = status_text P code
     | _ \<Rightarrow> True"
  proof (cases "body (resp (serve P req c))")
    case (Html html)
    with n d show ?thesis by fastforce
  qed (use n in simp_all)
  then show ?thesis by (intro conjI impI error_handler_no_leak[OF d] error_captured) simp_all
qed

theorem failure_detail_stays_inside_witness:
  "\<exists>p'. start_up id id None (demo_process demo_app demo_world) = (Inr (http_server_of '':8080''), p') \<and>
     resp (snd (error_handler (webapp p') demo_request (External ''connection refused'') demo_web)) =
     resp (snd (error_handler (webapp p') demo_request (External ''no such column'') demo_web)) \<and>
     rp_error (last (captured (snd (error_handler (webapp p') demo_request (External ''no such column'') demo_web)))) =
       External ''no such column''"
proof -
  obtain p' where up: "start_up id id None (demo_process demo_app demo_world) = (Inr (http_server_of '':8080''), p')"
    using demo_process_up[of demo_world id None demo_app] by (auto simp: reliable_def demo_world_def fresh_world_def)
  have env: "environ (demo_process demo_app demo_world) ''APP_ENV'' \<notin> {[], Development}"
    by (simp add: demo_process_def prod_environ_def app_env_defs)
  have c: "body (resp demo_web) = NoBody" "\<not> committed (resp demo_web)"
    by (simp_all add: demo_web_def empty_response_def)
  show ?thesis
    using failure_detail_stays_inside[OF demo_process_fresh up env c(1) refl, of demo_request
        "External ''connection refused''" "External ''no such column''" demo_web]
      failure_detail_stays_inside[OF demo_process_fresh up env c(1) refl, of demo_request
        "External ''no such column''" "External ''no such column''" demo_web] up c(2)
    by (intro exI[of _ p'] conjI) (simp_all add: error_status_def report_of_def)
qed

end
