(* ===== verification/Server.thy ===== *)
theory Server
  imports Boot
begin

text \<open>
  \<open>run\<close> of \<open>server.go\<close> from the listener on: the main goroutine, the goroutine that waits for a
  signal and drains HTTP, the handlers in flight and the jobs being worked are interleaved by the step
  relation \<open>serve_step\<close>.  \<open>ListenAndServe\<close> binds its address before it accepts a request, and fails in
  either phase.  \<open>srv.Shutdown\<close> returns when no request is in flight or when its fifteen
  seconds are over; River's \<open>Stop\<close> answers without an error only when no job runs any more.  The
  deferred calls run one by one, so that they too interleave with what is still going on.  \<open>pool.Close\<close> lends
  no connection from its first step on (\<open>Closing\<close>) and returns when the connections that were out then, \<open>lent\<close>, are
  back; a request or job has at most one, and gives it back before it ends.  (River's own connections
  are not counted.)
\<close>

datatype main_pc = Binding | Listening | AwaitDrained | StoppingJobs | Returning "gerr + unit" | Exited "gerr + unit"

datatype watcher_pc = AwaitSignal | ShuttingDown | DrainedHTTP

record 's server =
  proc :: "'s process"
  main :: main_pc
  watcher :: watcher_pc
  in_flight :: nat
  working :: nat
  lent :: nat

definition log_failure :: "string \<Rightarrow> gerr + unit \<Rightarrow> 's process \<Rightarrow> 's process" where
  "log_failure m r p = (case r of Inl e \<Rightarrow> p\<lparr>error_log := error_log p @ [m]\<rparr> | Inr _ \<Rightarrow> p)"

definition up :: "'s server \<Rightarrow> bool" where
  "up s \<longleftrightarrow> (\<forall>r. main s \<noteq> Exited r)"

definition listen_error :: "http_server \<Rightarrow> gerr \<Rightarrow> gerr" where
  "listen_error srv e = errorf (''listening on '' @ Addr srv @ '': '') e"

inductive serve_step :: "http_server \<Rightarrow> 's server \<Rightarrow> 's server \<Rightarrow> bool" for srv where
  Bound: "main s = Binding \<Longrightarrow> serve_step srv s (s\<lparr>main := Listening\<rparr>)"
| BindFails: "main s = Binding \<Longrightarrow> serve_step srv s (s\<lparr>main := Returning (Inl (listen_error srv e))\<rparr>)"
| Accept: "main s = Listening \<Longrightarrow> watcher s = AwaitSignal \<Longrightarrow>
    serve_step srv s (s\<lparr>in_flight := Suc (in_flight s)\<rparr>)"
| Answer: "up s \<Longrightarrow> in_flight s = Suc n \<Longrightarrow> lent s \<le> n + working s \<Longrightarrow> serve_step srv s (s\<lparr>in_flight := n\<rparr>)"
| JobStart: "main s \<in> {Binding, Listening, AwaitDrained} \<or> (\<exists>e. main s = Returning (Inl e)) \<Longrightarrow>
    Conn (proc s) = Open \<Longrightarrow> serve_step srv s (s\<lparr>working := Suc (working s)\<rparr>)"
| JobEnd: "up s \<Longrightarrow> working s = Suc n \<Longrightarrow> lent s \<le> in_flight s + n \<Longrightarrow> serve_step srv s (s\<lparr>working := n\<rparr>)"
| Signal: "up s \<Longrightarrow> watcher s = AwaitSignal \<Longrightarrow> serve_step srv s (s\<lparr>watcher := ShuttingDown\<rparr>)"
| Drained: "up s \<Longrightarrow> watcher s = ShuttingDown \<Longrightarrow> in_flight s = 0 \<Longrightarrow>
    serve_step srv s (s\<lparr>watcher := DrainedHTTP, proc := called ShutdownHTTP (pworld (proc s)) (proc s)\<rparr>)"
| DrainTimeout: "up s \<Longrightarrow> watcher s = ShuttingDown \<Longrightarrow>
    serve_step srv s (s\<lparr>watcher := DrainedHTTP,
      proc := log_failure ''shutdown'' (Inl e) (called ShutdownHTTP (pworld (proc s)) (proc s))\<rparr>)"
| ListenerClosed: "main s \<in> {Binding, Listening} \<Longrightarrow> watcher s \<noteq> AwaitSignal \<Longrightarrow>
    serve_step srv s (s\<lparr>main := AwaitDrained\<rparr>)"
| AcceptFails: "main s = Listening \<Longrightarrow> watcher s = AwaitSignal \<Longrightarrow>
    serve_step srv s (s\<lparr>main := Returning (Inl (listen_error srv e))\<rparr>)"
| DrainSeen: "main s = AwaitDrained \<Longrightarrow> watcher s = DrainedHTTP \<Longrightarrow>
    serve_step srv s (s\<lparr>main := StoppingJobs\<rparr>)"
| JobsStopped: "main s = StoppingJobs \<Longrightarrow> leaves StopRiver stop (proc s) = (r, p) \<Longrightarrow>
    isl r \<or> working s = 0 \<Longrightarrow>
    serve_step srv s (s\<lparr>main := Returning (Inr ()), proc := log_failure ''stopping jobs'' r (p\<lparr>workers := False\<rparr>)\<rparr>)"
| RunDeferred: "main s = Returning r \<Longrightarrow> deferred (proc s) = d # ds \<Longrightarrow> d \<noteq> CloseConn \<Longrightarrow>
    serve_step srv s (s\<lparr>proc := snd (run_deferred d ((proc s)\<lparr>deferred := ds\<rparr>))\<rparr>)"
| CloseBegins: "main s = Returning r \<Longrightarrow> deferred (proc s) = CloseConn # ds \<Longrightarrow> Conn (proc s) = Open \<Longrightarrow>
    n \<le> in_flight s + working s \<Longrightarrow> serve_step srv s (s\<lparr>lent := n, proc := (proc s)\<lparr>Conn := Closing\<rparr>\<rparr>)"
| GiveBack: "up s \<Longrightarrow> lent s = Suc n \<Longrightarrow> serve_step srv s (s\<lparr>lent := n\<rparr>)"
| CloseReturns: "main s = Returning r \<Longrightarrow> deferred (proc s) = CloseConn # ds \<Longrightarrow> Conn (proc s) \<noteq> Open \<Longrightarrow> lent s = 0 \<Longrightarrow>
    serve_step srv s (s\<lparr>proc := snd (run_deferred CloseConn ((proc s)\<lparr>deferred := ds\<rparr>))\<rparr>)"
| Exit: "main s = Returning r \<Longrightarrow> deferred (proc s) = [] \<Longrightarrow> serve_step srv s (s\<lparr>main := Exited r\<rparr>)"

inductive_cases serve_stepE: "serve_step srv s s'"

inductive serves :: "http_server \<Rightarrow> 's server \<Rightarrow> 's server \<Rightarrow> bool" for srv where
  Start: "serves srv s s"
| Step: "serves srv s s1 \<Longrightarrow> serve_step srv s1 s2 \<Longrightarrow> serves srv s s2"

definition listening :: "'s process \<Rightarrow> 's server" where
  "listening p = \<lparr>proc = p, main = Binding, watcher = AwaitSignal, in_flight = 0, working = 0, lent = 0\<rparr>"

subsection \<open>The order of the shutdown\<close>

lemma log_failure_fields [simp]:
  "events (log_failure m r p) = events p" "deferred (log_failure m r p) = deferred p"
  "Conn (log_failure m r p) = Conn p" "workers (log_failure m r p) = workers p" "set (error_log p) \<subseteq> set (error_log (log_failure m r p))"
  "isl r \<Longrightarrow> m \<in> set (error_log (log_failure m r p))"
  by (auto simp: log_failure_def split: sum.splits)

lemma log_keeps: "m \<in> set (error_log p) \<Longrightarrow> m \<in> set (error_log (log_failure m' r p))"
  "m \<in> set (error_log p) \<Longrightarrow> m \<in> set (error_log (snd (run_deferred d p)))"
  subgoal using log_failure_fields(5)[of p m' r] by blast
  subgoal using run_deferred_fields(10)[of d p] by auto
  done

definition drained_log :: "'s server \<Rightarrow> bool" where
  "drained_log s \<longleftrightarrow> in_flight s = 0 \<or> ''shutdown'' \<in> set (error_log (proc s))"

definition stopped_log :: "'s server \<Rightarrow> bool" where
  "stopped_log s \<longleftrightarrow> working s = 0 \<or> ''stopping jobs'' \<in> set (error_log (proc s))"

definition closed_by :: "deferral list \<Rightarrow> pool_state" where
  "closed_by ds = (if CloseConn \<in> set ds then Closed else Open)"

text \<open>What holds at each point of \<open>run\<close>; \<open>over\<close> are the deferred calls that have run.\<close>

definition pool_after :: "deferral list \<Rightarrow> 's process \<Rightarrow> bool" where
  "pool_after over p \<longleftrightarrow>
     Conn p = closed_by over \<or> Conn p = Closing \<and> CloseConn \<notin> set over \<and> (\<exists>ds. deferred p = CloseConn # ds)"

fun order_inv :: "boot_call list \<Rightarrow> deferral list \<Rightarrow> main_pc \<Rightarrow> watcher_pc \<Rightarrow> 's process \<Rightarrow> bool" where
  "order_inv es ds (Returning r) wt p \<longleftrightarrow>
     (\<exists>over. ds = over @ deferred p \<and> pool_after over p \<and>
        (\<not> isl r \<longrightarrow> events p = es @ [ShutdownHTTP, StopRiver] @ concat (map closing over)))"
| "order_inv es ds (Exited r) wt p \<longleftrightarrow>
     deferred p = [] \<and> Conn p = closed_by ds \<and>
        (\<not> isl r \<longrightarrow> events p = es @ [ShutdownHTTP, StopRiver] @ concat (map closing ds))"
| "order_inv es ds pc wt p \<longleftrightarrow>
     deferred p = ds \<and> Conn p = Open \<and> events p = es @ (if wt = DrainedHTTP then [ShutdownHTTP] else [])"

definition server_inv :: "boot_call list \<Rightarrow> deferral list \<Rightarrow> 's server \<Rightarrow> bool" where
  "server_inv es ds s \<longleftrightarrow>
     order_inv es ds (main s) (watcher s) (proc s) \<and>
     (watcher s = DrainedHTTP \<longrightarrow> drained_log s) \<and>
     (main s \<in> {StoppingJobs, Returning (Inr ()), Exited (Inr ())} \<longrightarrow> watcher s = DrainedHTTP) \<and>
     (main s \<in> {Returning (Inr ()), Exited (Inr ())} \<longrightarrow> stopped_log s)"

lemma order_inv_deferred:
  assumes "order_inv es ds (Returning r) wt p" and "deferred p = d # rest"
  shows "order_inv es ds (Returning r) wt (snd (run_deferred d (p\<lparr>deferred := rest\<rparr>)))"
proof -
  from assms obtain over where o: "ds = (over @ [d]) @ rest" "pool_after over p"
    "\<not> isl r \<longrightarrow> events p = es @ [ShutdownHTTP, StopRiver] @ concat (map closing over)" by auto
  with assms(2) have "pool_after (over @ [d]) (snd (run_deferred d (p\<lparr>deferred := rest\<rparr>)))"
    by (auto simp: pool_after_def run_deferred_fields(1-3) closed_by_def simp del: run_deferred.simps)
  with o show ?thesis
    by (auto simp: run_deferred_fields(1-3) simp del: run_deferred.simps intro!: exI[of _ "over @ [d]"])
qed

lemma order_inv_closing:
  assumes "order_inv es ds (Returning r) wt p" and "deferred p = CloseConn # rest" and "Conn p = Open"
  shows "order_inv es ds (Returning r) wt (p\<lparr>Conn := Closing\<rparr>)"
proof -
  from assms(1) obtain over where o: "ds = over @ deferred p" "pool_after over p"
    "\<not> isl r \<longrightarrow> events p = es @ [ShutdownHTTP, StopRiver] @ concat (map closing over)" by auto
  with assms(2,3) have "pool_after over (p\<lparr>Conn := Closing\<rparr>)" by (auto simp: pool_after_def closed_by_def split: if_splits)
  with o show ?thesis by auto
qed

lemma order_inv_start:
  "order_inv es ds pc wt p \<Longrightarrow> pc \<in> {Binding, Listening} \<Longrightarrow> pc' \<in> {Listening, AwaitDrained, Returning (Inl e)} \<Longrightarrow>
   order_inv es ds pc' wt p"
  by (auto simp: pool_after_def closed_by_def)

lemma order_inv_signal: "order_inv es ds pc AwaitSignal p \<Longrightarrow> order_inv es ds pc ShuttingDown p"
  by (cases pc) auto

lemma order_inv_drained:
  assumes "order_inv es ds pc ShuttingDown p" and "pc \<notin> {StoppingJobs, Returning (Inr ()), Exited (Inr ())}"
    and "\<forall>r. pc \<noteq> Exited r"
  shows "order_inv es ds pc DrainedHTTP (called ShutdownHTTP w p)"
    and "order_inv es ds pc DrainedHTTP (log_failure m r (called ShutdownHTTP w p))"
proof -
  have "\<not> isl x \<Longrightarrow> x = Inr ()" for x :: "gerr + unit" by (cases x) auto
  with assms show "order_inv es ds pc DrainedHTTP (called ShutdownHTTP w p)"
    "order_inv es ds pc DrainedHTTP (log_failure m r (called ShutdownHTTP w p))"
    by (cases pc; fastforce simp: pool_after_def)+
qed

lemma server_inv_deferred:
  assumes "server_inv es ds s" and "main s = Returning r" and "deferred (proc s) = d # ds'"
  shows "server_inv es ds (s\<lparr>proc := snd (run_deferred d ((proc s)\<lparr>deferred := ds'\<rparr>))\<rparr>)"
  using assms order_inv_deferred[of es ds r "watcher s" "proc s" d ds']
    log_keeps(2)[of _ "(proc s)\<lparr>deferred := ds'\<rparr>" d]
  by (auto simp: server_inv_def drained_log_def stopped_log_def simp del: run_deferred.simps order_inv.simps)

lemma server_inv_stopped:
  assumes "server_inv es ds s" and "main s = StoppingJobs" and "leaves StopRiver stop (proc s) = (r, p)"
    and "isl r \<or> working s = 0"
  shows "server_inv es ds (s\<lparr>main := Returning (Inr ()), proc := log_failure ''stopping jobs'' r (p\<lparr>workers := False\<rparr>)\<rparr>)"
  using assms
  by (auto simp: server_inv_def drained_log_def stopped_log_def leaves_run log_keeps pool_after_def closed_by_def)

lemma server_inv_step:
  assumes "server_inv es ds s" and "serve_step srv s s'"
  shows "server_inv es ds s'"
  using assms(2)
proof (cases rule: serve_step.cases)
  case (RunDeferred r d ds')
  with assms(1) show ?thesis by (simp only: server_inv_deferred)
next
  case (CloseReturns r ds')
  with assms(1) show ?thesis by (simp only: server_inv_deferred)
next
  case (CloseBegins r ds' n)
  with assms(1) show ?thesis
    using order_inv_closing[of es ds r "watcher s" "proc s" ds']
    by (auto simp: server_inv_def drained_log_def stopped_log_def simp del: order_inv.simps)
next
  case Signal
  with assms(1) show ?thesis by (auto simp: server_inv_def drained_log_def stopped_log_def order_inv_signal)
next
  case Drained
  with assms(1) show ?thesis
    by (auto simp: server_inv_def drained_log_def stopped_log_def up_def intro!: order_inv_drained)
next
  case DrainTimeout
  with assms(1) show ?thesis
    by (auto simp: server_inv_def drained_log_def stopped_log_def up_def intro!: order_inv_drained)
next
  case (JobsStopped r p)
  with assms(1) show ?thesis by (simp only: server_inv_stopped)
next
  case Bound
  with assms(1) show ?thesis
    by (auto simp: server_inv_def drained_log_def simp del: order_inv.simps intro: order_inv_start)
next
  case BindFails
  with assms(1) show ?thesis
    by (auto simp: server_inv_def drained_log_def simp del: order_inv.simps intro: order_inv_start)
next
  case AcceptFails
  with assms(1) show ?thesis
    by (auto simp: server_inv_def drained_log_def simp del: order_inv.simps intro: order_inv_start)
next
  case ListenerClosed
  with assms(1) show ?thesis
    by (auto simp: server_inv_def drained_log_def simp del: order_inv.simps intro: order_inv_start)
next
  case (Exit r)
  with assms(1) show ?thesis
    by (auto simp: server_inv_def drained_log_def stopped_log_def pool_after_def)
qed (use assms(1) in \<open>auto simp: server_inv_def drained_log_def stopped_log_def up_def\<close>)

lemma serves_inv: "serves srv s s' \<Longrightarrow> server_inv es ds s \<Longrightarrow> server_inv es ds s'"
  by (induction rule: serves.induct) (auto intro: server_inv_step)

lemma listening_inv:
  assumes "fresh_process p" and "start_up uu quote info p = (Inr srv, p')"
  shows "server_inv (events p') (deferred p') (listening p')"
proof -
  obtain cfg where "wired cfg p p'" using start_up_Inr[OF assms(2)] assms(1) by (auto simp: fresh_process_def)
  then show ?thesis by (simp add: server_inv_def listening_def wired_def)
qed

text \<open>
  C30: A shutdown by signal runs in order, however requests, jobs and the shutdown itself interleave: HTTP
  is drained, then the job workers are stopped, then the pool is closed, then Sentry and the traces
  are flushed, where they were configured.  When the process is past stopping the jobs no request is
  in flight and no job is being worked, or the log says that draining or stopping them failed.
\<close>

theorem shutdown_order:
  assumes "fresh_process p" and "start_up uu quote info p = (Inr srv, p')" and "serves srv (listening p') s"
  shows "(main s = Exited (Inr ()) \<longrightarrow>
      events (proc s) = events p' @ [ShutdownHTTP, StopRiver, ClosePool] @
        (if environ p ''SENTRY_DSN'' \<noteq> [] then [SentryFlush] else []) @
        (if traces_on (environ p) then [ForceFlush, ShutdownTraces] else [])) \<and>
    (main s \<in> {Returning (Inr ()), Exited (Inr ())} \<longrightarrow> drained_log s \<and> stopped_log s) \<and>
    (Conn (proc s) \<in> {Closing, Closed} \<longrightarrow> main s \<notin> {Binding, Listening, AwaitDrained, StoppingJobs})"
proof -
  obtain cfg where w: "wired cfg p p'" using start_up_Inr[OF assms(2)] assms(1) by (auto simp: fresh_process_def)
  define ds where "ds = deferred p'"
  have ds: "concat (map closing ds) = [ClosePool] @ (if environ p ''SENTRY_DSN'' \<noteq> [] then [SentryFlush] else []) @
      (if traces_on (environ p) then [ForceFlush, ShutdownTraces] else [])"
    using w by (simp add: wired_def ds_def)
  have inv: "server_inv (events p') ds s"
    unfolding ds_def by (rule serves_inv[OF assms(3) listening_inv[OF assms(1,2)]])
  then have order: "order_inv (events p') ds (main s) (watcher s) (proc s)"
    and logs: "main s \<in> {Returning (Inr ()), Exited (Inr ())} \<longrightarrow> drained_log s \<and> stopped_log s"
    unfolding server_inv_def by blast+
  have "main s = Exited (Inr ()) \<longrightarrow> events (proc s) = events p' @ [ShutdownHTTP, StopRiver] @ concat (map closing ds)"
    using order by auto
  moreover have "Conn (proc s) \<in> {Closing, Closed} \<longrightarrow> main s \<notin> {Binding, Listening, AwaitDrained, StoppingJobs}"
    using order by auto
  ultimately show ?thesis using logs unfolding ds by simp
qed

text \<open>Once the signal has come, no new request is accepted.\<close>

lemma no_accept_after_signal:
  "serve_step srv s s' \<Longrightarrow> watcher s \<noteq> AwaitSignal \<Longrightarrow> in_flight s' \<le> in_flight s \<and> watcher s' \<noteq> AwaitSignal"
  by (cases rule: serve_step.cases) auto

subsection \<open>The shutdown ends\<close>

fun main_rank :: "main_pc \<Rightarrow> nat" where
  "main_rank Binding = 5"
| "main_rank Listening = 4"
| "main_rank AwaitDrained = 3"
| "main_rank StoppingJobs = 2"
| "main_rank (Returning r) = 1"
| "main_rank (Exited r) = 0"

fun watcher_rank :: "watcher_pc \<Rightarrow> nat" where
  "watcher_rank AwaitSignal = 2"
| "watcher_rank ShuttingDown = 1"
| "watcher_rank DrainedHTTP = 0"

text \<open>Requests and jobs are weighed with the closes to come, each of which may have to wait for them once more.\<close>

definition closes :: "'s server \<Rightarrow> nat" where
  "closes s = count_list (deferred (proc s)) CloseConn - (if Conn (proc s) = Closing then 1 else 0)"

definition left :: "'s server \<Rightarrow> nat" where
  "left s = (in_flight s + working s) * Suc (closes s) + lent s + closes s + main_rank (main s) +
     watcher_rank (watcher s) + length (deferred (proc s))"

lemma left_closing:
  assumes "deferred (proc s) = CloseConn # ds"
  shows "Conn (proc s) = Open \<Longrightarrow> n \<le> in_flight s + working s \<Longrightarrow>
      left (s\<lparr>lent := n, proc := (proc s)\<lparr>Conn := Closing\<rparr>\<rparr>) < left s"
    and "left (s\<lparr>proc := snd (run_deferred CloseConn ((proc s)\<lparr>deferred := ds\<rparr>))\<rparr>) < left s"
  using assms by (auto simp: left_def closes_def db_close_def algebra_simps)

lemma left_deferred:
  assumes "deferred (proc s) = d # ds" and "d \<noteq> CloseConn"
  shows "left (s\<lparr>proc := snd (run_deferred d ((proc s)\<lparr>deferred := ds\<rparr>))\<rparr>) < left s"
  using assms by (simp add: left_def closes_def run_deferred_fields(2,3) del: run_deferred.simps)

lemma shutdown_decreases:
  assumes "serve_step srv s s'" and "watcher s \<noteq> AwaitSignal"
  shows "left s' < left s \<or> s' = s\<lparr>working := Suc (working s)\<rparr> \<and> main s \<noteq> StoppingJobs"
  using assms(1)
proof (cases rule: serve_step.cases)
  case CloseBegins
  then show ?thesis using left_closing(1)[OF CloseBegins(3,4,5)] by simp
next
  case CloseReturns
  then show ?thesis using left_closing(2)[OF CloseReturns(3)] by (simp del: run_deferred.simps)
next
  case RunDeferred
  then show ?thesis using left_deferred[OF RunDeferred(3,4)] by (simp del: run_deferred.simps)
next
  case JobStart
  then show ?thesis by auto
qed (use assms(2) in \<open>auto simp: left_def closes_def leaves_run\<close>)

lemma shutdown_progress:
  assumes "up s" and "watcher s \<noteq> AwaitSignal"
  shows "\<exists>s'. serve_step srv s s' \<and> left s' < left s"
proof -
  have step: ?thesis if "serve_step srv s s'" "s' \<noteq> s\<lparr>working := Suc (working s)\<rparr>" for s'
    using shutdown_decreases[OF that(1) assms(2)] that by blast
  have give: ?thesis if "lent s = Suc n" for n
    by (rule step[OF GiveBack[OF assms(1) that]]) (auto dest: arg_cong[where f = lent] simp: that)
  show ?thesis
  proof (cases "main s")
    case Binding
    then show ?thesis
      by (intro step[OF ListenerClosed[OF _ assms(2)]]) (auto dest: arg_cong[where f = main])
  next
    case Listening
    then show ?thesis
      by (intro step[OF ListenerClosed[OF _ assms(2)]]) (auto dest: arg_cong[where f = main])
  next
    case AwaitDrained
    then show ?thesis
    proof (cases "watcher s = DrainedHTTP")
      case True
      with AwaitDrained show ?thesis by (intro step[OF DrainSeen]) (auto dest: arg_cong[where f = main])
    next
      case False
      with assms(2) have "watcher s = ShuttingDown" by (cases "watcher s") auto
      with assms(1) show ?thesis by (intro step[OF DrainTimeout]) (auto dest: arg_cong[where f = watcher])
    qed
  next
    case StoppingJobs
    obtain r p where rp: "leaves StopRiver stop (proc s) = (r, p)" by force
    consider "working s = 0" | k where "lent s = Suc k" | n where "working s = Suc n" "lent s = 0"
      by (cases "working s"; cases "lent s") auto
    then show ?thesis
    proof cases
      case 1
      with StoppingJobs show ?thesis
        by (intro step[OF JobsStopped[OF StoppingJobs rp]]) (auto dest: arg_cong[where f = main])
    next
      case 2
      then show ?thesis by (rule give)
    next
      case 3
      then show ?thesis by (intro step[OF JobEnd[OF assms(1)]]) (auto dest: arg_cong[where f = working])
    qed
  next
    case (Returning r)
    show ?thesis
    proof (cases "deferred (proc s)")
      case Nil
      with Returning show ?thesis by (intro step[OF Exit]) (auto dest: arg_cong[where f = main])
    next
      case (Cons d ds)
      consider "d \<noteq> CloseConn" | k where "lent s = Suc k" | "d = CloseConn" "Conn (proc s) = Open"
        | "d = CloseConn" "Conn (proc s) \<noteq> Open" "lent s = 0"
        by (cases "lent s") auto
      then show ?thesis
      proof cases
        case 1
        then show ?thesis using RunDeferred[OF Returning Cons] left_deferred[OF Cons] by blast
      next
        case 2
        then show ?thesis by (rule give)
      next
        case 3
        then show ?thesis using CloseBegins[OF Returning, of ds 0] left_closing(1)[of s ds 0] Cons by fastforce
      next
        case 4
        then show ?thesis using CloseReturns[OF Returning, of ds] left_closing(2)[of s ds] Cons by blast
      qed
    qed
  next
    case (Exited r)
    with assms(1) show ?thesis by (simp add: up_def)
  qed
qed

lemma serves_trans: "serves srv s1 s2 \<Longrightarrow> serves srv s0 s1 \<Longrightarrow> serves srv s0 s2"
  by (induction rule: serves.induct) (auto intro: serves.Step)

lemma shutdown_ends:
  "watcher s \<noteq> AwaitSignal \<Longrightarrow> \<exists>s'. serves srv s s' \<and> \<not> up s'"
proof (induction "left s" arbitrary: s rule: less_induct)
  case less
  show ?case
  proof (cases "up s")
    case True
    then obtain s1 where s1: "serve_step srv s s1" "left s1 < left s" using shutdown_progress less.prems by blast
    with no_accept_after_signal[OF s1(1) less.prems] less.hyps[OF s1(2)] obtain s' where
      "serves srv s1 s'" "\<not> up s'" by blast
    with s1(1) show ?thesis by (blast intro: serves_trans serves.Step serves.Start)
  qed (blast intro: serves.Start)
qed

text \<open>
  C31: After the signal the process comes to its end: every step but the start of another job brings it
  closer, no job starts any more once the workers are being stopped, some such step is possible until
  the process is gone, and so it reaches its exit.
\<close>

theorem shutdown_terminates:
  assumes "watcher s \<noteq> AwaitSignal"
  shows "(\<exists>s'. serves srv s s' \<and> \<not> up s') \<and>
    (up s \<longrightarrow> (\<exists>s'. serve_step srv s s' \<and> left s' < left s)) \<and>
    (\<forall>s'. serve_step srv s s' \<longrightarrow>
       left s' < left s \<or> s' = s\<lparr>working := Suc (working s)\<rparr> \<and> main s \<noteq> StoppingJobs)"
  using shutdown_ends[OF assms] shutdown_progress[OF _ assms] shutdown_decreases[OF _ assms] by blast

theorem shutdown_terminates_witness:
  "\<exists>s'. serves (http_server_of '':8080'') ((listening (demo_process demo_app demo_world))\<lparr>watcher := ShuttingDown, in_flight := 2\<rparr>) s' \<and> \<not> up s'"
  using shutdown_terminates[of "(listening (demo_process demo_app demo_world))\<lparr>watcher := ShuttingDown, in_flight := 2\<rparr>"
      "http_server_of '':8080''"] by simp

text \<open>Alone, the deferred calls run to the exit.\<close>

lemma returning_runs:
  assumes "main s = Returning r" and "deferred (proc s) = d # ds" and "lent s = 0"
  shows "serves srv s (s\<lparr>proc := snd (run_deferred d ((proc s)\<lparr>deferred := ds\<rparr>))\<rparr>)"
proof -
  consider "d \<noteq> CloseConn" | "d = CloseConn" "Conn (proc s) = Open" | "d = CloseConn" "Conn (proc s) \<noteq> Open" by blast
  then show ?thesis
  proof cases
    case 1
    then show ?thesis using RunDeferred[OF assms(1,2)] by (blast intro: serves.intros)
  next
    case 2
    let ?s = "s\<lparr>lent := 0, proc := (proc s)\<lparr>Conn := Closing\<rparr>\<rparr>"
    have "serve_step srv s ?s" using CloseBegins[OF assms(1), of ds 0] assms(2) 2 by simp
    moreover have "serve_step srv ?s (?s\<lparr>proc := snd (run_deferred CloseConn ((proc ?s)\<lparr>deferred := ds\<rparr>))\<rparr>)"
      using assms(1,2) 2 by (intro CloseReturns) simp_all
    moreover have "?s\<lparr>proc := snd (run_deferred CloseConn ((proc ?s)\<lparr>deferred := ds\<rparr>))\<rparr> =
        s\<lparr>proc := snd (run_deferred d ((proc s)\<lparr>deferred := ds\<rparr>))\<rparr>"
      using 2(1) assms(3) by (simp add: db_close_def)
    ultimately show ?thesis by (metis serves.intros)
  next
    case 3
    then show ?thesis using CloseReturns[OF assms(1), of ds] assms(2,3) by (blast intro: serves.intros)
  qed
qed

lemma returning_exits:
  "main s = Returning r \<Longrightarrow> lent s = 0 \<Longrightarrow> \<exists>s'. serves srv s s' \<and> main s' = Exited r \<and> Conn (proc s') =
     (if CloseConn \<in> set (deferred (proc s)) then Closed else Conn (proc s)) \<and>
     in_flight s' = in_flight s \<and> working s' = working s \<and>
     events (proc s') = events (proc s) @ concat (map closing (deferred (proc s)))"
proof (induction "deferred (proc s)" arbitrary: s)
  case Nil
  then have "serve_step srv s (s\<lparr>main := Exited r\<rparr>)" by (intro Exit) simp_all
  with Nil show ?case by (intro exI[of _ "s\<lparr>main := Exited r\<rparr>"]) (auto intro: serves.intros)
next
  case (Cons d ds)
  let ?s = "s\<lparr>proc := snd (run_deferred d ((proc s)\<lparr>deferred := ds\<rparr>))\<rparr>"
  have step: "serves srv s ?s" using returning_runs[OF Cons.prems(1) Cons(2)[symmetric] Cons.prems(2)] .
  have d: "deferred (proc ?s) = ds" by (simp add: run_deferred_fields(2) del: run_deferred.simps)
  have m: "main ?s = Returning r" "lent ?s = 0" using Cons.prems by simp_all
  from Cons.hyps(1)[OF d[symmetric] m] obtain s' where "serves srv ?s s'" "main s' = Exited r"
    "Conn (proc s') = (if CloseConn \<in> set ds then Closed else Conn (proc ?s))"
    "in_flight s' = in_flight s" "working s' = working s"
    "events (proc s') = events (proc ?s) @ concat (map closing ds)"
    unfolding d by (auto simp del: run_deferred.simps)
  moreover have "serves srv s s'" using calculation(1) step by (blast intro: serves_trans)
  ultimately show ?case using Cons(2)[symmetric] by (intro exI[of _ s']) (simp add: run_deferred_fields(1,3) del: run_deferred.simps)
qed

lemma quiet_shutdown: "\<exists>s. serves srv (listening p) s \<and> main s = Exited (Inr ())"
proof -
  let ?l = "listening p"
  obtain r q where stop: "leaves StopRiver stop (called ShutdownHTTP (pworld p) p) = (r, q)" by force
  let ?s1 = "?l\<lparr>watcher := ShuttingDown\<rparr>" let ?s2 = "?s1\<lparr>main := AwaitDrained\<rparr>"
  let ?s3 = "?s2\<lparr>watcher := DrainedHTTP, proc := called ShutdownHTTP (pworld p) p\<rparr>"
  let ?s4 = "?s3\<lparr>main := StoppingJobs\<rparr>"
  let ?s5 = "?s4\<lparr>main := Returning (Inr ()), proc := log_failure ''stopping jobs'' r (q\<lparr>workers := False\<rparr>)\<rparr>"
  have "serve_step srv ?l ?s1" using Signal[of ?l srv] by (simp add: listening_def up_def)
  moreover have "serve_step srv ?s1 ?s2" using ListenerClosed[of ?s1 srv] by (simp add: listening_def)
  moreover have "serve_step srv ?s2 ?s3" using Drained[of ?s2 srv] by (simp add: listening_def up_def)
  moreover have "serve_step srv ?s3 ?s4" using DrainSeen[of ?s3 srv] by (simp add: listening_def)
  moreover have "serve_step srv ?s4 ?s5" using JobsStopped[of ?s4 r q srv] stop by (simp add: listening_def)
  ultimately have "serves srv ?l ?s5" by (meson serves.intros)
  moreover obtain s where "serves srv ?s5 s" "main s = Exited (Inr ())" using returning_exits[of ?s5 "Inr ()" srv] by (auto simp: listening_def)
  ultimately show ?thesis using serves_trans by blast
qed

theorem shutdown_order_witness:
  "\<exists>p' s. start_up id id None (demo_process demo_app demo_world) = (Inr (http_server_of '':8080''), p') \<and>
     serves (http_server_of '':8080'') (listening p') s \<and> main s = Exited (Inr ()) \<and>
     events (proc s) = events p' @ [ShutdownHTTP, StopRiver, ClosePool]"
proof -
  obtain p' where up: "start_up id id None (demo_process demo_app demo_world) = (Inr (http_server_of '':8080''), p')"
    using demo_process_up[OF demo_world_inv(2), of id None demo_app] by blast
  obtain s where "serves (http_server_of '':8080'') (listening p') s" "main s = Exited (Inr ())"
    using quiet_shutdown by blast
  with up shutdown_order[OF demo_process_fresh up this(1)] show ?thesis
    by (auto simp: demo_process_def prod_environ_def traces_on_def)
qed

subsection \<open>When the listener fails\<close>

definition base_of :: "boot_call list \<Rightarrow> http_server \<Rightarrow> 's server \<Rightarrow> bool" where
  "base_of es srv s \<longleftrightarrow>
     (main s \<notin> {Returning (Inr ()), Exited (Inr ())} \<longrightarrow>
       workers (proc s) \<and> (\<exists>xs. events (proc s) = es @ xs \<and> StopRiver \<notin> set xs)) \<and>
     (\<forall>e. main s \<in> {Returning (Inl e), Exited (Inl e)} \<longrightarrow> (\<exists>err. e = listen_error srv err))"

lemma closing_no_stop: "StopRiver \<notin> set (closing d)"
  by (cases d) auto

lemma base_of_step:
  assumes "base_of es srv s" and "serve_step srv s s'"
  shows "base_of es srv s'"
  using assms(2)
proof (cases rule: serve_step.cases)
  case (RunDeferred r d ds)
  with assms(1) closing_no_stop[of d] show ?thesis
    by (auto simp: base_of_def run_deferred_fields(1,9) simp del: run_deferred.simps)
next
  case (CloseReturns r ds)
  with assms(1) show ?thesis by (auto simp: base_of_def db_close_def)
next
  case (Exit r)
  with assms(1) show ?thesis by (auto simp: base_of_def)
qed (use assms(1) in \<open>auto simp: base_of_def leaves_run up_def\<close>)

lemma serves_base: "serves srv s s' \<Longrightarrow> base_of es srv s \<Longrightarrow> base_of es srv s'"
  by (induction rule: serves.induct) (auto intro: base_of_step)

lemma taken_port:
  assumes "wired cfg p p'"
  shows "\<exists>s. serves srv (listening p') s \<and> main s = Exited (Inl (listen_error srv err)) \<and> working s = 1 \<and> in_flight s = 0"
proof -
  let ?l = "listening p'" let ?s1 = "?l\<lparr>working := Suc 0\<rparr>"
  let ?s2 = "?s1\<lparr>main := Returning (Inl (listen_error srv err))\<rparr>"
  have "serve_step srv ?l ?s1" using JobStart[of ?l srv] assms by (simp add: listening_def wired_def)
  moreover have "serve_step srv ?s1 ?s2" by (rule BindFails) (simp add: listening_def)
  ultimately have "serves srv ?l ?s2" by (meson serves.intros)
  moreover obtain s where "serves srv ?s2 s" "main s = Exited (Inl (listen_error srv err))" "working s = 1" "in_flight s = 0"
    using returning_exits[of ?s2 _ srv] by (auto simp: listening_def)
  ultimately show ?thesis using serves_trans by blast
qed

text \<open>
  C40: When the listener fails, \<open>run\<close> returns without stopping the job workers, in every run: whenever it is on its
  way out with an error, or out, \<open>jobs.Stop\<close> has not been called and the workers still run; the error is the listener's; and
  when the process is gone the pool has been closed under them.  Whatever the error of the address - its
  port is taken - there is such a run in which a job is cut off at work.
\<close>

theorem listen_failure_abandons_jobs:
  assumes "fresh_process p" and "start_up uu quote info p = (Inr srv, p')"
  shows "(\<forall>s e. serves srv (listening p') s \<and> main s \<in> {Returning (Inl e), Exited (Inl e)} \<longrightarrow>
      (\<exists>err. e = errorf (''listening on '' @ Addr srv @ '': '') err) \<and> workers (proc s) \<and>
      StopRiver \<notin> set (drop (length (events p')) (events (proc s))) \<and>
      (main s = Exited (Inl e) \<longrightarrow> Conn (proc s) = Closed)) \<and>
    (\<forall>err. \<exists>s. serves srv (listening p') s \<and> main s = Exited (Inl (errorf (''listening on '' @ Addr srv @ '': '') err)) \<and>
      working s = 1 \<and> in_flight s = 0)"
proof (intro conjI allI impI)
  obtain cfg where w: "wired cfg p p'" using start_up_Inr[OF assms(2)] assms(1) by (auto simp: fresh_process_def)
  show "\<exists>s. serves srv (listening p') s \<and> main s = Exited (Inl (errorf (''listening on '' @ Addr srv @ '': '') err)) \<and>
      working s = 1 \<and> in_flight s = 0" for err
    using taken_port[OF w, of srv err] by (simp add: listen_error_def)
  fix s e assume s: "serves srv (listening p') s \<and> main s \<in> {Returning (Inl e), Exited (Inl e)}"
  have "base_of (events p') srv (listening p')" using w by (simp add: base_of_def listening_def wired_def)
  with s have "base_of (events p') srv s" using serves_base by blast
  with s show "\<exists>err. e = errorf (''listening on '' @ Addr srv @ '': '') err" "workers (proc s)"
    "StopRiver \<notin> set (drop (length (events p')) (events (proc s)))"
    by (auto simp: base_of_def listen_error_def)
  have "server_inv (events p') (deferred p') s" using s serves_inv listening_inv[OF assms] by blast
  moreover assume "main s = Exited (Inl e)"
  ultimately show "Conn (proc s) = Closed" using w by (simp add: server_inv_def wired_def closed_by_def)
qed

theorem listen_failure_abandons_jobs_witness:
  "\<exists>p' s. start_up id id None (demo_process demo_app demo_world) = (Inr (http_server_of '':8080''), p') \<and>
     serves (http_server_of '':8080'') (listening p') s \<and>
     main s = Exited (Inl (errorf ''listening on :8080: '' (External ''address already in use''))) \<and>
     Conn (proc s) = Closed \<and> workers (proc s) \<and> working s = 1"
proof -
  obtain p' where up: "start_up id id None (demo_process demo_app demo_world) = (Inr (http_server_of '':8080''), p')"
    using demo_process_up[OF demo_world_inv(2), of id None demo_app] by blast
  note f = listen_failure_abandons_jobs[OF demo_process_fresh up]
  obtain s where s: "serves (http_server_of '':8080'') (listening p') s" "working s = 1"
    "main s = Exited (Inl (errorf ''listening on :8080: '' (External ''address already in use'')))"
    using conjunct2[OF f] by (simp add: http_server_of_def) metis
  with f have "workers (proc s) \<and> Conn (proc s) = Closed" by blast
  with up s show ?thesis by blast
qed

end
