(* ===== verification/Analyzers.thy ===== *)
theory Analyzers
  imports Appname Conngen
begin

text \<open>
  The three analyzers of \<open>cmd/lint\<close>: \<open>connconfine\<close>, \<open>jobconfine\<close> and \<open>txparam\<close>.  A file is its
  syntax tree: a node of a kind, with its children in the order in which \<open>ast.Walk\<close> visits them.  The
  type checker's answers are the maps \<open>Uses\<close> and \<open>Defs\<close> from identifiers, which are known by their
  position, to objects.  Each analyzer is shown to report exactly the places its documentation names.
\<close>

subsection \<open>Syntax and types\<close>

datatype types_Type = Named string "string option" | Pointer types_Type | OtherType

datatype object =
    VarObj nat string "string option" bool
  | FuncObj string "string option" "types_Type option"
  | OtherObj

text \<open>
  A variable has its identity (objects are compared as pointers), its name, its package's name and
  whether its scope is the package's; a function its name, its package's path and its receiver's type.
\<close>

record param_field =
  p_names :: "(nat \<times> string) list"
  p_type :: "types_Type option"

datatype kind =
    IdentK nat string
  | SelectorK
  | CallK nat
  | FuncDeclK string "param_field list" bool
  | OtherK

text \<open>
  The children of a selector are the operand and the selected identifier, those of a call the function
  and the arguments; the last child of a declaration with a body is the body.
\<close>

datatype node = Node kind "node list"

record source_file =
  sf_name :: string
  sf_generated :: bool
  sf_root :: node

record pass_t =
  pkg_name :: string
  pass_files :: "source_file list"
  Uses :: "nat \<Rightarrow> object option"
  Defs :: "nat \<Rightarrow> object option"

type_synonym diagnostic = "nat \<times> string"

fun inspect :: "(node \<Rightarrow> 'a \<Rightarrow> bool \<times> 'a) \<Rightarrow> node \<Rightarrow> 'a \<Rightarrow> 'a"
  and inspect_all :: "(node \<Rightarrow> 'a \<Rightarrow> bool \<times> 'a) \<Rightarrow> node list \<Rightarrow> 'a \<Rightarrow> 'a" where
  "inspect f (Node k cs) a =
     (case f (Node k cs) a of (descend, a') \<Rightarrow> if descend then inspect_all f cs a' else a')"
| "inspect_all f [] a = a"
| "inspect_all f (c # cs) a = inspect_all f cs (inspect f c a)"

fun nodes :: "node \<Rightarrow> node list" and nodes_all :: "node list \<Rightarrow> node list" where
  "nodes (Node k cs) = Node k cs # nodes_all cs"
| "nodes_all [] = []"
| "nodes_all (c # cs) = nodes c @ nodes_all cs"

subsection \<open>connconfine\<close>

definition genFileName :: string where
  "genFileName = ''conn.gen.go''"

definition allowedDBFiles :: "string set" where
  "allowedDBFiles = {''db.go'', ''tx.go''}"

fun is_pool_var :: "object option \<Rightarrow> bool" where
  "is_pool_var (Some (VarObj i name (Some pkg) package_scope)) = (name = ''Conn'' \<and> pkg = ''db'' \<and> package_scope)"
| "is_pool_var _ = False"

definition pool_message :: string where
  "pool_message = ''db.Conn referenced outside conn.gen.go and db bootstrap: take a db.Queryable parameter instead''"

fun report_pool :: "pass_t \<Rightarrow> node \<Rightarrow> diagnostic list \<Rightarrow> bool \<times> diagnostic list" where
  "report_pool ps (Node (IdentK pos name) cs) ds = (True, if is_pool_var (Uses ps pos) then ds @ [(pos, pool_message)] else ds)"
| "report_pool ps n ds = (True, ds)"

fun connconfine_files :: "pass_t \<Rightarrow> source_file list \<Rightarrow> diagnostic list \<Rightarrow> diagnostic list" where
  "connconfine_files ps [] ds = ds"
| "connconfine_files ps (f # fs) ds =
     (let filename = Appname.path_base (sf_name f) in
      if filename = genFileName then connconfine_files ps fs ds
      else if pkg_name ps = ''db'' \<and> filename \<in> allowedDBFiles then connconfine_files ps fs ds
      else connconfine_files ps fs (inspect (report_pool ps) (sf_root f) ds))"

definition connconfine :: "pass_t \<Rightarrow> diagnostic list" where
  "connconfine ps =
     (if pkg_name ps = ''main'' \<or> pkg_name ps = ''webtest'' then [] else connconfine_files ps (pass_files ps) [])"

subsection \<open>jobconfine\<close>

definition riverPkgPath :: string where
  "riverPkgPath = ''github.com/riverqueue/river''"

fun named_of :: "types_Type \<Rightarrow> string option" where
  "named_of (Pointer (Named n _)) = Some n"
| "named_of (Named n _) = Some n"
| "named_of _ = None"

fun is_plain_river_insert :: "object option \<Rightarrow> bool" where
  "is_plain_river_insert (Some (FuncObj name (Some path) recv)) =
     (path = riverPkgPath \<and> has_prefix name ''Insert'' \<and> \<not> has_suffix name ''Tx'' \<and>
      (case recv of None \<Rightarrow> False | Some t \<Rightarrow> named_of t = Some ''Client''))"
| "is_plain_river_insert _ = False"

definition insert_message :: "string \<Rightarrow> string" where
  "insert_message name = ''plain '' @ name @ '' skips the caller'' @ [CHR 0x27] @
     ''s transaction: enqueue with Client.InsertTx beside the state change, or jobs.InsertStandalone when there is none''"

fun report_insert :: "pass_t \<Rightarrow> node \<Rightarrow> diagnostic list \<Rightarrow> bool \<times> diagnostic list" where
  "report_insert ps (Node (CallK pos) (Node SelectorK [x, Node (IdentK sel name) _] # args)) ds =
     (True, if is_plain_river_insert (Uses ps sel) then ds @ [(pos, insert_message name)] else ds)"
| "report_insert ps n ds = (True, ds)"

fun jobconfine_files :: "pass_t \<Rightarrow> source_file list \<Rightarrow> diagnostic list \<Rightarrow> diagnostic list" where
  "jobconfine_files ps [] ds = ds"
| "jobconfine_files ps (f # fs) ds = jobconfine_files ps fs (inspect (report_insert ps) (sf_root f) ds)"

definition jobconfine :: "pass_t \<Rightarrow> diagnostic list" where
  "jobconfine ps = (if pkg_name ps = ''jobs'' then [] else jobconfine_files ps (pass_files ps) [])"

subsection \<open>txparam\<close>

fun is_queryable_type :: "types_Type option \<Rightarrow> bool" where
  "is_queryable_type (Some (Named n (Some pkg))) = (n = ''Queryable'' \<and> pkg = ''db'')"
| "is_queryable_type _ = False"

fun refers :: "pass_t \<Rightarrow> object \<Rightarrow> node \<Rightarrow> bool" where
  "refers ps obj (Node (IdentK pos name) cs) = (Uses ps pos = Some obj)"
| "refers ps obj n = False"

definition used_in :: "pass_t \<Rightarrow> node \<Rightarrow> object \<Rightarrow> bool" where
  "used_in ps body_node obj =
     inspect (\<lambda>n used. if refers ps obj n then (False, True) else (\<not> used, used)) body_node False"

definition unused_message :: "string \<Rightarrow> string \<Rightarrow> string" where
  "unused_message name fn = ''transaction parameter '' @ name @ '' is never used: queries in '' @ fn @
     '' will escape the caller'' @ [CHR 0x27] @ ''s transaction''"

fun check_names :: "pass_t \<Rightarrow> string \<Rightarrow> node \<Rightarrow> (nat \<times> string) list \<Rightarrow> diagnostic list" where
  "check_names ps fn b [] = []"
| "check_names ps fn b ((pos, name) # ns) =
     (if name = ''_'' then check_names ps fn b ns
      else case Defs ps pos of
        None \<Rightarrow> check_names ps fn b ns
      | Some obj \<Rightarrow>
          (if used_in ps b obj then [] else [(pos, unused_message name fn)]) @ check_names ps fn b ns)"

fun check_params :: "pass_t \<Rightarrow> string \<Rightarrow> node \<Rightarrow> param_field list \<Rightarrow> diagnostic list" where
  "check_params ps fn b [] = []"
| "check_params ps fn b (f # fs) =
     (if \<not> is_queryable_type (p_type f) then [] else check_names ps fn b (p_names f)) @ check_params ps fn b fs"

fun report_unused :: "pass_t \<Rightarrow> node \<Rightarrow> diagnostic list \<Rightarrow> bool \<times> diagnostic list" where
  "report_unused ps (Node (FuncDeclK fn params has_body) cs) ds =
     (True, if has_body then ds @ check_params ps fn (last cs) params else ds)"
| "report_unused ps n ds = (True, ds)"

fun txparam_files :: "pass_t \<Rightarrow> source_file list \<Rightarrow> diagnostic list \<Rightarrow> diagnostic list" where
  "txparam_files ps [] ds = ds"
| "txparam_files ps (f # fs) ds =
     (if sf_generated f then txparam_files ps fs ds
      else txparam_files ps fs (inspect (report_unused ps) (sf_root f) ds))"

definition txparam :: "pass_t \<Rightarrow> diagnostic list" where
  "txparam ps = txparam_files ps (pass_files ps) []"

subsection \<open>The traversal\<close>

text \<open>A callback that always descends sees every node, in order.\<close>

lemma inspect_collect:
  assumes "\<And>n ds. f n ds = (True, ds @ g n)"
  shows "inspect f t ds = ds @ concat (map g (nodes t))"
    and "inspect_all f ts ds = ds @ concat (map g (nodes_all ts))"
  by (induction t and ts arbitrary: ds and ds rule: nodes_nodes_all.induct) (simp_all add: assms)

text \<open>A search that stops at the first hit finds one exactly if there is one.\<close>

lemma inspect_search:
  "inspect (\<lambda>n found. if P n then (False, True) else (\<not> found, found)) t found \<longleftrightarrow> found \<or> list_ex P (nodes t)"
  "inspect_all (\<lambda>n found. if P n then (False, True) else (\<not> found, found)) ts found \<longleftrightarrow> found \<or> list_ex P (nodes_all ts)"
  by (induction t and ts arbitrary: found and found rule: nodes_nodes_all.induct) auto

lemma used_in_iff: "used_in ps b obj \<longleftrightarrow> (\<exists>n \<in> set (nodes b). refers ps obj n)"
  by (simp add: used_in_def inspect_search list_ex_iff)

definition lint :: "pass_t \<Rightarrow> (string \<times> diagnostic list) list" where
  "lint ps = [(''txparam'', txparam ps), (''connconfine'', connconfine ps), (''jobconfine'', jobconfine ps)]"

subsection \<open>What is reported\<close>

fun pool_use :: "pass_t \<Rightarrow> node \<Rightarrow> diagnostic list" where
  "pool_use ps (Node (IdentK pos name) cs) = (if is_pool_var (Uses ps pos) then [(pos, pool_message)] else [])"
| "pool_use ps n = []"

lemma report_pool_eq: "report_pool ps n ds = (True, ds @ pool_use ps n)"
  by (cases "(ps, n, ds)" rule: report_pool.cases) simp_all

definition pool_allowed :: "pass_t \<Rightarrow> source_file \<Rightarrow> bool" where
  "pool_allowed ps f \<longleftrightarrow> Appname.path_base (sf_name f) = genFileName \<or>
     pkg_name ps = ''db'' \<and> Appname.path_base (sf_name f) \<in> allowedDBFiles"

lemma connconfine_files_eq:
  "connconfine_files ps fs ds =
     ds @ concat (map (\<lambda>f. concat (map (pool_use ps) (nodes (sf_root f)))) (filter (\<lambda>f. \<not> pool_allowed ps f) fs))"
  by (induction fs arbitrary: ds) (simp_all add: pool_allowed_def Let_def inspect_collect(1)[OF report_pool_eq])

lemma in_pool_use:
  "d \<in> set (pool_use ps n) \<longleftrightarrow> (\<exists>pos name cs. n = Node (IdentK pos name) cs \<and> is_pool_var (Uses ps pos) \<and> d = (pos, pool_message))"
  by (cases "(ps, n)" rule: pool_use.cases) auto

text \<open>
  \<open>connconfine\<close> reports exactly the references to the pool that are outside its allowed homes: not in
  package \<open>main\<close> or \<open>webtest\<close>, not in a generated \<open>conn.gen.go\<close>, not in \<open>db.go\<close> or \<open>tx.go\<close> of the
  package \<open>db\<close>.
\<close>

theorem connconfine_exact:
  "pos \<in> fst ` set (connconfine ps) \<longleftrightarrow>
     pkg_name ps \<notin> {''main'', ''webtest''} \<and> is_pool_var (Uses ps pos) \<and>
     (\<exists>f name cs. f \<in> set (pass_files ps) \<and> \<not> pool_allowed ps f \<and> Node (IdentK pos name) cs \<in> set (nodes (sf_root f)))"
proof -
  have "pos \<in> fst ` set (connconfine_files ps fs []) \<longleftrightarrow> is_pool_var (Uses ps pos) \<and>
     (\<exists>f name cs. f \<in> set fs \<and> \<not> pool_allowed ps f \<and> Node (IdentK pos name) cs \<in> set (nodes (sf_root f)))" for fs
    by (force simp: connconfine_files_eq in_pool_use image_iff)
  then show ?thesis by (simp add: connconfine_def)
qed

fun insert_use :: "pass_t \<Rightarrow> node \<Rightarrow> diagnostic list" where
  "insert_use ps (Node (CallK pos) (Node SelectorK [x, Node (IdentK sel name) ys] # args)) =
     (if is_plain_river_insert (Uses ps sel) then [(pos, insert_message name)] else [])"
| "insert_use ps n = []"

lemma report_insert_eq: "report_insert ps n ds = (True, ds @ insert_use ps n)"
  by (cases "(ps, n, ds)" rule: report_insert.cases) simp_all

lemma jobconfine_files_eq:
  "jobconfine_files ps fs ds = ds @ concat (map (\<lambda>f. concat (map (insert_use ps) (nodes (sf_root f)))) fs)"
  by (induction fs arbitrary: ds) (simp_all add: inspect_collect(1)[OF report_insert_eq])

lemma in_insert_use:
  "d \<in> set (insert_use ps n) \<longleftrightarrow> (\<exists>pos x sel name ys args.
     n = Node (CallK pos) (Node SelectorK [x, Node (IdentK sel name) ys] # args) \<and>
     is_plain_river_insert (Uses ps sel) \<and> d = (pos, insert_message name))"
  by (cases "(ps, n)" rule: insert_use.cases) auto

text \<open>
  \<open>jobconfine\<close> reports exactly the calls, outside the package \<open>jobs\<close>, whose function is written as a
  selector of a non-transactional insert method of River's client.
\<close>

theorem jobconfine_exact:
  "pos \<in> fst ` set (jobconfine ps) \<longleftrightarrow>
     pkg_name ps \<noteq> ''jobs'' \<and>
     (\<exists>f x sel name ys args. f \<in> set (pass_files ps) \<and> is_plain_river_insert (Uses ps sel) \<and>
        Node (CallK pos) (Node SelectorK [x, Node (IdentK sel name) ys] # args) \<in> set (nodes (sf_root f)))"
  by (force simp: jobconfine_def jobconfine_files_eq in_insert_use image_iff)

fun unused_params :: "pass_t \<Rightarrow> node \<Rightarrow> diagnostic list" where
  "unused_params ps (Node (FuncDeclK fn params has_body) cs) = (if has_body then check_params ps fn (last cs) params else [])"
| "unused_params ps n = []"

lemma report_unused_eq: "report_unused ps n ds = (True, ds @ unused_params ps n)"
  by (cases "(ps, n, ds)" rule: report_unused.cases) simp_all

lemma txparam_files_eq:
  "txparam_files ps fs ds =
     ds @ concat (map (\<lambda>f. concat (map (unused_params ps) (nodes (sf_root f)))) (filter (\<lambda>f. \<not> sf_generated f) fs))"
  by (induction fs arbitrary: ds) (simp_all add: inspect_collect(1)[OF report_unused_eq])

definition names_unused :: "pass_t \<Rightarrow> node \<Rightarrow> nat \<Rightarrow> string \<Rightarrow> bool" where
  "names_unused ps b pos name \<longleftrightarrow> name \<noteq> ''_'' \<and>
     (\<exists>obj. Defs ps pos = Some obj \<and> \<not> (\<exists>n \<in> set (nodes b). refers ps obj n))"

lemma in_check_names:
  "d \<in> set (check_names ps fn b ns) \<longleftrightarrow>
     (\<exists>pos name. (pos, name) \<in> set ns \<and> names_unused ps b pos name \<and> d = (pos, unused_message name fn))"
  by (induction ps fn b ns rule: check_names.induct) (auto simp: names_unused_def used_in_iff split: option.splits)

lemma in_check_params:
  "d \<in> set (check_params ps fn b fs) \<longleftrightarrow>
     (\<exists>f pos name. f \<in> set fs \<and> is_queryable_type (p_type f) \<and> (pos, name) \<in> set (p_names f) \<and>
        names_unused ps b pos name \<and> d = (pos, unused_message name fn))"
proof -
  have "check_params ps fn b fs = concat (map (\<lambda>f. if is_queryable_type (p_type f) then check_names ps fn b (p_names f) else []) fs)"
    by (induction fs) simp_all
  then show ?thesis by (force simp: in_check_names)
qed

lemma in_unused_params:
  "d \<in> set (unused_params ps n) \<longleftrightarrow> (\<exists>fn params cs. n = Node (FuncDeclK fn params True) cs \<and>
     d \<in> set (check_params ps fn (last cs) params))"
  by (cases "(ps, n)" rule: unused_params.cases) auto

text \<open>
  C36: \<open>txparam\<close> reports exactly the named parameters of type \<open>db.Queryable\<close> of the functions written by
  hand whose body nowhere refers to them; the name \<open>_\<close> opts out.
\<close>

theorem txparam_exact:
  "pos \<in> fst ` set (txparam ps) \<longleftrightarrow>
     (\<exists>f fn params cs fd name. f \<in> set (pass_files ps) \<and> \<not> sf_generated f \<and>
        Node (FuncDeclK fn params True) cs \<in> set (nodes (sf_root f)) \<and>
        fd \<in> set params \<and> is_queryable_type (p_type fd) \<and> (pos, name) \<in> set (p_names fd) \<and>
        names_unused ps (last cs) pos name)"
  unfolding txparam_def txparam_files_eq by (force simp: in_unused_params in_check_params image_iff)

subsection \<open>What the linters leave, and what they miss\<close>

text \<open>The file \<open>conngen\<close> writes is the one \<open>connconfine\<close> exempts.\<close>

lemma last_piece: "last (split_on sep (s @ sep # t)) = last (split_on sep t)"
proof (induction s)
  case (Cons c s)
  have "2 \<le> length (split_on sep (s @ sep # t))" by (induction s) (auto split: list.split simp: Suc_le_eq)
  then obtain x y xs where "split_on sep (s @ sep # t) = x # y # xs"
    by (metis Suc_le_length_iff numeral_2_eq_2)
  with Cons show ?case by simp
qed simp

lemma generated_file_allowed:
  assumes "sf_name f = dir @ ''/'' @ gen_file_name"
  shows "pool_allowed ps f"
proof -
  have "strip_slashes (rev (dir @ ''/'' @ gen_file_name)) = rev (dir @ ''/'' @ gen_file_name)"
    by (simp add: gen_file_name_def)
  moreover have "last (split_on CHR ''/'' (dir @ CHR ''/'' # gen_file_name)) = gen_file_name"
    by (simp add: last_piece gen_file_name_def)
  ultimately show ?thesis
    by (simp add: assms pool_allowed_def Appname.path_base_def Let_def genFileName_def gen_file_name_def)
qed

text \<open>
  A plain insert that is not called where it is selected - a method value, or a parenthesised
  selector - is not reported.
\<close>

definition method_value_pass :: pass_t where
  "method_value_pass =
     \<lparr>pkg_name = ''web'',
      pass_files = [\<lparr>sf_name = ''web/a.go'', sf_generated = False, sf_root = Node OtherK
        [Node OtherK [Node (IdentK 1 ''insert'') [], Node SelectorK [Node (IdentK 2 ''client'') [], Node (IdentK 3 ''Insert'') []]],
         Node (CallK 4) [Node (IdentK 5 ''insert'') []]]\<rparr>],
      Uses = [3 \<mapsto> FuncObj ''Insert'' (Some riverPkgPath) (Some (Pointer (Named ''Client'' (Some ''river''))))],
      Defs = Map.empty\<rparr>"

lemma jobconfine_misses_method_value:
  "jobconfine method_value_pass = [] \<and> is_plain_river_insert (Uses method_value_pass 3)"
  by (simp add: jobconfine_def method_value_pass_def has_prefix_iff has_suffix_iff)

end
