(* ===== verification/Welcome.thy ===== *)
theory Welcome
  imports Boot
begin

text \<open>
  The package \<open>flows\<close>: publishing an event, and the durable welcome flow.  Inngest calls the flow's
  function again and again: a \<open>step.Run\<close> or \<open>step.Sleep\<close> whose result is recorded returns it at once,
  the first one without a record runs, and the invocation ends there.  So a flow is \<open>welcome_next\<close>, the
  step the function comes to under the results recorded so far.  \<open>flow_step\<close> is what can happen: the
  step succeeds and is recorded; it fails, or runs and the process crashes before the record, and is
  tried again, up to the flow's three retries, or is given up with an error; time passes.
\<close>

subsection \<open>Publishing\<close>

definition UserCreated :: string where
  "UserCreated = ''app/user.created''"

record welcome_data =
  UserID :: int
  Email :: string

record inngest_event =
  event_name :: string
  event_data :: welcome_data

text \<open>\<open>flows.Send\<close>: \<open>publish\<close> is the effect of the client's \<open>Send\<close> on the world.\<close>

definition flows_send :: "(inngest_event \<Rightarrow> world \<Rightarrow> world) \<Rightarrow> string \<Rightarrow> welcome_data \<Rightarrow> ('s, unit) boot" where
  "flows_send publish name data =
     bindE (gets inngest) (\<lambda>configured.
     if \<not> configured then fail (Wrap [] (Sentinel ErrNotConfigured) ('' (event '' @ name @ '')''))
     else wrapE (errorf (''sending '' @ name @ '': ''))
       (\<lambda>p. case external_call (publish \<lparr>event_name = name, event_data = data\<rparr>) (pworld p) of
          (r, w) \<Rightarrow> (r, p\<lparr>pworld := w\<rparr>)))"

subsection \<open>The welcome flow\<close>

definition welcome_retries :: nat where
  "welcome_retries = 3"

definition welcome_mail :: "welcome_data \<Rightarrow> message" where
  "welcome_mail d = \<lparr>m_to = Email d, m_subject = ''Welcome!'', m_body = ''Thanks for signing up.''\<rparr>"

datatype flow_op = SendWelcome message | SettleIn int | LogFollowUp int | Finished "gerr + unit"

type_synonym memo = "string \<rightharpoonup> gerr + unit"

definition welcome_next :: "memo \<Rightarrow> welcome_data \<Rightarrow> flow_op" where
  "welcome_next recorded d =
     (case recorded ''send-welcome'' of
        None \<Rightarrow> SendWelcome (welcome_mail d)
      | Some (Inl err) \<Rightarrow> Finished (Inl (errorf ''send-welcome: '' err))
      | Some (Inr _) \<Rightarrow>
          (case recorded ''settle-in'' of
             None \<Rightarrow> SettleIn (24 * 3600)
           | Some _ \<Rightarrow>
               (case recorded ''log-follow-up'' of
                  None \<Rightarrow> LogFollowUp (UserID d)
                | Some (Inl err) \<Rightarrow> Finished (Inl (errorf ''follow-up: '' err))
                | Some (Inr _) \<Rightarrow> Finished (Inr ()))))"

record flow_run =
  recorded :: memo
  failures :: nat
  wake_at :: "int option"
  fl_world :: world
  mailed_at :: "int option"
  follow_ups :: "(int \<times> int) list"

text \<open>
  \<open>mailed_at\<close> is when the mail step was recorded, \<open>follow_ups\<close> the log lines with their times; the
  function reads neither.
\<close>

inductive flow_step :: "sender \<Rightarrow> welcome_data \<Rightarrow> flow_run \<Rightarrow> flow_run \<Rightarrow> bool" for sndr d where
  Mailed: "welcome_next (recorded s) d = SendWelcome m \<Longrightarrow> send sndr m (fl_world s) = (Inr (), w) \<Longrightarrow>
    flow_step sndr d s (s\<lparr>recorded := (recorded s)(''send-welcome'' \<mapsto> Inr ()), failures := 0, fl_world := w,
      mailed_at := Some (app_now w)\<rparr>)"
| MailedUnrecorded: "welcome_next (recorded s) d = SendWelcome m \<Longrightarrow> send sndr m (fl_world s) = (r, w) \<Longrightarrow>
    failures s < welcome_retries \<Longrightarrow> flow_step sndr d s (s\<lparr>failures := Suc (failures s), fl_world := w\<rparr>)"
| MailGivenUp: "welcome_next (recorded s) d = SendWelcome m \<Longrightarrow> send sndr m (fl_world s) = (r, w) \<Longrightarrow>
    failures s = welcome_retries \<Longrightarrow>
    flow_step sndr d s (s\<lparr>recorded := (recorded s)(''send-welcome'' \<mapsto> Inl e), fl_world := w\<rparr>)"
| SleepBegins: "welcome_next (recorded s) d = SettleIn t \<Longrightarrow> wake_at s = None \<Longrightarrow>
    flow_step sndr d s (s\<lparr>wake_at := Some (app_now (fl_world s) + t)\<rparr>)"
| Wakes: "welcome_next (recorded s) d = SettleIn t \<Longrightarrow> wake_at s = Some u \<Longrightarrow> u \<le> app_now (fl_world s) \<Longrightarrow>
    flow_step sndr d s (s\<lparr>recorded := (recorded s)(''settle-in'' \<mapsto> Inr ())\<rparr>)"
| FollowUp: "welcome_next (recorded s) d = LogFollowUp i \<Longrightarrow>
    flow_step sndr d s (s\<lparr>recorded := (recorded s)(''log-follow-up'' \<mapsto> Inr ()),
      follow_ups := follow_ups s @ [(i, app_now (fl_world s))]\<rparr>)"
| FollowUpUnrecorded: "welcome_next (recorded s) d = LogFollowUp i \<Longrightarrow> failures s < welcome_retries \<Longrightarrow>
    logs \<in> {[], [(i, app_now (fl_world s))]} \<Longrightarrow>
    flow_step sndr d s (s\<lparr>failures := Suc (failures s), follow_ups := follow_ups s @ logs\<rparr>)"
| FollowUpGivenUp: "welcome_next (recorded s) d = LogFollowUp i \<Longrightarrow> failures s = welcome_retries \<Longrightarrow>
    logs \<in> {[], [(i, app_now (fl_world s))]} \<Longrightarrow>
    flow_step sndr d s (s\<lparr>recorded := (recorded s)(''log-follow-up'' \<mapsto> Inl e), follow_ups := follow_ups s @ logs\<rparr>)"
| TimePasses: "0 \<le> t \<Longrightarrow> flow_step sndr d s (s\<lparr>fl_world := (fl_world s)\<lparr>app_now := app_now (fl_world s) + t\<rparr>\<rparr>)"

inductive flow_runs :: "sender \<Rightarrow> welcome_data \<Rightarrow> flow_run \<Rightarrow> flow_run \<Rightarrow> bool" for sndr d where
  Begin: "flow_runs sndr d s s"
| More: "flow_runs sndr d s s1 \<Longrightarrow> flow_step sndr d s1 s2 \<Longrightarrow> flow_runs sndr d s s2"

definition triggered :: "world \<Rightarrow> flow_run" where
  "triggered w = \<lparr>recorded = Map.empty, failures = 0, wake_at = None, fl_world = w, mailed_at = None, follow_ups = []\<rparr>"

definition settle_time :: int where
  "settle_time = 24 * 3600"

definition welcome_inv :: "welcome_data \<Rightarrow> world \<Rightarrow> flow_run \<Rightarrow> bool" where
  "welcome_inv d w0 s \<longleftrightarrow>
     (\<exists>k. outbox (fl_world s) = outbox w0 @ replicate k (welcome_mail d) \<and>
        mail_rest (fl_world s) = mail_rest w0 \<and>
        (recorded s ''send-welcome'' = None \<longrightarrow> k \<le> failures s \<and> failures s \<le> welcome_retries \<and> mailed_at s = None) \<and>
        (recorded s ''send-welcome'' = Some (Inr ()) \<longrightarrow> 1 \<le> k \<and> mailed_at s \<noteq> None) \<and> k \<le> Suc welcome_retries) \<and>
     (\<forall>u. wake_at s = Some u \<longrightarrow> (\<exists>t. mailed_at s = Some t \<and> t + settle_time \<le> u)) \<and>
     (\<forall>t. mailed_at s = Some t \<longrightarrow> t \<le> app_now (fl_world s)) \<and>
     (recorded s ''settle-in'' \<noteq> None \<longrightarrow> (\<exists>t. mailed_at s = Some t \<and> t + settle_time \<le> app_now (fl_world s)) \<and>
        recorded s ''send-welcome'' = Some (Inr ())) \<and>
     (\<forall>(i, n) \<in> set (follow_ups s). i = UserID d \<and> (\<exists>t. mailed_at s = Some t \<and> t + settle_time \<le> n)) \<and>
     (recorded s ''log-follow-up'' = Some (Inr ()) \<longrightarrow> follow_ups s \<noteq> [])"

lemma send_app_now: "send sndr m w = (r, w') \<Longrightarrow> app_now w' = app_now w"
  by (cases sndr) (auto simp: log_send_def ses_send_def deliver_def external_call_def next_call_eq wrapE_def
      split: outcome.splits sum.splits prod.splits)

text \<open>One attempt at the mail: it is delivered once or not at all, and once if the send succeeds.\<close>

lemma send_once:
  assumes "send sndr m w = (r, w')"
  shows "\<exists>j \<le> 1. outbox w' = outbox w @ replicate j m \<and> (\<not> isl r \<longrightarrow> j = 1)" and "mail_rest w' = mail_rest w"
proof -
  show "mail_rest w' = mail_rest w" using outbox_sender.post_rest[of sndr m w] assms by simp
  show "\<exists>j \<le> 1. outbox w' = outbox w @ replicate j m \<and> (\<not> isl r \<longrightarrow> j = 1)"
  proof (cases r)
    case (Inl e)
    with outbox_sender.post_err[of sndr m w e w'] assms consider "outbox w' = outbox w" | "outbox w' = outbox w @ [m]" by blast
    then show ?thesis by cases (use Inl in \<open>auto intro: exI[of _ 0] exI[of _ 1]\<close>)
  next
    case (Inr u)
    with outbox_sender.post_ok[of sndr m w u w'] assms show ?thesis by (intro exI[of _ 1]) simp
  qed
qed

lemma welcome_next_eq:
  "welcome_next rc d = SendWelcome m \<longleftrightarrow> rc ''send-welcome'' = None \<and> m = welcome_mail d"
  "welcome_next rc d = SettleIn t \<longleftrightarrow> rc ''send-welcome'' = Some (Inr ()) \<and> rc ''settle-in'' = None \<and> t = settle_time"
  "welcome_next rc d = LogFollowUp i \<longleftrightarrow> rc ''send-welcome'' = Some (Inr ()) \<and> rc ''settle-in'' \<noteq> None \<and>
     rc ''log-follow-up'' = None \<and> i = UserID d"
  by (auto simp: welcome_next_def settle_time_def split: option.splits sum.splits)

text \<open>Before the mail is recorded nothing else has happened, and every attempt so far counts.\<close>

lemma welcome_unsent:
  assumes "welcome_inv d w0 s" and "recorded s ''send-welcome'' = None"
  shows "\<exists>k. outbox (fl_world s) = outbox w0 @ replicate k (welcome_mail d) \<and> k \<le> failures s \<and>
      failures s \<le> welcome_retries \<and> mail_rest (fl_world s) = mail_rest w0 \<and> mailed_at s = None"
    and "wake_at s = None" and "follow_ups s = []" and "recorded s ''settle-in'' = None" and "recorded s ''log-follow-up'' \<noteq> Some (Inr ())"
  using assms unfolding welcome_inv_def by (blast, (cases "wake_at s"; cases "follow_ups s"; force)+)

lemma welcome_attempt:
  assumes "welcome_inv d w0 s" and "recorded s ''send-welcome'' = None" and "send sndr (welcome_mail d) (fl_world s) = (r, w)"
  shows "\<exists>k. outbox w = outbox w0 @ replicate k (welcome_mail d) \<and> k \<le> Suc (failures s) \<and> (\<not> isl r \<longrightarrow> 1 \<le> k)"
    and "mail_rest w = mail_rest w0"
proof -
  obtain k where k: "outbox (fl_world s) = outbox w0 @ replicate k (welcome_mail d)" "k \<le> failures s"
    "mail_rest (fl_world s) = mail_rest w0" using welcome_unsent(1)[OF assms(1,2)] by blast
  obtain j where j: "j \<le> 1" "outbox w = outbox (fl_world s) @ replicate j (welcome_mail d)" "\<not> isl r \<longrightarrow> j = 1"
    using send_once(1)[OF assms(3)] by blast
  then have "outbox w = outbox w0 @ replicate (k + j) (welcome_mail d)" using k by (simp add: replicate_add)
  with j k show "\<exists>k. outbox w = outbox w0 @ replicate k (welcome_mail d) \<and> k \<le> Suc (failures s) \<and> (\<not> isl r \<longrightarrow> 1 \<le> k)"
    by (intro exI[of _ "k + j"]) auto
  show "mail_rest w = mail_rest w0" using send_once(2)[OF assms(3)] k(3) by simp
qed

lemma welcome_inv_step:
  assumes "welcome_inv d w0 s" and "flow_step sndr d s s'"
  shows "welcome_inv d w0 s'"
  using assms(2)
proof (cases rule: flow_step.cases)
  case (Mailed m w)
  from Mailed(2,3) have none: "recorded s ''send-welcome'' = None" and m: "send sndr (welcome_mail d) (fl_world s) = (Inr (), w)"
    by (auto simp: welcome_next_eq)
  note before = welcome_unsent[OF assms(1) none]
  from welcome_attempt[OF assms(1) none m] before(1) show ?thesis
    unfolding Mailed(1) welcome_inv_def using before(2-5) by fastforce
next
  case (MailedUnrecorded m r w)
  from MailedUnrecorded(2,3) have none: "recorded s ''send-welcome'' = None"
    and m: "send sndr (welcome_mail d) (fl_world s) = (r, w)" by (auto simp: welcome_next_eq)
  note before = welcome_unsent[OF assms(1) none]
  from welcome_attempt[OF assms(1) none m] before(1) MailedUnrecorded(4) show ?thesis
    unfolding MailedUnrecorded(1) welcome_inv_def using before(2-5) none by fastforce
next
  case (MailGivenUp m r w e)
  from MailGivenUp(2,3) have none: "recorded s ''send-welcome'' = None"
    and m: "send sndr (welcome_mail d) (fl_world s) = (r, w)" by (auto simp: welcome_next_eq)
  note before = welcome_unsent[OF assms(1) none]
  from welcome_attempt[OF assms(1) none m] before(1) MailGivenUp(4) show ?thesis
    unfolding MailGivenUp(1) welcome_inv_def using before(2-5) by fastforce
qed (use assms(1) in \<open>fastforce simp: welcome_inv_def welcome_next_eq mail_rest_def\<close>)+

lemma welcome_inv_runs: "flow_runs sndr d s s' \<Longrightarrow> welcome_inv d w0 s \<Longrightarrow> welcome_inv d w0 s'"
  by (induction rule: flow_runs.induct) (auto intro: welcome_inv_step)

lemma triggered_inv: "welcome_inv d w (triggered w)"
  by (auto simp: welcome_inv_def triggered_def)

text \<open>
  C37: However often the flow's function is called, crashes and is retried: the outbox gains nothing but the
  welcome mail, to the email of the event, at most four times (the first attempt and three retries); a flow that has
  finished well has sent it; and no follow-up is logged before a day has passed since the mail was
  recorded.
\<close>

theorem welcome_flow_safe:
  assumes "flow_runs sndr d (triggered w) s"
  shows "(\<exists>k \<le> 4. outbox (fl_world s) = outbox w @
        replicate k \<lparr>m_to = Email d, m_subject = ''Welcome!'', m_body = ''Thanks for signing up.''\<rparr> \<and>
      (welcome_next (recorded s) d = Finished (Inr ()) \<longrightarrow> 1 \<le> k \<and> follow_ups s \<noteq> [])) \<and>
    (\<forall>(i, n) \<in> set (follow_ups s). i = UserID d \<and> (\<exists>t. mailed_at s = Some t \<and> t + 24 * 3600 \<le> n)) \<and>
    tables (fl_world s) = tables w"
proof -
  have inv: "welcome_inv d w s" by (rule welcome_inv_runs[OF assms triggered_inv])
  have fin: "welcome_next (recorded s) d = Finished (Inr ()) \<longrightarrow> recorded s ''send-welcome'' = Some (Inr ()) \<and>
      recorded s ''log-follow-up'' = Some (Inr ())"
    by (auto simp: welcome_next_def split: option.splits sum.splits)
  from inv obtain k where "outbox (fl_world s) = outbox w @ replicate k (welcome_mail d)" "k \<le> 4"
    "recorded s ''send-welcome'' = Some (Inr ()) \<longrightarrow> 1 \<le> k" "mail_rest (fl_world s) = mail_rest w"
    unfolding welcome_inv_def welcome_retries_def by auto
  with inv fin show ?thesis unfolding welcome_inv_def settle_time_def by (auto simp: mail_rest_def welcome_mail_def)
qed

text \<open>A run to the end, the first mail sent by a process that crashes before it is recorded.\<close>

theorem welcome_flow_safe_witness:
  "\<exists>s. flow_runs LogSender \<lparr>UserID = 1, Email = ''ada@example.com''\<rparr> (triggered demo_world) s \<and>
     welcome_next (recorded s) \<lparr>UserID = 1, Email = ''ada@example.com''\<rparr> = Finished (Inr ()) \<and>
     outbox (fl_world s) \<noteq> []"
proof -
  let ?d = "\<lparr>UserID = 1, Email = ''ada@example.com''\<rparr>"
  let ?w1 = "deliver (welcome_mail ?d) demo_world" let ?w2 = "deliver (welcome_mail ?d) ?w1"
  let ?s0 = "triggered demo_world"
  let ?s1 = "?s0\<lparr>failures := Suc (failures ?s0), fl_world := ?w1\<rparr>"
  let ?s2 = "?s1\<lparr>recorded := (recorded ?s1)(''send-welcome'' \<mapsto> Inr ()), failures := 0, fl_world := ?w2,
      mailed_at := Some (app_now ?w2)\<rparr>"
  let ?s3 = "?s2\<lparr>wake_at := Some (app_now (fl_world ?s2) + settle_time)\<rparr>"
  let ?s4 = "?s3\<lparr>fl_world := (fl_world ?s3)\<lparr>app_now := app_now (fl_world ?s3) + settle_time\<rparr>\<rparr>"
  let ?s5 = "?s4\<lparr>recorded := (recorded ?s4)(''settle-in'' \<mapsto> Inr ())\<rparr>"
  let ?s6 = "?s5\<lparr>recorded := (recorded ?s5)(''log-follow-up'' \<mapsto> Inr ()),
      follow_ups := follow_ups ?s5 @ [(1, app_now (fl_world ?s5))]\<rparr>"
  have send: "log_send m w = (Inr (), deliver m w)" for m w by (simp add: log_send_def)
  have "flow_step LogSender ?d ?s0 ?s1"
    by (rule MailedUnrecorded[where r = "Inr ()" and m = "welcome_mail ?d"])
      (simp_all add: welcome_next_eq triggered_def send welcome_retries_def)
  moreover have "flow_step LogSender ?d ?s1 ?s2"
    by (rule Mailed[where m = "welcome_mail ?d"]) (simp_all add: welcome_next_eq triggered_def send)
  moreover have "flow_step LogSender ?d ?s2 ?s3" by (rule SleepBegins) (simp_all add: welcome_next_eq triggered_def)
  moreover have "flow_step LogSender ?d ?s3 ?s4" by (rule TimePasses) (simp add: settle_time_def)
  moreover have "flow_step LogSender ?d ?s4 ?s5"
    by (rule Wakes[where t = settle_time and u = "app_now ?w2 + settle_time"]) (simp_all add: welcome_next_eq triggered_def)
  moreover have "flow_step LogSender ?d ?s5 ?s6" by (rule FollowUp) (simp_all add: welcome_next_eq triggered_def)
  ultimately have run: "flow_runs LogSender ?d ?s0 ?s6" by (meson flow_runs.intros)
  have fin: "welcome_next (recorded ?s6) ?d = Finished (Inr ())" by (simp add: welcome_next_def triggered_def)
  from welcome_flow_safe[OF run] fin have "outbox (fl_world ?s6) \<noteq> []" by (elim conjE exE) auto
  with run fin show ?thesis by blast
qed

end
