(* ===== verification/Commands.thy ===== *)
theory Commands
  imports Welcome Fixture
begin

text \<open>
  The commands beside the server: \<open>cmd/createuser\<close> and \<open>cmd/migrate\<close>, and the account factory of the
  tests, \<open>auth/factory.go\<close>.  A command is run over the process and gives its exit code with the lines
  it prints.  The migration tool \<open>goose\<close> is a record of what its functions answer.
\<close>

datatype line = Stdout string | Stderr string

subsection \<open>createuser\<close>

record create_flags =
  arg_email :: string
  arg_password :: string
  arg_name :: string
  arg_roles :: string

definition role_list :: "string \<Rightarrow> string list option" where
  "role_list roles =
     (let rs = filter (\<lambda>r. r \<noteq> []) (map trim_space (split_on CHR '','' roles)) in
      if rs = [] then None else Some rs)"

definition create_args :: "create_flags \<Rightarrow> create_input" where
  "create_args f =
     \<lparr>ci_email = arg_email f, ci_password = arg_password f, ci_name = arg_name f, ci_roles = role_list (arg_roles f)\<rparr>"

definition announce :: "(inngest_event \<Rightarrow> world \<Rightarrow> world) \<Rightarrow> user \<Rightarrow> 's process \<Rightarrow> (int \<times> line list) \<times> 's process" where
  "announce publish u p =
     (let created = Stdout (''created user '' @ itoa (u_id u) @ '' ('' @ u_email u @ '')'') in
      case flows_configure p of
        (Inl err, p') \<Rightarrow> ((0, [created, Stderr (''createuser: welcome event skipped: '' @ err_text err)]), p')
      | (Inr _, p') \<Rightarrow>
          (case flows_send publish UserCreated \<lparr>UserID = u_id u, Email = u_email u\<rparr> p' of
             (Inl err, p'') \<Rightarrow>
               ((0, [created, Stderr (''createuser: welcome event not delivered (fine if no Inngest server is up): '' @ err_text err)]), p'')
           | (Inr _, p'') \<Rightarrow> ((0, [created]), p'')))"

definition create_user ::
  "(inngest_event \<Rightarrow> world \<Rightarrow> world) \<Rightarrow> (string \<Rightarrow> string) \<Rightarrow> argon2id \<Rightarrow> create_flags \<Rightarrow> 's process \<Rightarrow>
   (int \<times> line list) \<times> 's process" where
  "create_user publish lower A flags p =
     (case db_configure p of
        (Inl err, p1) \<Rightarrow> ((1, [Stderr (''createuser: db: '' @ err_text err)]), p1)
      | (Inr _, p1) \<Rightarrow>
          (case (case create lower A (create_args flags) (pworld p1) of
                   (Inl err, w) \<Rightarrow> ((1, [Stderr (''createuser: '' @ err_text err)]), p1\<lparr>pworld := w\<rparr>)
                 | (Inr u, w) \<Rightarrow> announce publish u (p1\<lparr>pworld := w\<rparr>)) of
             (result, p2) \<Rightarrow> (result, snd (db_close p2))))"

subsection \<open>migrate\<close>

datatype goose_op = Up | UpByOne | Down | Redo | GooseReset | Status | Version

datatype goose_call = Create string | SetDialect | OpenDb | RunOp goose_op | CloseDb

type_synonym goose = "goose_call \<Rightarrow> gerr option"

definition migrate_op :: "string \<Rightarrow> goose_op option" where
  "migrate_op cmd = map_of
     [(''up'', Up), (''up-by-one'', UpByOne), (''down'', Down), (''redo'', Redo), (''reset'', GooseReset),
      (''status'', Status), (''version'', Version)] cmd"

text \<open>The calls a run makes, with its error.\<close>

definition migrate_run :: "goose \<Rightarrow> string \<Rightarrow> gerr option \<times> goose_call list" where
  "migrate_run g cmd =
     (case migrate_op cmd of
        None \<Rightarrow> (Some (Sentinel ErrUsage), [])
      | Some act \<Rightarrow> (map_option (errorf (cmd @ '': '')) (g (RunOp act)), [RunOp act]))"

definition migrate_main_err :: "goose \<Rightarrow> string list \<Rightarrow> gerr option \<times> goose_call list" where
  "migrate_main_err g args =
     (if length args < 2 then (Some (Sentinel ErrUsage), [])
      else let cmd = args ! 1 in
        if cmd = ''create'' then
          (if length args \<noteq> 3 then (Some (Sentinel ErrUsage), [])
           else (map_option (errorf ''create migration: '') (g (Create (args ! 2))), [Create (args ! 2)]))
        else case g SetDialect of
          Some err \<Rightarrow> (Some (errorf ''set goose dialect: '' err), [SetDialect])
        | None \<Rightarrow>
            (case g OpenDb of
               Some err \<Rightarrow> (Some (errorf ''open database: '' err), [SetDialect, OpenDb])
             | None \<Rightarrow>
                 (case migrate_run g cmd of (r, cs) \<Rightarrow> (r, [SetDialect, OpenDb] @ cs @ [CloseDb]))))"

definition migrate_main :: "goose \<Rightarrow> string list \<Rightarrow> int \<times> goose_call list" where
  "migrate_main g args =
     (case migrate_main_err g args of
        (None, cs) \<Rightarrow> (0, cs)
      | (Some err, cs) \<Rightarrow> (if errors_is err ErrUsage then 2 else 1, cs))"

text \<open>The commands of the usage message.\<close>

definition migrate_usage :: "string list \<Rightarrow> bool" where
  "migrate_usage args \<longleftrightarrow>
     2 \<le> length args \<and> (args ! 1 = ''create'' \<and> length args = 3 \<or> args ! 1 \<noteq> ''create'' \<and> migrate_op (args ! 1) \<noteq> None)"

subsection \<open>The factory\<close>

definition MakePassword :: string where
  "MakePassword = ''factory-pw''"

datatype make_option = WithEmail string | WithPassword string | WithName string | WithRoles "string list"

fun apply_option :: "make_option \<Rightarrow> create_input \<Rightarrow> create_input" where
  "apply_option (WithEmail email) inp = inp\<lparr>ci_email := email\<rparr>"
| "apply_option (WithPassword pw) inp = inp\<lparr>ci_password := pw\<rparr>"
| "apply_option (WithName name) inp = inp\<lparr>ci_name := name\<rparr>"
| "apply_option (WithRoles roles) inp = inp\<lparr>ci_roles := (if roles = [] then None else Some roles)\<rparr>"

definition make_input :: "string \<Rightarrow> make_option list \<Rightarrow> create_input" where
  "make_input code5 opts = fold apply_option opts
     \<lparr>ci_email = ''user-'' @ code5 @ ''@example.com'', ci_password = MakePassword, ci_name = ''User '' @ code5, ci_roles = None\<rparr>"

text \<open>The sequence panics, \<open>None\<close>, when it finds no free tag.\<close>

definition make ::
  "(nat \<Rightarrow> nat) \<Rightarrow> (string \<Rightarrow> string) \<Rightarrow> argon2id \<Rightarrow> make_option list \<Rightarrow> sequence \<Rightarrow> world \<Rightarrow>
   ((gerr + user) \<times> sequence \<times> world) option" where
  "make intn lower A opts sq w =
     (case sequence_next intn sq of
        None \<Rightarrow> None
      | Some (code5, sq') \<Rightarrow> (case create lower A (make_input code5 opts) w of (r, w') \<Rightarrow> Some (r, sq', w')))"

subsection \<open>What createuser leaves behind\<close>

lemma tables_external [simp]: "tables (snd (external_call id w)) = tables w"
  by (simp add: external_call_def next_call_eq tick_def split: outcome.split)

lemma keeps_tables [keeps_intros]: "keeps (\<lambda>p. tables (pworld p) = T \<and> Q (Conn p)) (ext_call c)"
  by (simp add: keeps_def ext_call_run)

lemma keeps_flows: "keeps (\<lambda>p. tables (pworld p) = T \<and> Conn p = C) flows_configure"
proof -
  have "keeps (\<lambda>p. tables (pworld p) = T \<and> Conn p = C) (modify (\<lambda>p. p\<lparr>inngest := True\<rparr>))" by (simp add: keeps_def)
  then show ?thesis unfolding flows_configure_def register_welcome_def by (intro keeps_intros keeps_tables)
qed

lemma announce_fields:
  assumes "announce publish u p = (result, q)" and "\<And>ev w. tables (publish ev w) = tables w"
  shows "fst result = 0 \<and> tables (pworld q) = tables (pworld p) \<and> Conn q = Conn p"
proof -
  have flows: "tables (pworld q2) = tables (pworld q1) \<and> Conn q2 = Conn q1"
    if "flows_configure q1 = (r, q2)" for q1 r and q2 :: "'a process"
    using keeps_run[OF keeps_flows that, of "tables (pworld q1)" "Conn q1"] by simp
  have pub: "external_call (publish ev) w = (r, w') \<Longrightarrow> tables w' = tables w" for ev w r w'
    using assms(2) by (auto simp: external_call_def next_call_eq tick_def split: outcome.splits)
  have sent: "flows_send publish n d q1 = (r, q2) \<Longrightarrow> tables (pworld q2) = tables (pworld q1) \<and> Conn q2 = Conn q1" for n d q1 r and q2 :: "'a process"
    by (auto simp: flows_send_def bindE_def wrapE_def dest: pub split: if_splits prod.splits sum.splits)
  obtain r1 q1 where f: "flows_configure p = (r1, q1)" by force
  obtain r2 q2 where n: "flows_send publish UserCreated \<lparr>UserID = u_id u, Email = u_email u\<rparr> q1 = (r2, q2)" by force
  from assms(1) flows[OF f] sent[OF n] f n show ?thesis
    by (cases r1; cases r2) (auto simp: announce_def Let_def)
qed

lemma create_user_cases:
  assumes "create_user publish lower A flags p = ((code, out), q)" and "\<And>ev w. tables (publish ev w) = tables w"
  shows "(\<exists>err p1. db_configure p = (Inl err, p1) \<and> code = 1 \<and> q = p1) \<or>
    (\<exists>p1 err w. db_configure p = (Inr (), p1) \<and> create lower A (create_args flags) (pworld p1) = (Inl err, w) \<and>
       code = 1 \<and> tables (pworld q) = tables w \<and> Conn q = Closed) \<or>
    (\<exists>p1 u w. db_configure p = (Inr (), p1) \<and> create lower A (create_args flags) (pworld p1) = (Inr u, w) \<and>
       code = 0 \<and> tables (pworld q) = tables w \<and> Conn q = Closed)"
proof (cases "db_configure p")
  case (Pair r p1)
  show ?thesis
  proof (cases r)
    case (Inl err)
    with Pair assms(1) show ?thesis by (auto simp: create_user_def)
  next
    case (Inr v)
    obtain r2 w where c: "create lower A (create_args flags) (pworld p1) = (r2, w)" by force
    show ?thesis
    proof (cases r2)
      case (Inl err)
      with Inr Pair c assms(1) show ?thesis by (auto simp: create_user_def db_close_def)
    next
      case (Inr u)
      obtain result p2 where a: "announce publish u (p1\<lparr>pworld := w\<rparr>) = (result, p2)"
        by (metis surj_pair)
      with Inr \<open>r = Inr v\<close> Pair c assms(1) have "(code, out) = result" "q = snd (db_close p2)"
        by (auto simp: create_user_def)
      with announce_fields[OF a assms(2)] Inr \<open>r = Inr v\<close> Pair c show ?thesis
        by (cases result) (auto simp: db_close_def)
    qed
  qed
qed

lemma fate_external [simp]: "fate (snd (external_call id w)) = fate w"
  by (simp add: external_call_def next_call_eq tick_def split: outcome.split)

lemma db_configure_world:
  "db_configure p = (r, p1) \<Longrightarrow> tables (pworld p1) = tables (pworld p) \<and> fate (pworld p1) = fate (pworld p)"
proof -
  assume run: "db_configure p = (r, p1)"
  let ?I = "\<lambda>q. tables (pworld q) = tables (pworld p) \<and> fate (pworld q) = fate (pworld p)"
  have "keeps ?I (ext_call c)" for c by (simp add: keeps_def ext_call_run)
  moreover have "keeps ?I (modify (\<lambda>p. p\<lparr>Conn := x, local_pool := b\<rparr>))" "keeps ?I (modify (\<lambda>p. p\<lparr>local_pool := b\<rparr>))" for x b
    by (simp_all add: keeps_def)
  ultimately have "keeps ?I db_configure" unfolding db_configure_def by (intro keeps_intros)
  from keeps_run[OF this run] show ?thesis by simp
qed

text \<open>What \<open>Create\<close> can leave behind when it answers with an error: the row, if the reply to its insert was lost.\<close>

lemma create_Inl:
  assumes "create lower A inp w = (Inl e, w')" and "tables w' \<noteq> tables w"
  shows "\<exists>k m u. fate w k = Unacked m \<and> users (tables w') = users (tables w) @ [u] \<and> u_email u = trim_space (ci_email inp)"
proof -
  let ?email = "trim_space (ci_email inp)"
  let ?row = "\<lambda>hash. user_to_row_map \<lparr>u_id = 0, u_email = ?email, u_password_hash = hash,
       u_name = default_name (ci_name inp) ?email, u_roles = ci_roles inp, u_created_at = 0, u_updated_at = 0\<rparr>"
  have pre: "?email \<noteq> []" "validate_password (ci_password inp) = None"
    using assms by (auto simp: create_def create_tx_def Let_def split: option.splits if_splits)
  obtain r w1 where h: "hash_password A (ci_password inp) w = (r, w1)" by force
  have w1: "tables w1 = tables w" "fate w1 = fate w"
    using h by (auto simp: hash_password_run tick_def hashed_def salted_def split: option.splits)
  have "\<exists>hash. r = Inr hash"
    using assms pre h w1(1) by (cases r) (auto simp: create_def create_tx_def Let_def bindE_def wrapE_def)
  then obtain hash where hash: "r = Inr hash" ..
  obtain r2 w2 where i: "insert_tx scan_user (conn lower) (InsertUser (?row hash)) w1 = (r2, w2)" by force
  have w2: "w' = w2" "isl r2"
    using assms pre h hash i
    by (cases r2; auto simp: create_def create_tx_def Let_def bindE_def wrapE_def attempt_def split: if_splits)+
  obtain rr where q: "pg_query lower (InsertUser (?row hash)) w1 = (rr, w2)"
    using i by (auto simp: insert_tx_def find_exactly_one_tx_def bindE_def wrapE_def
        split: prod.splits sum.splits collect_error.splits)
  let ?u = "new_user inp hash (user_seq w1) (db_now w1)"
  show ?thesis
  proof (cases "fate w1 (calls w1)")
    case Works
    with q i w1 w2 assms(2) show ?thesis
      by (auto simp: pg_query_def next_call_eq insert_new_user Let_def insert_tx_def find_exactly_one_tx_def bindE_def wrapE_def
          add_user_def split: if_splits)
  next
    case (Unacked m)
    with q w1 w2 assms(2) have "users (tables w') = users (tables w) @ [?u]"
      by (auto simp: pg_query_def next_call_eq insert_new_user Let_def add_user_def split: if_splits)
    with Unacked w1 show ?thesis by (auto simp: new_user_def)
  qed (use q w1 w2 assms(2) in \<open>auto simp: pg_query_def next_call_eq\<close>)
qed


definition bob_flags :: create_flags where
  "bob_flags = \<lparr>arg_email = ''bob@example.com'', arg_password = ''battery-staple'', arg_name = [], arg_roles = ''admin''\<rparr>"

lemma bob_roles: "role_list ''admin'' = Some [''admin'']"
proof -
  have "trim_space ''admin'' = ''admin''" by (simp add: trim_space_visible visible_def)
  then show ?thesis by (simp add: role_list_def)
qed

lemma bob_flags_created:
  assumes "reliable w" and "tables w = tables demo_world"
  shows "\<exists>u w'. create id demo_argon2id (create_args bob_flags) w = (Inr u, w')"
proof -
  have i: "create_args bob_flags = bob_input\<lparr>ci_roles := Some [''admin'']\<rparr>"
    by (simp add: create_args_def bob_flags_def bob_input_def bob_roles)
  have "CreateHash demo_argon2id (ci_password (create_args bob_flags)) (entropy w (rand_reads w)) =
    Inr (hex_encode (ci_password bob_input) @ ''$'' @ hex_encode (entropy w (rand_reads w)))"
    by (simp add: demo_argon2id_def i)
  from create_run[OF assms(1) _ _ this, of id] show ?thesis using assms(2) by (simp add: i Let_def)
qed

lemma bob_provisioned:
  obtains out q where "create_user (\<lambda>ev w. w) id demo_argon2id bob_flags (demo_process demo_app demo_world) = ((0, out), q)"
proof -
  let ?p = "demo_process demo_app demo_world"
  obtain p1 where d: "db_configure ?p = (Inr (), p1)" "reliable (pworld p1)"
    using demo_world_inv(2) by (auto simp: db_configure_def bind_wrap_ext ext_call_run demo_process_def external_call_reliable)
  then obtain u w where "create id demo_argon2id (create_args bob_flags) (pworld p1) = (Inr u, w)"
    using bob_flags_created[of "pworld p1"] db_configure_world[OF d(1)] by (auto simp: demo_process_def)
  moreover obtain code out q where run: "create_user (\<lambda>ev w. w) id demo_argon2id bob_flags ?p = ((code, out), q)"
    by (metis surj_pair)
  ultimately have "code = 0" using create_user_cases[OF run] d by auto
  with run that show thesis by simp
qed


subsection \<open>The exit code of migrate\<close>

text \<open>
  \<open>migrate\<close> exits with 2 exactly when it is called against its usage, and then runs no migration and
  creates none; otherwise with 0 exactly when every call of the migration tool it made succeeded, and
  with 1 if one failed.  A database that was opened is closed again.
\<close>

theorem migrate_exit:
  assumes "\<And>c e. g c = Some e \<Longrightarrow> \<not> errors_is e ErrUsage" and "migrate_main g args = (code, cs)"
  shows "(code = 2 \<longleftrightarrow> \<not> migrate_usage args \<and> (2 \<le> length args \<and> args ! 1 \<noteq> ''create'' \<longrightarrow> g SetDialect = None \<and> g OpenDb = None)) \<and>
    (code = 0 \<longleftrightarrow> migrate_usage args \<and> (\<forall>c \<in> set cs. c = CloseDb \<or> g c = None)) \<and>
    (\<not> migrate_usage args \<longrightarrow> set cs \<subseteq> {SetDialect, OpenDb, CloseDb}) \<and>
    (OpenDb \<in> set cs \<and> g OpenDb = None \<longrightarrow> last cs = CloseDb)"
  using assms(2)
  by (auto simp: migrate_main_def migrate_main_err_def migrate_run_def migrate_usage_def Let_def dest: assms(1)
      split: prod.splits option.splits if_splits)

definition demo_goose :: goose where
  "demo_goose c = (if c = RunOp Down then Some (External ''no migrations to run'') else None)"

theorem migrate_exit_witness:
  "migrate_main demo_goose [''migrate'', ''up''] = (0, [SetDialect, OpenDb, RunOp Up, CloseDb]) \<and>
   fst (migrate_main demo_goose [''migrate'', ''down'']) = 1 \<and> fst (migrate_main demo_goose [''migrate'', ''sideways'']) = 2"
proof -
  have g: "demo_goose c = Some e \<Longrightarrow> \<not> errors_is e ErrUsage" for c e by (auto simp: demo_goose_def split: if_splits)
  have up: "migrate_main demo_goose [''migrate'', ''up''] = (0, [SetDialect, OpenDb, RunOp Up, CloseDb])"
    "migrate_main demo_goose [''migrate'', ''down''] = (1, [SetDialect, OpenDb, RunOp Down, CloseDb])"
    by (simp_all add: migrate_main_def migrate_main_err_def migrate_run_def migrate_op_def demo_goose_def)
  obtain code cs where side: "migrate_main demo_goose [''migrate'', ''sideways''] = (code, cs)" by force
  from migrate_exit[OF g side] have "code = 2" by (simp add: migrate_usage_def migrate_op_def demo_goose_def)
  with up side show ?thesis by simp
qed

text \<open>The defaults of the factory: the password passes the policy, and the tag decides the email.\<close>

lemma factory_defaults:
  "validate_password MakePassword = None"
  "ci_email (make_input code5 []) = ci_email (make_input code6 []) \<longleftrightarrow> code5 = code6"
  by (simp_all add: MakePassword_def validate_password_def PasswordMinLength_def passwordMaxBytes_def
      rune_count_ascii ascii_def make_input_def)

end
