(* ===== verification/Db_Conn.thy ===== *)
theory Db_Conn
  imports Store
begin

text \<open>
  \<open>db/conn.gen.go\<close>: the functions of the data-access layer over the pool itself.  Each is its \<open>Tx\<close>
  function at \<open>Conn\<close>; no transaction is open around them.
\<close>

definition find_all :: "('r \<Rightarrow> gerr + 'a) \<Rightarrow> ('w, 'q, 'r) queryable \<Rightarrow> 'q \<Rightarrow> ('w, gerr, 'a list) act" where
  "find_all scan Conn sql = find_all_tx scan Conn sql"

definition find_one :: "('r \<Rightarrow> gerr + 'a) \<Rightarrow> ('w, 'q, 'r) queryable \<Rightarrow> 'q \<Rightarrow> ('w, gerr, 'a) act" where
  "find_one scan Conn sql = find_one_tx scan Conn sql"

definition find_exactly_one :: "('r \<Rightarrow> gerr + 'a) \<Rightarrow> ('w, 'q, 'r) queryable \<Rightarrow> 'q \<Rightarrow> ('w, gerr, 'a) act" where
  "find_exactly_one scan Conn sql = find_exactly_one_tx scan Conn sql"

definition insert_row :: "('r \<Rightarrow> gerr + 'a) \<Rightarrow> ('w, 'q, 'r) queryable \<Rightarrow> 'q \<Rightarrow> ('w, gerr, 'a) act" where
  "insert_row scan Conn ins = insert_tx scan Conn ins"

definition update_rows :: "('q \<Rightarrow> string) \<Rightarrow> ('w, 'q, 'r) queryable \<Rightarrow> 'q \<Rightarrow> ('w, gerr, int) act" where
  "update_rows build Conn upd = update_tx build Conn upd"

definition delete_rows :: "('q \<Rightarrow> string) \<Rightarrow> ('w, 'q, 'r) queryable \<Rightarrow> 'q \<Rightarrow> ('w, gerr, int) act" where
  "delete_rows build Conn del = delete_tx build Conn del"

text \<open>
  A mutation over the pool is durable: when it reports an error the statement may have run all the
  same, and nothing undoes it - unlike the same mutation inside \<open>in_tx\<close>.
\<close>

lemma unacknowledged_delete_stays:
  assumes "fate w (calls w) = Unacked m"
  shows "\<exists>w'. delete_rows build (conn lower) (DeleteAttempts key) w = (Inl (External m), w') \<and>
    throttle_attempts (tables w') = filter (\<lambda>a. a_key a \<noteq> key) (throttle_attempts (tables w))"
  using assms by (simp add: delete_rows_def delete_tx_def pg_exec_def next_call_eq bindE_def tick_def)

end
