(* ===== verification/Logging_Trace.thy ===== *)
theory Logging_Trace
  imports Logging Prelude
begin

text \<open>
  \<open>logging/trace.go\<close> and \<open>logging/logging.go\<close>: the handler that stamps log records with the trace they
  belong to, and the process-wide manager.  The handler it wraps is the one of \<open>charmbracelet/log\<close>,
  which is not in the repository: its type \<open>'h\<close>, its methods and the constructor \<open>charm\<close> (a device and a
  level, as \<open>Manager.Logger\<close> sets them) are parameters without any assumption.
\<close>

subsection \<open>trace.go\<close>

datatype span_context = NoSpan | Span string string

record log_record =
  lr_level :: level
  lr_message :: string
  lr_attrs :: "(string \<times> string) list"

text \<open>The methods of \<open>slog.Handler\<close>, for a handler that writes to \<open>'o\<close>.\<close>

record ('h, 'o) methods =
  Enabled :: "'h \<Rightarrow> level \<Rightarrow> bool"
  Handle :: "'h \<Rightarrow> span_context \<Rightarrow> log_record \<Rightarrow> ('o, gerr, unit) act"
  WithAttrs :: "'h \<Rightarrow> (string \<times> string) list \<Rightarrow> 'h"
  WithGroup :: "'h \<Rightarrow> string \<Rightarrow> 'h"

definition stamp :: "span_context \<Rightarrow> log_record \<Rightarrow> log_record" where
  "stamp sc r = (case sc of NoSpan \<Rightarrow> r | Span t s \<Rightarrow> r\<lparr>lr_attrs := lr_attrs r @ [(''trace_id'', t), (''span_id'', s)]\<rparr>)"

datatype 'h trace_handler = TraceHandler (inner: 'h)

definition trace_handle ::
  "('h, 'o) methods \<Rightarrow> 'h trace_handler \<Rightarrow> span_context \<Rightarrow> log_record \<Rightarrow> ('o, gerr, unit) act" where
  "trace_handle H h sc r = wrapE (errorf ''handling log record: '') (Handle H (inner h) sc (stamp sc r))"

definition trace_with_attrs :: "('h, 'o) methods \<Rightarrow> 'h trace_handler \<Rightarrow> (string \<times> string) list \<Rightarrow> 'h trace_handler" where
  "trace_with_attrs H h attrs = TraceHandler (WithAttrs H (inner h) attrs)"

definition trace_with_group :: "('h, 'o) methods \<Rightarrow> 'h trace_handler \<Rightarrow> string \<Rightarrow> 'h trace_handler" where
  "trace_with_group H h name = TraceHandler (WithGroup H (inner h) name)"

text \<open>The wrapper's methods; \<open>Enabled\<close> is promoted from the embedded handler.\<close>

definition trace_methods :: "('h, 'o) methods \<Rightarrow> ('h trace_handler, 'o) methods" where
  "trace_methods H = \<lparr>Enabled = (\<lambda>h. Enabled H (inner h)), Handle = trace_handle H,
     WithAttrs = trace_with_attrs H, WithGroup = trace_with_group H\<rparr>"

subsection \<open>Loggers\<close>

text \<open>
  \<open>slog.Logger\<close> of the standard library: \<open>With\<close> and \<open>WithGroup\<close> derive a logger from a logger, and a
  call asks \<open>Enabled\<close> first and drops the handler's error.
\<close>

datatype derivation = With "(string \<times> string) list" | In_Group string

fun derive :: "('h, 'o) methods \<Rightarrow> derivation list \<Rightarrow> 'h \<Rightarrow> 'h" where
  "derive H [] h = h"
| "derive H (With attrs # ds) h = derive H ds (if attrs = [] then h else WithAttrs H h attrs)"
| "derive H (In_Group name # ds) h = derive H ds (if name = [] then h else WithGroup H h name)"

definition slog_log :: "('h, 'o) methods \<Rightarrow> 'h \<Rightarrow> span_context \<Rightarrow> log_record \<Rightarrow> 'o \<Rightarrow> 'o" where
  "slog_log H h sc r out = (if Enabled H h (lr_level r) then snd (Handle H h sc r out) else out)"

subsection \<open>logging.go\<close>

text \<open>The process-wide manager: \<open>init\<close> panics (\<open>None\<close>) if its settings do not parse.\<close>

definition logging_init :: "(nat \<Rightarrow> nat) \<Rightarrow> Manager option" where
  "logging_init uu = (case new_manager uu ''_all'' ''INFO'' of Inl e \<Rightarrow> None | Inr lm \<Rightarrow> Some lm)"

definition configure_loggers :: "(nat \<Rightarrow> nat) \<Rightarrow> string \<Rightarrow> string \<Rightarrow> (Manager, gerr, unit) act" where
  "configure_loggers uu settings default_level =
     bindE (manager_configure uu settings default_level) (\<lambda>u. ret u)"

definition named_logger :: "(handler \<Rightarrow> 'h) \<Rightarrow> string \<Rightarrow> Manager \<Rightarrow> 'h trace_handler option \<times> Manager" where
  "named_logger charm name lm =
     (case manager_logger name lm of (h, lm') \<Rightarrow> (map_option (\<lambda>h. TraceHandler (charm h)) h, lm'))"

lemma logging_init_ok:
  "\<exists>lm. logging_init uu = Some lm \<and> manager_inv lm \<and> defaultLevel (config lm) = InfoLevel \<and> includeAll (config lm) \<and>
     config lm = \<lparr>lc_value = ''_all'', defaultLevel = InfoLevel, includeAll = True,
       lc_include = Map.empty, lc_level = Map.empty, lc_exclude = Map.empty\<rparr>"
proof -
  have c: "new_config uu ''_all'' ''INFO'' = Inr \<lparr>lc_value = ''_all'', defaultLevel = InfoLevel, includeAll = True,
     lc_include = Map.empty, lc_level = Map.empty, lc_exclude = Map.empty\<rparr>"
    by (simp add: new_config_def apply_tag_def sample_trims parse_log_level_def Let_def to_upper_def ascii_def
        ascii_upper_def chr_eval)
  then have n: "\<exists>lm. new_manager uu ''_all'' ''INFO'' = Inr lm \<and> config lm = \<lparr>lc_value = ''_all'', defaultLevel = InfoLevel, includeAll = True,
     lc_include = Map.empty, lc_level = Map.empty, lc_exclude = Map.empty\<rparr>"
    by (simp add: new_manager_def)
  then show ?thesis using new_manager_inv by (fastforce simp: logging_init_def)
qed

lemma manager_logger_handler:
  "manager_inv lm \<Longrightarrow> fst (manager_logger name lm) = Some (handler_for (config lm) name)"
  by (auto simp: manager_logger_def manager_inv_def handler_for_def Let_def)

lemma trace_methods_derive:
  "WithAttrs (trace_methods H) (TraceHandler h) attrs = TraceHandler (WithAttrs H h attrs)"
  "WithGroup (trace_methods H) (TraceHandler h) name = TraceHandler (WithGroup H h name)"
  by (simp_all add: trace_methods_def trace_with_attrs_def trace_with_group_def)

lemma derive_traced: "derive (trace_methods H) ds (TraceHandler h) = TraceHandler (derive H ds h)"
  by (induction H ds h rule: derive.induct) (simp_all add: trace_methods_derive split: if_splits)


text \<open>A handler that keeps what it is asked to write, with the attributes it was derived with.\<close>

definition keeping :: "((string \<times> string) list, log_record list) methods" where
  "keeping = \<lparr>Enabled = (\<lambda>h l. True), Handle = (\<lambda>h sc r. modify (\<lambda>out. out @ [r\<lparr>lr_attrs := h @ lr_attrs r\<rparr>])),
     WithAttrs = (\<lambda>h attrs. h @ attrs), WithGroup = (\<lambda>h name. h)\<rparr>"


end
