(* ===== verification/Webtest.thy ===== *)
theory Webtest
  imports Boot Secure Web_Auth
begin

text \<open>
  The integration harness \<open>webtest\<close> and \<open>dev\<close>: the test database of a package (cloned from the
  template, dropped at the end), the wired server of a test process, and the client with its cookies.
  The admin connection answers its n-th statement as \<open>answer n\<close> says; \<open>sanitize\<close> is pgx's quoting of an
  identifier.
\<close>

subsection \<open>The test database\<close>

datatype test_step = Connected | Statement string | Sleep | PoolClosed | TestsRun

record harness =
  steps :: "test_step list"
  answers :: "nat \<Rightarrow> gerr option"
  statements :: nat
  logged :: "string list"

type_synonym 'a harness_act = "(harness, gerr, 'a) act"

definition ask :: "test_step \<Rightarrow> unit harness_act" where
  "ask st = (\<lambda>h.
     let h' = h\<lparr>steps := steps h @ [st], statements := Suc (statements h)\<rparr> in
     case answers h (statements h) of None \<Rightarrow> (Inr (), h') | Some e \<Rightarrow> (Inl e, h'))"

definition drop_sql :: "(string \<Rightarrow> string) \<Rightarrow> string \<Rightarrow> string" where
  "drop_sql sanitize name = ''DROP DATABASE IF EXISTS '' @ sanitize name"

definition clone_sql :: "(string \<Rightarrow> string) \<Rightarrow> string \<Rightarrow> string \<Rightarrow> string" where
  "clone_sql sanitize name template_db = ''CREATE DATABASE '' @ sanitize name @ '' TEMPLATE '' @ sanitize template_db"

definition last_attempt :: nat where
  "last_attempt = 20"

definition clone_error :: "string \<Rightarrow> string \<Rightarrow> gerr \<Rightarrow> gerr" where
  "clone_error name template_db err =
     (if contains (err_text err) ''does not exist''
      then errorf (''template database '' @ template_db @ '' missing '' @ em_dash @ '' run bin/testdb first: '') err
      else errorf (''creating test db '' @ name @ '' from template: '') err)"

function clone_loop :: "(string \<Rightarrow> string) \<Rightarrow> string \<Rightarrow> string \<Rightarrow> nat \<Rightarrow> unit harness_act" where
  "clone_loop sanitize name template_db attempt_no h =
     (case ask (Statement (clone_sql sanitize name template_db)) h of
        (Inr _, h') \<Rightarrow> (Inr (), h')
      | (Inl err, h') \<Rightarrow>
          (if attempt_no \<ge> last_attempt then (Inl (clone_error name template_db err), h')
           else clone_loop sanitize name template_db (Suc attempt_no) (h'\<lparr>steps := steps h' @ [Sleep]\<rparr>)))"
  by pat_completeness auto
termination
  by (relation "measure (\<lambda>(_, _, _, attempt_no, _). Suc last_attempt - attempt_no)") auto

declare clone_loop.simps [simp del]

definition create_test_db :: "(string \<Rightarrow> string) \<Rightarrow> string \<Rightarrow> string \<Rightarrow> unit harness_act" where
  "create_test_db sanitize name template_db =
     bindE (wrapE (errorf ''connecting to admin db: '') (ask Connected)) (\<lambda>_.
     bindE (wrapE (errorf (''dropping stale test db '' @ name @ '': '')) (ask (Statement (drop_sql sanitize name)))) (\<lambda>_.
     clone_loop sanitize name template_db 0))"

definition drop_test_db :: "(string \<Rightarrow> string) \<Rightarrow> string \<Rightarrow> harness \<Rightarrow> harness" where
  "drop_test_db sanitize name h =
     (case ask Connected h of
        (Inl e, h1) \<Rightarrow> h1\<lparr>logged := logged h1 @ [''could not connect to drop test db'']\<rparr>
      | (Inr _, h1) \<Rightarrow>
          (case ask (Statement (drop_sql sanitize name)) h1 of
             (Inl e, h2) \<Rightarrow> h2\<lparr>logged := logged h2 @ [''could not drop test db'']\<rparr>
           | (Inr _, h2) \<Rightarrow> h2))"

subsection \<open>A test process\<close>

record dev_state =
  dev_on :: bool
  color_forced :: bool

definition DevMode :: "dev_state \<Rightarrow> dev_state" where
  "DevMode d = d\<lparr>dev_on := True, color_forced := True\<rparr>"

text \<open>\<open>dev.PP\<close>: \<open>marshal\<close> is \<open>json.MarshalIndent\<close>; without a result the call panics.\<close>

datatype 'v pretty = Untouched 'v | Pretty string

definition PP :: "('v \<Rightarrow> string option) \<Rightarrow> dev_state \<Rightarrow> 'v \<Rightarrow> 'v pretty option" where
  "PP marshal d v = (if \<not> dev_on d then Some (Untouched v) else map_option Pretty (marshal v))"

definition test_db_name :: "string \<Rightarrow> nat \<Rightarrow> string" where
  "test_db_name project pid = project @ ''_test_'' @ itoa (int pid)"

text \<open>
  \<open>run\<close> of the harness: \<open>m\<close> is \<open>m.Run()\<close>, the tests, which find dev mode on.  The result is the exit
  code or the error, with the harness, the process and the dev state after the deferred calls.
\<close>

definition configured_run ::
  "(nat \<Rightarrow> nat) \<Rightarrow> (dev_state \<Rightarrow> 's process \<Rightarrow> int \<times> 's process) \<Rightarrow> dev_state \<Rightarrow> 's process \<Rightarrow> harness \<Rightarrow>
   (gerr + int) \<times> harness \<times> 's process" where
  "configured_run uu m d p h =
     (let given = environ p ''TEST_LOGGING'';
          settings = (if given = [] then ''_all:warn'' else given) in
      case logging_configure uu settings [] p of
        (Inl err, p1) \<Rightarrow> (Inl (errorf ''configuring logging: '' err), h, p1)
      | (Inr _, p1) \<Rightarrow> (case m d p1 of (code, p2) \<Rightarrow> (Inr code, h\<lparr>steps := steps h @ [TestsRun]\<rparr>, p2)))"

definition test_run ::
  "(nat \<Rightarrow> nat) \<Rightarrow> (string \<Rightarrow> string) \<Rightarrow> string \<Rightarrow> string \<Rightarrow> nat \<Rightarrow> (dev_state \<Rightarrow> 's process \<Rightarrow> int \<times> 's process) \<Rightarrow>
   dev_state \<Rightarrow> 's process \<Rightarrow> harness \<Rightarrow> (gerr + int) \<times> harness \<times> 's process" where
  "test_run uu sanitize project template_db pid m d p h =
     (let name = test_db_name project pid in
      case create_test_db sanitize name template_db h of
        (Inl err, h1) \<Rightarrow> (Inl err, h1, p)
      | (Inr _, h1) \<Rightarrow>
          (case db_configure p of
             (Inl err, p1) \<Rightarrow> (Inl (errorf (''configuring db '' @ name @ '': '') err), drop_test_db sanitize name h1, p1)
           | (Inr _, p1) \<Rightarrow>
               (case configured_run uu m (DevMode d) p1 h1 of (r, h2, p2) \<Rightarrow>
                  (r, drop_test_db sanitize name (h2\<lparr>steps := steps h2 @ [PoolClosed]\<rparr>), snd (db_close p2)))))"

definition test_main :: "(gerr + int) \<times> 'x \<Rightarrow> int" where
  "test_main out = (case fst out of Inl err \<Rightarrow> 1 | Inr code \<Rightarrow> code)"

subsection \<open>The wired server\<close>

definition TestBaseURL :: string where
  "TestBaseURL = ''http://test.localhost''"

text \<open>
  \<open>Server\<close> builds a router each time; what it configures first is behind \<open>sync.Once\<close>, whose flag is
  set even when the configuration panics (\<open>None\<close>).
\<close>

definition test_server :: "bool \<times> 's process \<Rightarrow> mux option \<times> bool \<times> 's process" where
  "test_server st =
     (case st of (configured, p) \<Rightarrow>
        case (if configured then ret () else bindE (web_setup Test) (\<lambda>_. jobs_configure TestBaseURL)) p of
          (Inl err, p') \<Rightarrow> (None, True, p')
        | (Inr _, p') \<Rightarrow>
            (case new_router ''public'' p' of
               (Inl err, p'') \<Rightarrow> (None, True, p'')
             | (Inr _, p'') \<Rightarrow> (echo_mux p'', True, p'')))"

subsection \<open>The client\<close>

record set_cookie =
  sc_name :: string
  sc_value :: string
  sc_max_age :: int

type_synonym jar = "string \<rightharpoonup> string"

fun store_cookies :: "set_cookie list \<Rightarrow> jar \<Rightarrow> jar" where
  "store_cookies [] jar = jar"
| "store_cookies (c # cs) jar =
     store_cookies cs (if sc_max_age c < 0 then jar(sc_name c := None) else jar(sc_name c \<mapsto> sc_value c))"

definition client_headers :: "bool \<Rightarrow> (string \<rightharpoonup> string) \<Rightarrow> (string \<rightharpoonup> string)" where
  "client_headers has_form given k =
     (case given k of
        Some v \<Rightarrow> if v = [] then None else Some v
      | None \<Rightarrow>
          if k = ''Sec-Fetch-Site'' then Some ''same-origin''
          else if k = ''Content-Type'' \<and> has_form then Some ''application/x-www-form-urlencoded'' else None)"

text \<open>One round trip: \<open>app\<close> answers a request of headers and cookies with its \<open>Set-Cookie\<close>s.\<close>

definition client_do :: "((string \<rightharpoonup> string) \<Rightarrow> jar \<Rightarrow> 'r \<times> set_cookie list) \<Rightarrow> bool \<Rightarrow> (string \<rightharpoonup> string) \<Rightarrow> jar \<Rightarrow> 'r \<times> jar" where
  "client_do answer_request has_form given cookies =
     (case answer_request (client_headers has_form given) cookies of (r, cs) \<Rightarrow> (r, store_cookies cs cookies))"

definition client_get :: "((string \<rightharpoonup> string) \<Rightarrow> jar \<Rightarrow> 'r \<times> set_cookie list) \<Rightarrow> jar \<Rightarrow> 'r \<times> jar" where
  "client_get answer_request cookies = client_do answer_request False Map.empty cookies"

definition client_post_form :: "((string \<rightharpoonup> string) \<Rightarrow> jar \<Rightarrow> 'r \<times> set_cookie list) \<Rightarrow> jar \<Rightarrow> 'r \<times> jar" where
  "client_post_form answer_request cookies = client_do answer_request True Map.empty cookies"

subsection \<open>Paths\<close>

record path_state =
  URI :: string
  path_params :: "string \<rightharpoonup> string"

definition Path_of :: "string list \<Rightarrow> path_state" where
  "Path_of fragments = \<lparr>URI = ''/'' @ join ''/'' fragments, path_params = Map.empty\<rparr>"

definition path_param :: "string \<Rightarrow> string \<Rightarrow> path_state \<Rightarrow> path_state" where
  "path_param key v ps = ps\<lparr>path_params := (path_params ps)(key \<mapsto> v)\<rparr>"

definition set_query :: "string \<Rightarrow> path_state \<Rightarrow> path_state" where
  "set_query encoded ps = ps\<lparr>URI := URI ps @ ''?'' @ encoded\<rparr>"

subsection \<open>A handler called directly\<close>

text \<open>
  \<open>Request\<close>: \<open>marshal\<close> and \<open>unmarshal\<close> are \<open>encoding/json\<close>'s, with the error's text.  \<open>Fatal\<close> and
  \<open>Returned\<close> carry the failures reported on the test so far; the first ends the test.
\<close>

datatype 't test_outcome = Fatal "string list" | Returned "string list" 't

record 'b app_request =
  ar_state :: path_state
  ar_method :: string
  ar_body :: "'b option"
  ResponseCode :: nat

type_synonym direct_handler = "string \<times> string \<times> string option \<times> (string \<rightharpoonup> string) \<Rightarrow> gerr option \<times> nat \<times> string"

definition wrong_code :: "nat \<Rightarrow> nat \<Rightarrow> string \<Rightarrow> string" where
  "wrong_code want got text =
     ''Looking for status code '' @ itoa (int want) @ '', got '' @ itoa (int got) @ '', with response: \"'' @ text @ ''\"''"

definition Request_of :: "('b \<Rightarrow> string + string) \<Rightarrow> (string \<Rightarrow> string + 't) \<Rightarrow> direct_handler \<Rightarrow> 'b app_request \<Rightarrow> 't test_outcome" where
  "Request_of marshal unmarshal h ar =
     (case (case ar_body ar of None \<Rightarrow> Inr None | Some b \<Rightarrow> map_sum id Some (marshal b)) of
        Inl e \<Rightarrow> Fatal [''Failed to marshal request body: '' @ e]
      | Inr payload \<Rightarrow>
          (case h (ar_method ar, URI (ar_state ar), payload, path_params (ar_state ar)) of (err, code, text) \<Rightarrow>
             let failed = (case err of None \<Rightarrow> []
               | Some e \<Rightarrow> [''handler for '' @ URI (ar_state ar) @ '' failed: '' @ err_text e]) in
             if code \<noteq> ResponseCode ar then Fatal (failed @ [wrong_code (ResponseCode ar) code text])
             else (case unmarshal text of
                 Inl e \<Rightarrow> Fatal (failed @ [''Failed to unmarshal response: '' @ e])
               | Inr v \<Rightarrow> Returned failed v)))"

lemma Request_of_clean:
  "Request_of marshal unmarshal h ar = Returned [] v \<Longrightarrow>
   \<exists>payload text. h (ar_method ar, URI (ar_state ar), payload, path_params (ar_state ar)) = (None, ResponseCode ar, text) \<and>
     unmarshal text = Inr v \<and> (case ar_body ar of None \<Rightarrow> payload = None | Some b \<Rightarrow> map_sum id Some (marshal b) = Inr payload)"
  by (auto simp: Request_of_def Let_def split: option.splits sum.splits prod.splits if_splits)

lemma Request_of_reports_error:
  assumes "\<And>x. fst (h x) \<noteq> None"
  shows "Request_of marshal unmarshal h ar \<noteq> Returned [] v"
  using Request_of_clean[of marshal unmarshal h ar v] assms by (metis fst_conv)

subsection \<open>The retries end\<close>

lemma ask_run: "ask st h = (case answers h (statements h) of None \<Rightarrow> Inr () | Some e \<Rightarrow> Inl e,
    h\<lparr>steps := steps h @ [st], statements := Suc (statements h)\<rparr>)"
  by (simp add: ask_def Let_def split: option.split)

lemma ask_fields: "ask st h = (r, h') \<Longrightarrow> steps h' = steps h @ [st] \<and> answers h' = answers h \<and>
    statements h' = Suc (statements h) \<and> logged h' = logged h \<and>
    r = (case answers h (statements h) of None \<Rightarrow> Inr () | Some e \<Rightarrow> Inl e)"
  by (auto simp: ask_run)

lemma clone_loop_run:
  assumes "clone_loop sanitize name tdb a h = (r, h')" and "a \<le> last_attempt"
  shows "\<exists>k \<le> last_attempt - a. let st = Statement (clone_sql sanitize name tdb) in
    steps h' = steps h @ concat (replicate k [st, Sleep]) @ [st] \<and> answers h' = answers h \<and> logged h' = logged h \<and>
    statements h' = statements h + Suc k \<and> (\<forall>j < k. answers h (statements h + j) \<noteq> None) \<and>
    (case answers h (statements h + k) of
       None \<Rightarrow> r = Inr ()
     | Some err \<Rightarrow> r = Inl (clone_error name tdb err) \<and> k = last_attempt - a)"
  using assms
proof (induction sanitize name tdb a h arbitrary: r h' rule: clone_loop.induct)
  case (1 sanitize name tdb a h)
  let ?st = "Statement (clone_sql sanitize name tdb)"
  let ?h1 = "h\<lparr>steps := steps h @ [?st], statements := Suc (statements h)\<rparr>"
  show ?case
  proof (cases "answers h (statements h)")
    case None
    with 1(2) show ?thesis by (intro exI[of _ 0]) (auto simp: clone_loop.simps[of _ _ _ a] ask_run Let_def)
  next
    case (Some err)
    then have ask: "ask ?st h = (Inl err, ?h1)" by (simp add: ask_run)
    show ?thesis
    proof (cases "last_attempt \<le> a")
      case True
      with 1(2,3) Some show ?thesis by (intro exI[of _ 0]) (auto simp: clone_loop.simps[of _ _ _ a] ask_run Let_def)
    next
      case False
      let ?h2 = "?h1\<lparr>steps := steps ?h1 @ [Sleep]\<rparr>"
      have run: "clone_loop sanitize name tdb (Suc a) ?h2 = (r, h')"
        using 1(2) ask False by (simp add: clone_loop.simps[of _ _ _ a])
      from 1(1)[OF ask[symmetric] refl False run] False obtain k where k: "k \<le> last_attempt - Suc a"
        "steps h' = steps h @ concat (replicate (Suc k) [?st, Sleep]) @ [?st]" "answers h' = answers h" "logged h' = logged h"
        "statements h' = statements h + Suc (Suc k)" "\<forall>j < k. answers h (Suc (statements h) + j) \<noteq> None"
        "case answers h (Suc (statements h) + k) of None \<Rightarrow> r = Inr ()
          | Some err \<Rightarrow> r = Inl (clone_error name tdb err) \<and> k = last_attempt - Suc a"
        by (auto simp: Let_def)
      have "\<forall>j < Suc k. answers h (statements h + j) \<noteq> None"
        using k(6) Some by (metis add_Suc_shift less_Suc_eq_0_disj option.distinct(1) add_0_right)
      with k False show ?thesis
        by (intro exI[of _ "Suc k"]) (auto simp: Let_def split: option.splits)
    qed
  qed
qed

text \<open>
  Cloning the template always comes to an end: at most twenty-one attempts, a pause before each but the
  first.  It succeeds at the first attempt that works; if none does, the error is the last one's, which
  names the missing template if that is what it says.
\<close>

theorem clone_retries_bounded:
  assumes "create_test_db sanitize name tdb h = (r, h')"
    and "answers h (statements h) = None" and "answers h (Suc (statements h)) = None"
  shows "\<exists>k \<le> 20. let n = statements h + 2 in
    length (filter (\<lambda>st. st = Sleep) (steps h')) = length (filter (\<lambda>st. st = Sleep) (steps h)) + k \<and>
    (\<forall>j < k. answers h (n + j) \<noteq> None) \<and>
    (r = Inr () \<longleftrightarrow> answers h (n + k) = None) \<and>
    (\<forall>e. r = Inl e \<longrightarrow> k = 20 \<and> (\<exists>err. answers h (n + 20) = Some err \<and> e = clone_error name tdb err))"
proof -
  let ?h2 = "h\<lparr>steps := steps h @ [Connected, Statement (drop_sql sanitize name)], statements := statements h + 2\<rparr>"
  have "clone_loop sanitize name tdb 0 ?h2 = (r, h')"
    using assms by (simp add: create_test_db_def bindE_def wrapE_def ask_run)
  from clone_loop_run[OF this] obtain k where run: "k \<le> last_attempt - 0"
    "steps h' = steps ?h2 @ concat (replicate k [Statement (clone_sql sanitize name tdb), Sleep]) @ [Statement (clone_sql sanitize name tdb)]"
    "\<forall>j < k. answers ?h2 (statements ?h2 + j) \<noteq> None"
    "case answers ?h2 (statements ?h2 + k) of None \<Rightarrow> r = Inr ()
      | Some err \<Rightarrow> r = Inl (clone_error name tdb err) \<and> k = last_attempt - 0"
    unfolding Let_def by blast
  from run(1,3,4) have k: "k \<le> 20" "\<forall>j < k. answers h (statements h + 2 + j) \<noteq> None"
    "case answers h (statements h + 2 + k) of None \<Rightarrow> r = Inr ()
      | Some err \<Rightarrow> r = Inl (clone_error name tdb err) \<and> k = 20"
    by (simp_all add: last_attempt_def split: option.splits)
  have "length (filter (\<lambda>st. st = Sleep) (concat (replicate k [Statement q, Sleep]))) = k" for q
    by (induction k) simp_all
  with run(2) k show ?thesis by (intro exI[of _ k]) (auto simp: Let_def split: option.splits)
qed

text \<open>
  Once the test database exists, the last thing the process does is to connect and ask for it to
  be dropped, whether db.Configure or the logging settings failed or the tests ran, and after the pool
  is closed; only when that connection fails is it left behind, which is logged.  The tests run exactly
  if the harness has no error to report.
\<close>

theorem test_database_dropped:
  assumes "test_run uu sanitize project tdb pid m d p h = (r, h', p')"
    and "create_test_db sanitize (test_db_name project pid) tdb h = (Inr (), h1)" and "Conn p = NoPool"
  shows "\<exists>mid cleanup. steps h' = steps h1 @ mid @ cleanup \<and> mid \<in> {[], [PoolClosed], [TestsRun, PoolClosed]} \<and>
    (cleanup = [Connected, Statement (drop_sql sanitize (test_db_name project pid))] \<or>
     cleanup = [Connected] \<and> logged h' = logged h1 @ [''could not connect to drop test db'']) \<and>
    (isl r \<longleftrightarrow> TestsRun \<notin> set mid) \<and> Conn p' \<noteq> Open"
proof -
  let ?name = "test_db_name project pid"
  have drop: "\<exists>cleanup. steps (drop_test_db sanitize ?name g) = steps g @ cleanup \<and>
     (cleanup = [Connected, Statement (drop_sql sanitize ?name)] \<or>
      cleanup = [Connected] \<and> logged (drop_test_db sanitize ?name g) = logged g @ [''could not connect to drop test db''])" for g
    by (auto simp: drop_test_db_def ask_run split: option.split)
  show ?thesis
  proof (cases "db_configure p")
    case (Pair v p1)
    show ?thesis
    proof (cases v)
      case (Inl err)
      with Pair assms have e: "h' = drop_test_db sanitize ?name h1" "isl r" "p' = p1"
        by (auto simp: test_run_def Let_def)
      have "Conn p1 \<noteq> Open" using Pair Inl assms(3)
        by (auto simp: db_configure_def bindE_eq_Inl wrapE_eq_Inl ext_call_run)
      moreover obtain cleanup where "steps h' = steps h1 @ cleanup"
        "cleanup = [Connected, Statement (drop_sql sanitize ?name)] \<or>
         cleanup = [Connected] \<and> logged h' = logged h1 @ [''could not connect to drop test db'']"
        using drop[of h1] e(1) by blast
      ultimately show ?thesis using e by (intro exI[of _ "[]"] exI[of _ cleanup]) simp
    next
      case (Inr u)
      obtain r2 h2 p2 where c: "configured_run uu m (DevMode d) p1 h1 = (r2, h2, p2)" by (metis surj_pair)
      with Pair Inr assms have e: "r = r2" "h' = drop_test_db sanitize ?name (h2\<lparr>steps := steps h2 @ [PoolClosed]\<rparr>)"
        "Conn p' = Closed" by (auto simp: test_run_def Let_def db_close_def)
      have h2: "logged h2 = logged h1" "isl r2 \<and> steps h2 = steps h1 \<or> \<not> isl r2 \<and> steps h2 = steps h1 @ [TestsRun]"
        using c by (auto simp: configured_run_def Let_def split: prod.splits sum.splits)
      obtain cleanup where c: "steps h' = steps h2 @ [PoolClosed] @ cleanup"
        "cleanup = [Connected, Statement (drop_sql sanitize ?name)] \<or>
         cleanup = [Connected] \<and> logged h' = logged h2 @ [''could not connect to drop test db'']"
        using drop[of "h2\<lparr>steps := steps h2 @ [PoolClosed]\<rparr>"] e(2) by auto
      with h2 e show ?thesis
        by (intro exI[of _ "if isl r2 then [PoolClosed] else [TestsRun, PoolClosed]"] exI[of _ cleanup]) auto
    qed
  qed
qed

definition idle_harness :: "(nat \<Rightarrow> gerr option) \<Rightarrow> harness" where
  "idle_harness answer = \<lparr>steps = [], answers = answer, statements = 0, logged = []\<rparr>"

definition being_accessed :: gerr where
  "being_accessed = PgError ''55006'' ''source database is being accessed by other users''"

definition busy_once :: harness where
  "busy_once = idle_harness (\<lambda>n. if n = 2 then Some being_accessed else None)"

lemma clone_retries_bounded_witness:
  "(case create_test_db id ''app_test_7'' ''app_template'' busy_once of (r, h') \<Rightarrow>
     r = Inr () \<and> length (filter (\<lambda>st. st = Sleep) (steps h')) = 1)"
proof -
  obtain r h' where run: "create_test_db id ''app_test_7'' ''app_template'' busy_once = (r, h')" by (metis surj_pair)
  have b: "answers busy_once n = (if n = 2 then Some being_accessed else None)" "statements busy_once = 0" "steps busy_once = []" for n
    by (simp_all add: busy_once_def idle_harness_def)
  from clone_retries_bounded[OF run] obtain k where k: "k \<le> 20" "length (filter (\<lambda>st. st = Sleep) (steps h')) = k"
    "\<forall>j < k. answers busy_once (2 + j) \<noteq> None" "r = Inr () \<longleftrightarrow> answers busy_once (2 + k) = None"
    "\<forall>e. r = Inl e \<longrightarrow> k = 20" by (auto simp: b Let_def)
  have "\<not> 1 < k" using k(3) by (auto simp: b)
  moreover have "k \<noteq> 0" using k(4,5) by (cases r; cases k; simp add: b)
  ultimately have one: "k = 1" by simp
  from k(2,4) run show ?thesis by (simp add: one b)
qed

definition harness_demo :: "(gerr + int) \<times> harness \<times> mem_session process" where
  "harness_demo = test_run id id ''app'' ''app_template'' 7 (\<lambda>d p. (0, p)) \<lparr>dev_on = False, color_forced = False\<rparr>
     (demo_process demo_app demo_world) (idle_harness (\<lambda>_. None))"

lemma test_database_dropped_witness:
  "(case harness_demo of (r, h', p') \<Rightarrow>
     Connected \<in> set (drop 3 (steps h')) \<and> Conn p' \<noteq> Open \<and>
     create_test_db id ''app_test_7'' ''app_template'' (idle_harness (\<lambda>_. None)) = (Inr (), idle_harness (\<lambda>_. None)\<lparr>
       steps := [Connected, Statement (drop_sql id ''app_test_7''), Statement (clone_sql id ''app_test_7'' ''app_template'')],
       statements := 3\<rparr>))"
proof -
  let ?h = "idle_harness (\<lambda>_. None)"
  obtain r h' p' where run: "harness_demo = (r, h', p')" by (metis surj_pair)
  let ?h1 = "?h\<lparr>steps := [Connected, Statement (drop_sql id ''app_test_7''), Statement (clone_sql id ''app_test_7'' ''app_template'')],
       statements := 3\<rparr>"
  have up: "create_test_db id ''app_test_7'' ''app_template'' ?h = (Inr (), ?h1)"
    by (simp add: create_test_db_def bindE_def wrapE_def ask_run clone_loop.simps idle_harness_def)
  have name: "test_db_name ''app'' 7 = ''app_test_7''" by (simp add: test_db_name_def itoa_def itoa_nat.simps) code_simp
  from test_database_dropped[OF run[unfolded harness_demo_def], unfolded name, OF up]
  have "Connected \<in> set (drop 3 (steps h')) \<and> Conn p' \<noteq> Open" by (auto simp: demo_process_def)
  with up show ?thesis unfolding run prod.case by blast
qed

subsection \<open>The server of the harness\<close>

text \<open>
  The web package is configured once; the jobs client is made but never started.  After a first call
  that panicked, later calls return a server as if the client existed.
\<close>

abbreviation test_mux :: mux where
  "test_mux \<equiv> \<lparr>mux_public = ''public'', mux_mounts = []\<rparr>"

lemma web_setup_run:
  obtains p1 c where "web_setup e p = (Inr (), p1)" "events p1 = events p" "Client p1 = Client p" "cookie p1 = Some c"
  by (cases "web_configure e (webapp p)") (simp add: web_setup_def)

lemma new_router_run: "cookie p = Some c \<Longrightarrow>
  new_router d p = (Inr (), p\<lparr>echo_mux := Some \<lparr>mux_public = d, mux_mounts = []\<rparr>\<rparr>)"
  by (simp add: new_router_def bindE_def)

lemma test_server_first:
  obtains w p1 c where "events p1 = events p" "Client p1 = Client p" "cookie p1 = Some c"
    "test_server (False, p) = (None, True, called NewRiver w p1)"
  | w p1 c where "events p1 = events p" "Client p1 = Client p" "cookie p1 = Some c"
    "test_server (False, p) = (Some test_mux, True,
       (called NewRiver w p1)\<lparr>Client := Some TestBaseURL, echo_mux := Some test_mux\<rparr>)"
proof -
  obtain p1 c where p1: "web_setup Test p = (Inr (), p1)" "events p1 = events p" "Client p1 = Client p" "cookie p1 = Some c"
    by (rule web_setup_run)
  obtain r w where e: "external_call id (pworld p1) = (r, w)" by (metis surj_pair)
  show thesis
  proof (cases r)
    case (Inl err)
    with p1(1) e have "test_server (False, p) = (None, True, called NewRiver w p1)"
      by (simp add: test_server_def jobs_configure_def bindE_def wrapE_def ext_call_run)
    from that(1)[OF p1(2-4) this] show thesis .
  next
    case (Inr u)
    with p1(1,4) e have "test_server (False, p) = (Some test_mux, True,
        (called NewRiver w p1)\<lparr>Client := Some TestBaseURL, echo_mux := Some test_mux\<rparr>)"
      by (simp add: test_server_def jobs_configure_def bindE_def wrapE_def ext_call_run new_router_run)
    from that(2)[OF p1(2-4) this] show thesis .
  qed
qed

lemma test_server_later:
  "cookie p = Some c \<Longrightarrow> test_server (True, p) = (Some test_mux, True, p\<lparr>echo_mux := Some test_mux\<rparr>)"
  by (simp add: test_server_def new_router_run)

lemma test_server_once:
  assumes "snd (test_server (False, p)) = (b, q)"
  shows "test_server (b, q) = (Some test_mux, True, q\<lparr>echo_mux := Some test_mux\<rparr>)"
proof (rule test_server_first[of p])
qed (use assms in \<open>auto simp: test_server_later\<close>)

lemma test_server_no_worker: "set (events (snd (snd (test_server (b, p))))) \<subseteq> insert NewRiver (set (events p))"
proof (cases b)
  case True
  then show ?thesis by (simp add: test_server_def new_router_def bindE_def subset_insertI)
next
  case False
  show ?thesis by (rule test_server_first[of p]) (auto simp: False)
qed

lemma test_server_after_panic:
  "fst (test_server (False, p)) = None \<Longrightarrow> Client (snd (snd (test_server (False, p)))) = Client p"
  by (rule test_server_first[of p]) simp_all

subsection \<open>The client\<close>

lemma store_cookies_lookup:
  "store_cookies cs jar n = (case rev (filter (\<lambda>c. sc_name c = n) cs) of
     [] \<Rightarrow> jar n | c # _ \<Rightarrow> if sc_max_age c < 0 then None else Some (sc_value c))"
proof (induction cs arbitrary: jar)
  case (Cons c cs)
  show ?case by (simp add: Cons.IH split: list.split)
qed simp

text \<open>
  The client's own requests pass the same-origin gate whatever their method and path; a test that
  unsets \<open>Sec-Fetch-Site\<close> has its form posts refused, outside the Inngest endpoint.
\<close>

theorem test_client_passes_gate:
  assumes "\<And>k. Header r k = (case client_headers has_form given k of Some v \<Rightarrow> v | None \<Rightarrow> [])"
    and "given ''Origin'' = None"
  shows "(given ''Sec-Fetch-Site'' = None \<longrightarrow> same_origin_request P r) \<and>
    (given ''Sec-Fetch-Site'' = Some [] \<and> Method r = ''POST'' \<and> \<not> has_prefix (Path r) ''/api/inngest'' \<longrightarrow>
       same_origin_post P next_handler r c = fail (HTTPError 403 ''forbidden'' None) c)"
  using assms by (auto simp: same_origin_request_def same_origin_post_def client_headers_def)

definition harness_request :: "(string \<rightharpoonup> string) \<Rightarrow> request" where
  "harness_request given = demo_request\<lparr>Method := ''POST'', Path := ''/signin'',
     Header := (\<lambda>k. case client_headers True given k of Some v \<Rightarrow> v | None \<Rightarrow> [])\<rparr>"

lemma test_client_passes_gate_witness:
  "same_origin_request demo_app (harness_request Map.empty) \<and>
   same_origin_post demo_app (\<lambda>_. ret ()) (harness_request [''Sec-Fetch-Site'' \<mapsto> []]) demo_web =
     fail (HTTPError 403 ''forbidden'' None) demo_web"
proof -
  have "Header (harness_request given) k = (case client_headers True given k of Some v \<Rightarrow> v | None \<Rightarrow> [])" for given k
    by (simp add: harness_request_def)
  note gate = test_client_passes_gate[OF this]
  show ?thesis
    using gate[of Map.empty demo_app] gate[of "[''Sec-Fetch-Site'' \<mapsto> []]" demo_app "\<lambda>_. ret ()" demo_web]
    by (simp add: harness_request_def has_prefix_iff)
qed

end
