(* ===== verification/Throttle_Race.thy ===== *)
theory Throttle_Race
  imports Throttle Users
begin

text \<open>
  Sign-ins at the same time (\<open>web/handlers_auth.go\<close>, \<open>SigninSubmit\<close>).  The handler asks the throttle,
  compares the password and records the failure in separate steps, each on the pool - recording takes the two
  statements of \<open>ThrottleFailTx\<close> - so that requests for one key interleave between them.  \<open>race\<close> is
  the state of one key: the world, the requests that have passed the check, the times at which they
  passed since the key was last cleared, and how many of them ended without a recorded attempt, or
  without clearing the key, because a call failed.
\<close>

datatype flight = Comparing string string | Failed_signin | Recording | Succeeded

record race =
  race_world :: world
  flights :: "flight list"
  admitted :: "int list"
  unrecorded :: nat

definition race_start :: "world \<Rightarrow> race" where
  "race_start w = \<lparr>race_world = w, flights = [], admitted = [], unrecorded = 0\<rparr>"

text \<open>
  One step, for the key \<open>k\<close>; \<open>most\<close> bounds the requests for the key that are served at a time.  The
  check is \<open>Admit\<close> or \<open>Turned_away\<close>; the comparison \<open>Rejected\<close>, \<open>Accepted\<close> or \<open>Broke_off\<close>; then the
  old attempts are pruned and the failure is recorded, or the key is cleared.  A call that answers with an error may
  have cleared the key all the same.  Requests for other keys send whatever the throttle sends.
\<close>

inductive race_step ::
  "(string \<Rightarrow> string) \<Rightarrow> argon2id \<Rightarrow> string \<Rightarrow> string \<Rightarrow> nat \<Rightarrow> race \<Rightarrow> race \<Rightarrow> bool"
  for lower A dummy k most where
  Admit: "throttle_blocked lower k (race_world s) = (Inr False, w) \<Longrightarrow> length (flights s) < most \<Longrightarrow>
    race_step lower A dummy k most s (s\<lparr>race_world := w, flights := Comparing e p # flights s,
      admitted := db_now (race_world s) # admitted s\<rparr>)"
| Turned_away: "throttle_blocked lower k' (race_world s) = (r, w) \<Longrightarrow> k' \<noteq> k \<or> r \<noteq> Inr False \<Longrightarrow>
    race_step lower A dummy k most s (s\<lparr>race_world := w\<rparr>)"
| Rejected: "flights s = xs @ Comparing e p # ys \<Longrightarrow>
    authenticate lower A dummy e p (race_world s) = (Inl err, w) \<Longrightarrow> errors_is err ErrInvalidCredentials \<Longrightarrow>
    race_step lower A dummy k most s (s\<lparr>race_world := w, flights := xs @ Failed_signin # ys\<rparr>)"
| Broke_off: "flights s = xs @ Comparing e p # ys \<Longrightarrow>
    authenticate lower A dummy e p (race_world s) = (Inl err, w) \<Longrightarrow> \<not> errors_is err ErrInvalidCredentials \<Longrightarrow>
    race_step lower A dummy k most s (s\<lparr>race_world := w, flights := xs @ ys, unrecorded := Suc (unrecorded s)\<rparr>)"
| Accepted: "flights s = xs @ Comparing e p # ys \<Longrightarrow>
    authenticate lower A dummy e p (race_world s) = (Inr u, w) \<Longrightarrow>
    race_step lower A dummy k most s (s\<lparr>race_world := w, flights := xs @ Succeeded # ys\<rparr>)"
| Pruned: "flights s = xs @ Failed_signin # ys \<Longrightarrow>
    Exec (conn lower) (PruneAttempts throttleWindow) (race_world s) = (Inr t, w) \<Longrightarrow>
    race_step lower A dummy k most s (s\<lparr>race_world := w, flights := xs @ Recording # ys\<rparr>)"
| Recorded: "flights s = xs @ Recording # ys \<Longrightarrow> Exec (conn lower) (InsertAttempt k) (race_world s) = (Inr t, w) \<Longrightarrow>
    race_step lower A dummy k most s (s\<lparr>race_world := w, flights := xs @ ys\<rparr>)"
| Not_recorded: "flights s = xs @ f # ys \<Longrightarrow>
    f = Failed_signin \<and> Exec (conn lower) (PruneAttempts throttleWindow) (race_world s) = (Inl err, w) \<or>
    f = Recording \<and> Exec (conn lower) (InsertAttempt k) (race_world s) = (Inl err, w) \<Longrightarrow>
    race_step lower A dummy k most s (s\<lparr>race_world := w, flights := xs @ ys, unrecorded := Suc (unrecorded s)\<rparr>)"
| Cleared: "flights s = xs @ Succeeded # ys \<Longrightarrow> throttle_reset lower k (race_world s) = (r, w) \<Longrightarrow>
    r = Inr () \<or> tables w \<noteq> tables (race_world s) \<Longrightarrow>
    race_step lower A dummy k most s (s\<lparr>race_world := w, flights := xs @ ys, admitted := []\<rparr>)"
| Not_cleared: "flights s = xs @ Succeeded # ys \<Longrightarrow> throttle_reset lower k (race_world s) = (Inl err, w) \<Longrightarrow>
    tables w = tables (race_world s) \<Longrightarrow>
    race_step lower A dummy k most s (s\<lparr>race_world := w, flights := xs @ ys, unrecorded := Suc (unrecorded s)\<rparr>)"
| Elsewhere: "k' \<noteq> k \<Longrightarrow> q \<in> {PruneAttempts throttleWindow, InsertAttempt k', DeleteAttempts k'} \<Longrightarrow>
    Exec (conn lower) q (race_world s) = (r, w) \<Longrightarrow> race_step lower A dummy k most s (s\<lparr>race_world := w\<rparr>)"
| Time_passes: "0 \<le> t \<Longrightarrow>
    race_step lower A dummy k most s (s\<lparr>race_world := (race_world s)\<lparr>db_now := db_now (race_world s) + t\<rparr>\<rparr>)"

inductive race_runs ::
  "(string \<Rightarrow> string) \<Rightarrow> argon2id \<Rightarrow> string \<Rightarrow> string \<Rightarrow> nat \<Rightarrow> race \<Rightarrow> race \<Rightarrow> bool"
  for lower A dummy k most where
  Begin: "race_runs lower A dummy k most s s"
| More: "race_runs lower A dummy k most s s1 \<Longrightarrow> race_step lower A dummy k most s1 s2 \<Longrightarrow>
    race_runs lower A dummy k most s s2"

subsection \<open>What the operations do to the rows of a key\<close>

definition window :: int where
  "window = throttleWindow * 1000000"

definition rows_since :: "string \<Rightarrow> int \<Rightarrow> world \<Rightarrow> nat" where
  "rows_since k since w = length (filter (\<lambda>a. a_key a = k \<and> a_attempted_at a > since) (throttle_attempts (tables w)))"

lemma recent_rows: "recent_attempts w k = rows_since k (db_now w - window) w"
  by (simp add: recent_attempts_def rows_since_def window_def)

lemma rows_since_mono: "s \<le> t \<Longrightarrow> rows_since k t w \<le> rows_since k s w"
proof -
  assume "s \<le> t"
  then have part: "filter (\<lambda>a. a_key a = k \<and> a_attempted_at a > t) xs =
      filter (\<lambda>a. a_attempted_at a > t) (filter (\<lambda>a. a_key a = k \<and> a_attempted_at a > s) xs)" for xs :: "throttle_attempt list"
    by (auto intro: filter_cong)
  show ?thesis unfolding rows_since_def by (subst part) (rule length_filter_le)
qed

lemma rows_since_tick [simp]: "rows_since k s (tick w) = rows_since k s w"
  by (simp add: rows_since_def)

lemma rows_since_prune:
  "db_now w - window \<le> s \<Longrightarrow> rows_since k s (after_stmt lower (PruneAttempts throttleWindow) w) = rows_since k s w"
  by (auto simp: rows_since_def Let_def window_def intro!: arg_cong[where f = length] filter_cong)

lemma rows_since_insert:
  "rows_since k s (after_stmt lower (InsertAttempt k') w) =
     rows_since k s w + (if k' = k \<and> s < db_now w then 1 else 0)"
  by (simp add: rows_since_def)

lemma rows_since_delete:
  "k' \<noteq> k \<Longrightarrow> rows_since k s (after_stmt lower (DeleteAttempts k') w) = rows_since k s w"
  by (auto simp: rows_since_def intro!: arg_cong[where f = length] filter_cong)

lemma throttle_blocked_effect:
  assumes "throttle_blocked lower k w = (r, w')"
  shows "w' = tick w" and "r = Inr b \<Longrightarrow> b = (5 \<le> recent_attempts w k)"
proof -
  have "snd (throttle_blocked lower k w) = tick w"
    using snd_pg_query[of lower "CountAttempts k throttleWindow" w]
    by (auto simp: throttle_blocked_def throttle_blocked_tx_def bindE_def wrapE_def pg_query_def next_call_eq
        split: outcome.splits sum.splits collect_error.splits)
  with assms show w: "w' = tick w" by simp
  show "b = (5 \<le> recent_attempts w k)" if "r = Inr b"
  proof -
    have "fate w (calls w) = Works"
      using assms that by (auto simp: throttle_blocked_def throttle_blocked_tx_def bindE_def wrapE_def pg_query_def
          next_call_eq split: outcome.splits sum.splits collect_error.splits)
    from throttle_blocked_run[OF this, of lower k] assms that show ?thesis by (simp add: throttleLimit_def)
  qed
qed

lemma attempt_stmt_now:
  assumes "Exec (conn lower) q w = (r, w')" and "q \<in> {PruneAttempts throttleWindow, InsertAttempt k', DeleteAttempts k'}"
  shows "db_now w' = db_now w"
  using snd_pg_exec[of lower q w] assms by (auto simp: conn_def simp del: run_stmt.simps)

lemma attempt_stmt_effect:
  assumes "Exec (conn lower) q w = (r, w')" and "q \<in> {PruneAttempts throttleWindow, InsertAttempt k', DeleteAttempts k'}"
    and "db_now w - window \<le> s" and "q = DeleteAttempts k' \<Longrightarrow> k' \<noteq> k"
  shows "rows_since k s w \<le> rows_since k s w'"
    and "q = InsertAttempt k \<Longrightarrow> r = Inr t \<Longrightarrow> s < db_now w \<Longrightarrow> Suc (rows_since k s w) \<le> rows_since k s w'"
proof -
  have run: "pg_exec lower q w = (r, w')" using assms(1) by (simp add: conn_def)
  then have w': "w' = tick w \<or> w' = after_stmt lower q (tick w)"
    using snd_pg_exec[of lower q w] by (simp del: run_stmt.simps)
  with assms(2-4) show "rows_since k s w \<le> rows_since k s w'"
    using rows_since_prune[of "tick w" s k lower] rows_since_insert[of k s lower k' "tick w"]
      rows_since_delete[of k' k s lower "tick w"] by (auto simp del: run_stmt.simps)
  assume q: "q = InsertAttempt k" "r = Inr t" "s < db_now w"
  then have "w' = after_stmt lower (InsertAttempt k) (tick w)"
    using run by (auto simp: pg_exec_def next_call_eq split: outcome.splits)
  with q show "Suc (rows_since k s w) \<le> rows_since k s w'"
    using rows_since_insert[of k s lower k "tick w"] by (simp del: run_stmt.simps)
qed

lemma throttle_reset_world:
  assumes "throttle_reset lower k w = (r, w')"
  shows "db_now w' = db_now w"
proof -
  have "snd (throttle_reset lower k w) \<in> {tick w, after_stmt lower (DeleteAttempts k) (tick w)}"
    using snd_pg_exec[of lower "DeleteAttempts k" w]
    by (auto simp: throttle_reset_def throttle_reset_tx_def bindE_def wrapE_def simp del: run_stmt.simps
        split: prod.splits sum.splits)
  with assms show ?thesis by (auto simp del: run_stmt.simps)
qed

lemma keeps_attempts_select:
  "keeps (\<lambda>w. throttle_attempts (tables w) = T \<and> db_now w = n) (pg_query lower (SelectUserByEmail e))"
  using snd_pg_query[of lower "SelectUserByEmail e"] by (fastforce simp: keeps_def Let_def)

lemma authenticate_effect:
  assumes "authenticate lower A dummy e p w = (r, w')"
  shows "db_now w' = db_now w" and "rows_since k s w' = rows_since k s w"
proof -
  let ?I = "\<lambda>v. throttle_attempts (tables v) = throttle_attempts (tables w) \<and> db_now v = db_now w"
  have c: "keeps ?I (compare_password A q h)" for q h
    by (auto simp: keeps_def compare_password_run hashed_def split: option.split)
  have "keeps ?I (by_email_tx (conn lower) e)"
    unfolding by_email_tx_def by (intro keeps_intros) (simp add: keeps_attempts_select conn_def)
  then have "keeps ?I (authenticate lower A dummy e p)"
    unfolding authenticate_def authenticate_tx_def by (intro keeps_intros c)
  from keepsD[OF this, of w] assms show "db_now w' = db_now w" and "rows_since k s w' = rows_since k s w"
    by (simp_all add: rows_since_def)
qed

subsection \<open>The bound\<close>

definition within :: "int \<Rightarrow> int list \<Rightarrow> nat" where
  "within since ts = length (filter (\<lambda>t. since < t \<and> t \<le> since + window) ts)"

definition after :: "int \<Rightarrow> int list \<Rightarrow> nat" where
  "after since ts = length (filter (\<lambda>t. since < t) ts)"

lemma within_after: "within since ts \<le> after since ts"
proof -
  have "filter (\<lambda>t. since < t \<and> t \<le> since + window) ts = filter (\<lambda>t. t \<le> since + window) (filter (\<lambda>t. since < t) ts)"
    by (auto intro: filter_cong)
  then show ?thesis unfolding within_def after_def by (metis length_filter_le)
qed

definition race_inv :: "string \<Rightarrow> nat \<Rightarrow> race \<Rightarrow> bool" where
  "race_inv k most s \<longleftrightarrow>
     length (flights s) \<le> most \<and> (\<forall>t \<in> set (admitted s). t \<le> db_now (race_world s)) \<and>
     (\<forall>since \<ge> db_now (race_world s) - window.
        after since (admitted s) \<le> rows_since k since (race_world s) + length (flights s) + unrecorded s) \<and>
     (\<forall>since. within since (admitted s) \<le> 4 + most + unrecorded s)"

text \<open>A step that admits nobody: no row of the window is lost but for one that replaces a request.\<close>

lemma race_inv_frame:
  assumes "race_inv k most s" and "db_now (race_world s) \<le> db_now w"
    and "length fs \<le> length (flights s)" and "unrecorded s \<le> n"
    and "\<And>since. db_now w - window \<le> since \<Longrightarrow> since < db_now (race_world s) \<Longrightarrow>
      rows_since k since (race_world s) + length (flights s) + unrecorded s \<le> rows_since k since w + length fs + n"
  shows "race_inv k most (s\<lparr>race_world := w, flights := fs, unrecorded := n\<rparr>)"
proof -
  have "after since (admitted s) \<le> rows_since k since w + length fs + n" if "db_now w - window \<le> since" for since
  proof (cases "since < db_now (race_world s)")
    case True
    have "after since (admitted s) \<le> rows_since k since (race_world s) + length (flights s) + unrecorded s"
      using assms(1,2) that unfolding race_inv_def by simp
    with assms(5)[OF that True] show ?thesis by linarith
  next
    case False
    with assms(1) have "after since (admitted s) = 0"
      unfolding race_inv_def after_def by (fastforce simp: filter_empty_conv)
    then show ?thesis by simp
  qed
  with assms(1-4) show ?thesis unfolding race_inv_def by (fastforce intro: order.trans)
qed

lemma race_inv_admit:
  assumes "race_inv k most s" and "length (flights s) < most" and "recent_attempts (race_world s) k < 5"
  shows "race_inv k most (s\<lparr>race_world := tick (race_world s), flights := f # flights s,
    admitted := db_now (race_world s) # admitted s\<rparr>)"
proof -
  let ?now = "db_now (race_world s)"
  have old: "after since (admitted s) \<le> rows_since k since (race_world s) + length (flights s) + unrecorded s"
    if "?now - window \<le> since" for since using assms(1) that unfolding race_inv_def by simp
  have "within since (?now # admitted s) \<le> 4 + most + unrecorded s" for since
  proof (cases "since < ?now \<and> ?now \<le> since + window")
    case True
    then have "within since (?now # admitted s) \<le> Suc (after since (admitted s))"
      using within_after[of since "admitted s"] by (simp add: within_def)
    moreover have "rows_since k since (race_world s) \<le> 4"
      using assms(3) rows_since_mono[of "?now - window" since k "race_world s"] True by (simp add: recent_rows)
    ultimately show ?thesis using old[of since] True assms(2) by simp
  next
    case False
    then have "within since (?now # admitted s) = within since (admitted s)" by (auto simp: within_def)
    with assms(1) show ?thesis unfolding race_inv_def by simp
  qed
  moreover have "after since (?now # admitted s) \<le> rows_since k since (race_world s) + Suc (length (flights s)) + unrecorded s"
    if "?now - window \<le> since" for since
    using old[OF that] by (simp add: after_def)
  ultimately show ?thesis using assms(1,2) unfolding race_inv_def by auto
qed

lemma race_inv_cleared:
  assumes "race_inv k most s" and "length fs \<le> length (flights s)"
  shows "race_inv k most (s\<lparr>race_world := w, flights := fs, admitted := []\<rparr>)"
  using assms by (auto simp: race_inv_def within_def after_def)

lemma race_inv_step:
  assumes "race_step lower A dummy k most s s'" and "race_inv k most s"
  shows "race_inv k most s'"
  using assms
proof (cases rule: race_step.cases)
  case (Admit w e p)
  have "recent_attempts (race_world s) k < 5" using throttle_blocked_effect(2)[OF Admit(2) refl] by simp
  from race_inv_admit[OF assms(2) Admit(3) this] throttle_blocked_effect(1)[OF Admit(2)] show ?thesis
    unfolding Admit(1) by simp
next
  case (Turned_away k' r w)
  from throttle_blocked_effect(1)[OF Turned_away(2)] race_inv_frame[OF assms(2), of "race_world s'" "flights s" "unrecorded s"]
  show ?thesis unfolding Turned_away(1) by simp
next
  case (Rejected xs e p ys err w)
  from authenticate_effect[OF Rejected(3)] race_inv_frame[OF assms(2), of w "flights s'" "unrecorded s"]
  show ?thesis unfolding Rejected(1) by (simp add: Rejected(2))
next
  case (Broke_off xs e p ys err w)
  from authenticate_effect[OF Broke_off(3)] race_inv_frame[OF assms(2), of w "flights s'" "unrecorded s'"]
  show ?thesis unfolding Broke_off(1) by (simp add: Broke_off(2))
next
  case (Accepted xs e p ys u w)
  from authenticate_effect[OF Accepted(3)] race_inv_frame[OF assms(2), of w "flights s'" "unrecorded s"]
  show ?thesis unfolding Accepted(1) by (simp add: Accepted(2))
next
  case (Pruned xs ys t w)
  from attempt_stmt_now[OF Pruned(3), of k] attempt_stmt_effect(1)[OF Pruned(3), of k _ k] race_inv_frame[OF assms(2), of w "flights s'" "unrecorded s"]
  show ?thesis unfolding Pruned(1) by (simp add: Pruned(2))
next
  case (Recorded xs ys t w)
  from attempt_stmt_now[OF Recorded(3), of k] attempt_stmt_effect(1,2)[OF Recorded(3), of k _ k] race_inv_frame[OF assms(2), of w "flights s'" "unrecorded s"]
  show ?thesis unfolding Recorded(1) by (fastforce simp: Recorded(2))
next
  case (Not_recorded xs f ys err w)
  have "db_now w = db_now (race_world s)"
    "\<And>since. db_now (race_world s) - window \<le> since \<Longrightarrow> rows_since k since (race_world s) \<le> rows_since k since w"
    using Not_recorded(3) attempt_stmt_now[of lower _ "race_world s" "Inl err" w k]
      attempt_stmt_effect(1)[of lower _ "race_world s" "Inl err" w k _ k] by fastforce+
  with race_inv_frame[OF assms(2), of w "flights s'" "unrecorded s'"]
  show ?thesis unfolding Not_recorded(1) by (simp add: Not_recorded(2))
next
  case (Cleared xs ys r w)
  from race_inv_cleared[OF assms(2), of "flights s'"] show ?thesis unfolding Cleared(1) by (simp add: Cleared(2))
next
  case (Not_cleared xs ys err w)
  have "rows_since k since w = rows_since k since (race_world s)" for since
    using Not_cleared(4) by (simp add: rows_since_def)
  with throttle_reset_world[OF Not_cleared(3)] race_inv_frame[OF assms(2), of w "flights s'" "unrecorded s'"]
  show ?thesis unfolding Not_cleared(1) by (simp add: Not_cleared(2))
next
  case (Elsewhere k' q r w)
  have "db_now w = db_now (race_world s)"
    "\<And>since. db_now (race_world s) - window \<le> since \<Longrightarrow> rows_since k since (race_world s) \<le> rows_since k since w"
    using attempt_stmt_now[OF Elsewhere(4,3)] attempt_stmt_effect(1)[OF Elsewhere(4,3)] Elsewhere(2) by blast+
  with race_inv_frame[OF assms(2), of w "flights s" "unrecorded s"] show ?thesis unfolding Elsewhere(1) by simp
next
  case (Time_passes t)
  have "rows_since k since ((race_world s)\<lparr>db_now := n\<rparr>) = rows_since k since (race_world s)" for since n
    by (simp add: rows_since_def)
  with race_inv_frame[OF assms(2), of "race_world s'" "flights s" "unrecorded s"] Time_passes(2)
  show ?thesis unfolding Time_passes(1) by simp
qed

lemma race_inv_runs: "race_runs lower A dummy k most s s' \<Longrightarrow> race_inv k most s \<Longrightarrow> race_inv k most s'"
  by (induction rule: race_runs.induct) (auto intro: race_inv_step)

text \<open>
  C17: How far concurrency stretches the limit on sign-ins: whatever the interleaving, however time passes
  and calls fail, in every window of fifteen minutes the passwords tried on one key since it was last
  cleared are at most four, and the requests served at a time, and those after which a failed call
  kept the attempt from being recorded or the key from being cleared.
\<close>

theorem throttle_race_bound:
  assumes "race_runs lower A dummy k most (race_start w) s"
  shows "length (filter (\<lambda>t. since < t \<and> t \<le> since + 15 * 60 * 1000000) (admitted s)) \<le>
    4 + most + unrecorded s"
proof -
  have "race_inv k most (race_start w)" by (simp add: race_inv_def race_start_def within_def after_def)
  from race_inv_runs[OF assms this] have "within since (admitted s) \<le> 4 + most + unrecorded s"
    unfolding race_inv_def by blast
  then show ?thesis by (simp add: within_def window_def throttleWindow_def)
qed

text \<open>And the stretch is real: with so many requests at a time, so many passwords are tried at once.\<close>

lemma race_admits_all:
  assumes "reliable w" and "recent_attempts w k < 5" and "n \<le> most"
  shows "\<exists>s. race_runs lower A dummy k most (race_start w) s \<and> length (flights s) = n \<and>
    admitted s = replicate n (db_now w) \<and> unrecorded s = 0 \<and>
    reliable (race_world s) \<and> db_now (race_world s) = db_now w \<and> recent_attempts (race_world s) = recent_attempts w"
  using assms(3)
proof (induction n)
  case 0
  have "race_runs lower A dummy k most (race_start w) (race_start w)" by (rule race_runs.Begin)
  with assms(1) show ?case by (fastforce simp: race_start_def)
next
  case (Suc n)
  then obtain s where s: "race_runs lower A dummy k most (race_start w) s" "length (flights s) = n"
    "admitted s = replicate n (db_now w)" "unrecorded s = 0" "reliable (race_world s)"
    "db_now (race_world s) = db_now w" "recent_attempts (race_world s) = recent_attempts w" by auto
  let ?s = "s\<lparr>race_world := tick (race_world s), flights := Comparing [] [] # flights s,
    admitted := db_now (race_world s) # admitted s\<rparr>"
  have "fate (race_world s) (calls (race_world s)) = Works" using s(5) by (simp add: reliable_def)
  from throttle_blocked_run[OF this, of lower k] s(7) assms(2)
  have "throttle_blocked lower k (race_world s) = (Inr False, tick (race_world s))" by (simp add: throttleLimit_def)
  then have "race_step lower A dummy k most s ?s" using s(2) Suc.prems by (intro race_step.Admit) simp_all
  with s(1) have "race_runs lower A dummy k most (race_start w) ?s" by (rule race_runs.More)
  with s show ?case by (intro exI[of _ ?s]) simp
qed

theorem throttle_race_bound_witness:
  "\<exists>s. race_runs id demo_argon2id [] ''k'' 20 (race_start fresh_world) s \<and> length (admitted s) = 20 \<and>
     throttleLimit < int (length (admitted s)) \<and>
     length (filter (\<lambda>t. 0 < t \<and> t \<le> 15 * 60 * 1000000) (admitted s)) \<le> 24"
proof -
  have "reliable fresh_world" "recent_attempts fresh_world ''k'' < 5"
    by (simp_all add: reliable_def fresh_world_def empty_tables_def recent_attempts_def)
  from race_admits_all[OF this order.refl, of id demo_argon2id "[]" 20] obtain s where
    s: "race_runs id demo_argon2id [] ''k'' 20 (race_start fresh_world) s" "length (admitted s) = 20" "unrecorded s = 0"
    by auto
  from throttle_race_bound[OF s(1), of 0] s show ?thesis
    by (intro exI[of _ s]) (simp add: throttleLimit_def)
qed

end
