(* ===== verification/Reset_Race.thy ===== *)
theory Reset_Race
  imports Reset
begin

text \<open>
  Password resets at the same time (\<open>web/handlers_auth.go\<close>, \<open>PasswordResetConfirm\<close>, which runs
  \<open>auth.ResetPasswordTx\<close> in \<open>db.InTx\<close>).  A transaction is taken apart into its statements, under
  Postgres' READ COMMITTED: a statement reads what is committed when it starts; an update locks its rows
  until the transaction ends, and waits for the rows others have locked; \<open>now()\<close> is the start of the
  transaction.  The updates of a transaction show when it commits.  A token's row is only updated after
  its account's, so the lock on the account is the only one there is waiting for.
\<close>

subsection \<open>Transactions in stages\<close>

datatype stage =
    Waiting
  | Opened
  | Found reset_token
  | Hashed int string
  | Written int string
  | Retired int string "int set"
  | Ended "gerr + user"

record reset_txn =
  rt_token :: string
  rt_password :: string
  rt_began :: int
  rt_stage :: stage

record resets =
  shared :: world
  txns :: "nat \<Rightarrow> reset_txn"

fun locks :: "stage \<Rightarrow> int option" where
  "locks (Written uid h) = Some uid"
| "locks (Retired uid h ids) = Some uid"
| "locks _ = None"

definition put :: "nat \<Rightarrow> stage \<Rightarrow> resets \<Rightarrow> resets" where
  "put i st s = s\<lparr>txns := (txns s)(i := (txns s i)\<lparr>rt_stage := st\<rparr>)\<rparr>"

definition live_row :: "(string \<Rightarrow> string) \<Rightarrow> int \<Rightarrow> string \<Rightarrow> tables \<Rightarrow> reset_token option" where
  "live_row sha now token T =
     find (\<lambda>t. t_token_hash t = hash_reset_token sha token \<and> live_at now t) (password_reset_tokens T)"

definition outstanding :: "int \<Rightarrow> tables \<Rightarrow> int set" where
  "outstanding uid T = t_id ` {t \<in> set (password_reset_tokens T). t_user_id t = uid \<and> t_used_at t = None}"

definition mark_used :: "int set \<Rightarrow> int \<Rightarrow> reset_token \<Rightarrow> reset_token" where
  "mark_used ids now t = (if t_id t \<in> ids then t\<lparr>t_used_at := Some now\<rparr> else t)"

definition commit_tables :: "int \<Rightarrow> string \<Rightarrow> int \<Rightarrow> int set \<Rightarrow> tables \<Rightarrow> tables" where
  "commit_tables uid h now ids T =
     T\<lparr>users := map (set_password uid h now) (users T),
       password_reset_tokens := map (mark_used ids now) (password_reset_tokens T)\<rparr>"

text \<open>The steps of the transaction \<open>i\<close>; any statement may fail, and then the transaction is rolled back.\<close>

inductive txn_step :: "(string \<Rightarrow> string) \<Rightarrow> argon2id \<Rightarrow> nat \<Rightarrow> resets \<Rightarrow> resets \<Rightarrow> bool" for sha A i where
  Begins: "rt_stage (txns s i) = Waiting \<Longrightarrow>
    txn_step sha A i s (s\<lparr>txns := (txns s)(i := (txns s i)\<lparr>rt_stage := Opened, rt_began := db_now (shared s)\<rparr>)\<rparr>)"
| Policy: "rt_stage (txns s i) = Opened \<Longrightarrow> validate_password (rt_password (txns s i)) = Some e \<Longrightarrow>
    txn_step sha A i s (put i (Ended (Inl (Sentinel e))) s)"
| Finds: "rt_stage (txns s i) = Opened \<Longrightarrow> validate_password (rt_password (txns s i)) = None \<Longrightarrow>
    live_row sha (rt_began (txns s i)) (rt_token (txns s i)) (tables (shared s)) = Some t \<Longrightarrow>
    txn_step sha A i s (put i (Found t) s)"
| Dead: "rt_stage (txns s i) = Opened \<Longrightarrow> validate_password (rt_password (txns s i)) = None \<Longrightarrow>
    live_row sha (rt_began (txns s i)) (rt_token (txns s i)) (tables (shared s)) = None \<Longrightarrow>
    txn_step sha A i s (put i (Ended (Inl (Sentinel ErrResetTokenInvalid))) s)"
| Hashes: "rt_stage (txns s i) = Found t \<Longrightarrow> CreateHash A (rt_password (txns s i)) salt = Inr h \<Longrightarrow>
    txn_step sha A i s (put i (Hashed (t_user_id t) h) s)"
| Writes: "rt_stage (txns s i) = Hashed uid h \<Longrightarrow> (\<And>j. j \<noteq> i \<Longrightarrow> locks (rt_stage (txns s j)) \<noteq> Some uid) \<Longrightarrow>
    txn_step sha A i s (put i (Written uid h) s)"
| Retires: "rt_stage (txns s i) = Written uid h \<Longrightarrow>
    txn_step sha A i s (put i (Retired uid h (outstanding uid (tables (shared s)))) s)"
| Commits: "rt_stage (txns s i) = Retired uid h ids \<Longrightarrow> T = commit_tables uid h (rt_began (txns s i)) ids (tables (shared s)) \<Longrightarrow>
    user_by_id T uid = Some u \<Longrightarrow> r = Inr u \<or> (\<exists>e. r = Inl e) \<Longrightarrow>
    txn_step sha A i s (put i (Ended r) (s\<lparr>shared := (shared s)\<lparr>tables := T\<rparr>\<rparr>))"
| Aborts: "rt_stage (txns s i) \<noteq> Waiting \<Longrightarrow> (\<And>r. rt_stage (txns s i) \<noteq> Ended r) \<Longrightarrow>
    txn_step sha A i s (put i (Ended (Inl e)) s)"

text \<open>Meanwhile tokens are issued, and time passes.\<close>

inductive reset_step :: "(string \<Rightarrow> string) \<Rightarrow> (string \<Rightarrow> string) \<Rightarrow> argon2id \<Rightarrow> resets \<Rightarrow> resets \<Rightarrow> bool" for lower sha A where
  Own: "txn_step sha A i s s' \<Longrightarrow> reset_step lower sha A s s'"
| Issues: "create_password_reset lower sha email (shared s) = (Inr tok, w) \<Longrightarrow> reset_step lower sha A s (s\<lparr>shared := w\<rparr>)"
| Waits: "0 \<le> t \<Longrightarrow> reset_step lower sha A s (s\<lparr>shared := (shared s)\<lparr>db_now := db_now (shared s) + t, app_now := app_now (shared s) + t\<rparr>\<rparr>)"

inductive reset_runs :: "(string \<Rightarrow> string) \<Rightarrow> (string \<Rightarrow> string) \<Rightarrow> argon2id \<Rightarrow> resets \<Rightarrow> resets \<Rightarrow> bool" for lower sha A where
  Start: "reset_runs lower sha A s s"
| Step: "reset_runs lower sha A s s1 \<Longrightarrow> reset_step lower sha A s1 s2 \<Longrightarrow> reset_runs lower sha A s s2"

lemma put_simps [simp]:
  "shared (put i st s) = shared s" "txns (put i st s) j = (if j = i then (txns s i)\<lparr>rt_stage := st\<rparr> else txns s j)"
  by (simp_all add: put_def)

subsection \<open>What becomes of the tokens\<close>

text \<open>The rows of tokens stay, for their digest and account, and stay used.\<close>

definition later :: "tables \<Rightarrow> tables \<Rightarrow> bool" where
  "later T T' \<longleftrightarrow> (\<forall>t \<in> set (password_reset_tokens T). \<exists>t' \<in> set (password_reset_tokens T').
     t_id t' = t_id t \<and> t_token_hash t' = t_token_hash t \<and> t_user_id t' = t_user_id t \<and>
     (t_used_at t \<noteq> None \<longrightarrow> t_used_at t' \<noteq> None))"

lemma mark_used_fields [simp]:
  "t_id (mark_used ids n t) = t_id t" "t_token_hash (mark_used ids n t) = t_token_hash t"
  "t_user_id (mark_used ids n t) = t_user_id t"
  "t_used_at (mark_used ids n t) = None \<longleftrightarrow> t_id t \<notin> ids \<and> t_used_at t = None"
  by (auto simp: mark_used_def)

lemma later_refl [simp]: "later T T"
  by (auto simp: later_def)

lemma later_commit: "later T (commit_tables uid h n ids T)"
  unfolding later_def
proof
  fix t assume "t \<in> set (password_reset_tokens T)"
  then have "mark_used ids n t \<in> set (password_reset_tokens (commit_tables uid h n ids T))"
    by (simp add: commit_tables_def)
  moreover have "t_used_at t \<noteq> None \<longrightarrow> t_used_at (mark_used ids n t) \<noteq> None" by (simp add: mark_used_def)
  ultimately show "\<exists>t' \<in> set (password_reset_tokens (commit_tables uid h n ids T)). t_id t' = t_id t \<and>
      t_token_hash t' = t_token_hash t \<and> t_user_id t' = t_user_id t \<and> (t_used_at t \<noteq> None \<longrightarrow> t_used_at t' \<noteq> None)"
    by (intro bexI[of _ "mark_used ids n t"]) simp_all
qed

lemma later_add: "later T (T\<lparr>password_reset_tokens := password_reset_tokens T @ ts\<rparr>)"
  by (auto simp: later_def)

definition token_of :: "(string \<Rightarrow> string) \<Rightarrow> string \<Rightarrow> int \<Rightarrow> (reset_token \<Rightarrow> bool) \<Rightarrow> tables \<Rightarrow> bool" where
  "token_of sha token uid P T \<longleftrightarrow> (\<exists>t \<in> set (password_reset_tokens T).
     t_token_hash t = hash_reset_token sha token \<and> t_user_id t = uid \<and> P t)"

definition spent :: "reset_token \<Rightarrow> bool" where
  "spent t \<longleftrightarrow> t_used_at t \<noteq> None"

lemma token_of_later:
  "later T T' \<Longrightarrow> token_of sha token uid (\<lambda>t. spent t \<or> t_id t \<in> ids) T \<Longrightarrow> token_of sha token uid (\<lambda>t. spent t \<or> t_id t \<in> ids) T'"
  "later T T' \<Longrightarrow> token_of sha token uid spent T \<Longrightarrow> token_of sha token uid spent T'"
  "later T T' \<Longrightarrow> token_of sha token uid (\<lambda>_. True) T \<Longrightarrow> token_of sha token uid (\<lambda>_. True) T'"
  unfolding token_of_def later_def spent_def by metis+

text \<open>What a stage knows.\<close>

fun stage_ok :: "(string \<Rightarrow> string) \<Rightarrow> argon2id \<Rightarrow> tables \<Rightarrow> string \<Rightarrow> string \<Rightarrow> stage \<Rightarrow> bool" where
  "stage_ok sha A T token pw (Found t) \<longleftrightarrow> token_of sha token (t_user_id t) (\<lambda>_. True) T \<and> validate_password pw = None"
| "stage_ok sha A T token pw (Hashed uid h) \<longleftrightarrow> token_of sha token uid (\<lambda>_. True) T \<and> validate_password pw = None \<and>
     (\<exists>salt. CreateHash A pw salt = Inr h)"
| "stage_ok sha A T token pw (Written uid h) \<longleftrightarrow> token_of sha token uid (\<lambda>_. True) T \<and> validate_password pw = None \<and>
     (\<exists>salt. CreateHash A pw salt = Inr h)"
| "stage_ok sha A T token pw (Retired uid h ids) \<longleftrightarrow> token_of sha token uid (\<lambda>t. spent t \<or> t_id t \<in> ids) T \<and>
     validate_password pw = None \<and> (\<exists>salt. CreateHash A pw salt = Inr h)"
| "stage_ok sha A T token pw (Ended (Inr u)) \<longleftrightarrow> token_of sha token (u_id u) spent T"
| "stage_ok sha A T token pw _ \<longleftrightarrow> True"

lemma stage_ok_later: "later T T' \<Longrightarrow> stage_ok sha A T token pw st \<Longrightarrow> stage_ok sha A T' token pw st"
  using token_of_later by (cases "(sha, A, T, token, pw, st)" rule: stage_ok.cases) auto

definition all_ok :: "(string \<Rightarrow> string) \<Rightarrow> argon2id \<Rightarrow> resets \<Rightarrow> bool" where
  "all_ok sha A s \<longleftrightarrow> (\<forall>i. stage_ok sha A (tables (shared s)) (rt_token (txns s i)) (rt_password (txns s i)) (rt_stage (txns s i)))"

text \<open>Where the password of an account comes from, given the accounts \<open>us\<close> at the beginning.\<close>

definition password_from :: "(string \<Rightarrow> string) \<Rightarrow> argon2id \<Rightarrow> user list \<Rightarrow> resets \<Rightarrow> user \<Rightarrow> bool" where
  "password_from sha A us s v \<longleftrightarrow> (\<exists>u \<in> set us. u_id u = u_id v \<and>
     (u_password_hash v = u_password_hash u \<or>
      (\<exists>i salt. CreateHash A (rt_password (txns s i)) salt = Inr (u_password_hash v) \<and>
         validate_password (rt_password (txns s i)) = None \<and>
         token_of sha (rt_token (txns s i)) (u_id v) spent (tables (shared s)))))"

definition reset_inv :: "(string \<Rightarrow> string) \<Rightarrow> (string \<Rightarrow> string) \<Rightarrow> argon2id \<Rightarrow> user list \<Rightarrow> resets \<Rightarrow> bool" where
  "reset_inv lower sha A us s \<longleftrightarrow> store_inv lower (shared s) \<and> all_ok sha A s \<and>
     (\<forall>v \<in> set (users (tables (shared s))). password_from sha A us s v)"

lemma commit_tables_inv: "tables_inv lower a b T \<Longrightarrow> tables_inv lower a b (commit_tables uid h n ids T)"
  by (auto simp: tables_inv_def commit_tables_def comp_def image_iff)

lemma password_from_later:
  assumes "later (tables (shared s)) (tables (shared s'))"
    and "\<And>i. rt_token (txns s' i) = rt_token (txns s i) \<and> rt_password (txns s' i) = rt_password (txns s i)"
    and "password_from sha A us s v"
  shows "password_from sha A us s' v"
  using assms(3) token_of_later(2)[OF assms(1)] unfolding password_from_def by (metis assms(2))

text \<open>A step of a transaction in which the committed tables stand still.\<close>

lemma reset_inv_txns:
  assumes "reset_inv lower sha A us s" and "shared s' = shared s"
    and same: "\<And>j. rt_token (txns s' j) = rt_token (txns s j) \<and> rt_password (txns s' j) = rt_password (txns s j)"
    and "\<And>j. j \<noteq> i \<Longrightarrow> rt_stage (txns s' j) = rt_stage (txns s j)"
    and "stage_ok sha A (tables (shared s)) (rt_token (txns s i)) (rt_password (txns s i)) (rt_stage (txns s' i))"
  shows "reset_inv lower sha A us s'"
proof -
  have "stage_ok sha A (tables (shared s')) (rt_token (txns s' j)) (rt_password (txns s' j)) (rt_stage (txns s' j))" for j
    using assms(1,2,4,5) same[of j] unfolding reset_inv_def all_ok_def by (cases "j = i") auto
  moreover have "password_from sha A us s' v" if "v \<in> set (users (tables (shared s')))" for v
    using assms(1,2) that password_from_later[of s s' sha A us v] same unfolding reset_inv_def by auto
  ultimately show ?thesis using assms(1,2) unfolding reset_inv_def all_ok_def by simp
qed

lemma reset_inv_put:
  assumes "reset_inv lower sha A us s"
    and "stage_ok sha A (tables (shared s)) (rt_token (txns s i)) (rt_password (txns s i)) st"
  shows "reset_inv lower sha A us (put i st s)"
  by (rule reset_inv_txns[OF assms(1), of _ i]) (use assms(2) in auto)

lemma reset_inv_shared:
  assumes "reset_inv lower sha A us s" and "store_inv lower w" and "users (tables w) = users (tables (shared s))"
    and "later (tables (shared s)) (tables w)"
  shows "reset_inv lower sha A us (s\<lparr>shared := w\<rparr>)"
  using assms stage_ok_later[OF assms(4)] password_from_later[of s "s\<lparr>shared := w\<rparr>"]
  unfolding reset_inv_def all_ok_def by auto

lemma live_row_token:
  "live_row sha now token T = Some t \<Longrightarrow> token_of sha token (t_user_id t) (\<lambda>_. True) T"
  by (auto simp: live_row_def token_of_def find_Some_iff)

lemma token_retired:
  assumes "token_of sha token uid (\<lambda>_. True) T"
  shows "token_of sha token uid (\<lambda>t. spent t \<or> t_id t \<in> outstanding uid T) T"
proof -
  from assms obtain t where t: "t \<in> set (password_reset_tokens T)" "t_token_hash t = hash_reset_token sha token" "t_user_id t = uid"
    unfolding token_of_def by blast
  then have "spent t \<or> t_id t \<in> outstanding uid T"
    by (cases "t_used_at t = None") (simp_all add: spent_def outstanding_def)
  with t show ?thesis unfolding token_of_def by blast
qed

lemma token_committed:
  assumes "token_of sha token uid (\<lambda>t. spent t \<or> t_id t \<in> ids) T"
  shows "token_of sha token uid spent (commit_tables uid h n ids T)"
proof -
  from assms obtain t where t: "t \<in> set (password_reset_tokens T)" "t_token_hash t = hash_reset_token sha token"
    "t_user_id t = uid" "spent t \<or> t_id t \<in> ids" unfolding token_of_def by blast
  then have "mark_used ids n t \<in> set (password_reset_tokens (commit_tables uid h n ids T))" "spent (mark_used ids n t)"
    by (auto simp: commit_tables_def spent_def mark_used_def)
  with t show ?thesis unfolding token_of_def by (intro bexI[of _ "mark_used ids n t"]) simp_all
qed

lemma reset_inv_commit:
  assumes "reset_inv lower sha A us s" and "rt_stage (txns s i) = Retired uid h ids"
    and "T = commit_tables uid h (rt_began (txns s i)) ids (tables (shared s))"
    and "user_by_id T uid = Some u" and "r = Inr u \<or> (\<exists>e. r = Inl e)"
  shows "reset_inv lower sha A us (put i (Ended r) (s\<lparr>shared := (shared s)\<lparr>tables := T\<rparr>\<rparr>))"
proof -
  let ?tx = "txns s i" let ?s = "s\<lparr>shared := (shared s)\<lparr>tables := T\<rparr>\<rparr>"
  have "stage_ok sha A (tables (shared s)) (rt_token ?tx) (rt_password ?tx) (Retired uid h ids)"
    using assms(1,2) unfolding reset_inv_def all_ok_def by metis
  then have ok: "token_of sha (rt_token ?tx) uid spent T" "validate_password (rt_password ?tx) = None"
    "\<exists>salt. CreateHash A (rt_password ?tx) salt = Inr h"
    using token_committed assms(3) by auto
  have later: "later (tables (shared s)) T" unfolding assms(3) by (rule later_commit)
  have all: "all_ok sha A ?s"
    using assms(1) stage_ok_later[OF later] unfolding reset_inv_def all_ok_def by simp
  have from_s: "password_from sha A us ?s v" if "v \<in> set (users (tables (shared s)))" for v
    using assms(1) that password_from_later[of s ?s] later unfolding reset_inv_def by simp
  have "password_from sha A us ?s v" if v: "v \<in> set (users T)" for v
  proof -
    from v obtain v0 where v0: "v0 \<in> set (users (tables (shared s)))" "v = set_password uid h (rt_began ?tx) v0"
      unfolding assms(3) commit_tables_def by auto
    show ?thesis
    proof (cases "u_id v0 = uid")
      case True
      with v0 have v': "u_password_hash v = h" "u_id v = uid" by (simp_all add: set_password_def)
      from from_s[OF v0(1)] obtain u0 where "u0 \<in> set us" "u_id u0 = u_id v0" unfolding password_from_def by blast
      with True v' ok show ?thesis unfolding password_from_def by auto
    next
      case False
      with v0 have "v = v0" by (simp add: set_password_def)
      with from_s[OF v0(1)] show ?thesis by simp
    qed
  qed
  moreover have "store_inv lower (shared ?s)"
    using assms(1) commit_tables_inv unfolding reset_inv_def store_inv_def assms(3) by auto
  ultimately have "reset_inv lower sha A us ?s" using all unfolding reset_inv_def by simp
  moreover have "stage_ok sha A T (rt_token ?tx) (rt_password ?tx) (Ended r)"
    using assms(5) ok(1) user_by_id_Some[OF assms(4)] by auto
  ultimately show ?thesis by (intro reset_inv_put) simp_all
qed

lemma reset_inv_txn:
  assumes "txn_step sha A i s s'" and "reset_inv lower sha A us s"
  shows "reset_inv lower sha A us s'"
proof -
  have ok: "stage_ok sha A (tables (shared s)) (rt_token (txns s i)) (rt_password (txns s i)) (rt_stage (txns s i))"
    using assms(2) unfolding reset_inv_def all_ok_def by blast
  from assms(1) show ?thesis
  proof cases
    case Begins
    show ?thesis by (rule reset_inv_txns[OF assms(2), of _ i]) (auto simp: Begins)
  next
    case (Commits uid h ids T u r)
    from reset_inv_commit[OF assms(2) Commits(2-5)] show ?thesis unfolding Commits(1) .
  next
    case (Hashes t salt h)
    then show ?thesis using ok by (auto intro!: reset_inv_put[OF assms(2)])
  next
    case (Retires uid h)
    then show ?thesis using ok token_retired by (auto intro!: reset_inv_put[OF assms(2)])
  qed (use ok live_row_token in \<open>auto intro!: reset_inv_put[OF assms(2)]\<close>)
qed

lemma reset_inv_step:
  assumes "reset_step lower sha A s s'" and "reset_inv lower sha A us s"
  shows "reset_inv lower sha A us s'"
  using assms(1)
proof cases
  case (Own i)
  then show ?thesis using reset_inv_txn assms(2) by blast
next
  case (Issues email tok w)
  obtain token u where tok: "tok = (token, u)" by force
  have inv: "store_inv lower (shared s)" using assms(2) by (simp add: reset_inv_def)
  have w: "store_inv lower w"
    using keeps_run[OF keeps_create_password_reset Issues(2)[unfolded create_password_reset_def] inv] .
  from create_password_reset_Inr[OF inv Issues(2)[unfolded tok]] have
    "users (tables w) = users (tables (shared s))" "later (tables (shared s)) (tables w)"
    by (auto simp: add_token_def salted_def later_def)
  with reset_inv_shared[OF assms(2) w] show ?thesis unfolding Issues(1) by simp
next
  case (Waits t)
  then show ?thesis using reset_inv_shared[OF assms(2), of "shared s'"] assms(2)
    by (simp add: reset_inv_def store_inv_def)
qed

lemma reset_inv_runs: "reset_runs lower sha A s s' \<Longrightarrow> reset_inv lower sha A us s \<Longrightarrow> reset_inv lower sha A us s'"
  by (induction rule: reset_runs.induct) (auto intro: reset_inv_step)

text \<open>
  C18: Concurrent resets are as safe as single ones: however their statements interleave with each other
  and with the issue of new tokens, and wherever they fail, a password is only ever changed to one
  that the policy accepted, by a transaction that presented a token of that very account; and whenever
  a transaction has changed a password, its token is used.
\<close>

theorem reset_race_safe:
  assumes "reset_runs lower sha A s0 s" and "store_inv lower (shared s0)"
    and "\<And>i. rt_stage (txns s0 i) = Waiting"
  shows "(\<forall>v \<in> set (users (tables (shared s))). password_from sha A (users (tables (shared s0))) s v) \<and>
    (\<forall>i u. rt_stage (txns s i) = Ended (Inr u) \<longrightarrow>
       token_of sha (rt_token (txns s i)) (u_id u) spent (tables (shared s)))"
proof -
  have "reset_inv lower sha A (users (tables (shared s0))) s0"
    using assms(2,3) unfolding reset_inv_def all_ok_def password_from_def by auto
  from reset_inv_runs[OF assms(1) this] have inv: "reset_inv lower sha A (users (tables (shared s0))) s" .
  have "token_of sha (rt_token (txns s i)) (u_id u) spent (tables (shared s))"
    if "rt_stage (txns s i) = Ended (Inr u)" for i u
  proof -
    have "stage_ok sha A (tables (shared s)) (rt_token (txns s i)) (rt_password (txns s i)) (Ended (Inr u))"
      using inv that unfolding reset_inv_def all_ok_def by metis
    then show ?thesis by simp
  qed
  with inv show ?thesis unfolding reset_inv_def by blast
qed

subsection \<open>One transaction alone\<close>

lemma mark_outstanding:
  assumes "distinct (map t_id (password_reset_tokens T))" and "t \<in> set (password_reset_tokens T)"
  shows "mark_used (outstanding uid T) n t = retire uid n t"
proof -
  have "t_id t \<in> outstanding uid T \<longleftrightarrow> t_user_id t = uid \<and> t_used_at t = None"
    using assms by (auto simp: outstanding_def distinct_map inj_on_def)
  then show ?thesis by (simp add: mark_used_def retire_def)
qed

lemma commit_alone:
  assumes "store_inv lower w"
  shows "commit_tables uid h n (outstanding uid (tables w)) (tables w) = reset_tables uid h n (tables w)"
proof -
  have "distinct (map t_id (password_reset_tokens (tables w)))"
    using assms by (simp add: store_inv_def tables_inv_def)
  from mark_outstanding[OF this] show ?thesis by (simp add: commit_tables_def reset_tables_def)
qed

definition opened :: "nat \<Rightarrow> resets \<Rightarrow> resets" where
  "opened i s = s\<lparr>txns := (txns s)(i := (txns s i)\<lparr>rt_stage := Opened, rt_began := db_now (shared s)\<rparr>)\<rparr>"

lemma opened_simps [simp]:
  "shared (opened i s) = shared s"
  "txns (opened i s) j = (if j = i then (txns s i)\<lparr>rt_stage := Opened, rt_began := db_now (shared s)\<rparr> else txns s j)"
  by (simp_all add: opened_def)

lemma runs_own: "reset_runs lower sha A s0 s \<Longrightarrow> txn_step sha A i s s' \<Longrightarrow> reset_runs lower sha A s0 s'"
  by (rule reset_runs.Step[OF _ reset_step.Own])

text \<open>The two halves of a reset: up to the hash nothing waits, from the update on it holds the account.\<close>

lemma runs_to_hash:
  assumes "reset_runs lower sha A s0 s" and "rt_stage (txns s i) = Waiting"
    and "validate_password (rt_password (txns s i)) = None"
    and "live_row sha (db_now (shared s)) (rt_token (txns s i)) (tables (shared s)) = Some t"
    and "CreateHash A (rt_password (txns s i)) salt = Inr h"
  shows "\<exists>s'. reset_runs lower sha A s0 s' \<and> shared s' = shared s \<and>
    txns s' = (txns s)(i := (txns s i)\<lparr>rt_began := db_now (shared s), rt_stage := Hashed (t_user_id t) h\<rparr>)"
proof -
  let ?s' = "put i (Hashed (t_user_id t) h) (put i (Found t) (opened i s))"
  have "reset_runs lower sha A s0 (opened i s)"
    using runs_own[OF assms(1) txn_step.Begins[OF assms(2)]] by (simp add: opened_def)
  then have "reset_runs lower sha A s0 (put i (Found t) (opened i s))"
    by (rule runs_own) (rule txn_step.Finds; use assms in simp)
  then have "reset_runs lower sha A s0 ?s'"
    by (rule runs_own) (rule txn_step.Hashes[where salt = salt]; use assms in simp)
  moreover have "txns ?s' = (txns s)(i := (txns s i)\<lparr>rt_began := db_now (shared s), rt_stage := Hashed (t_user_id t) h\<rparr>)"
    by (rule ext) simp
  moreover have "shared ?s' = shared s" by simp
  ultimately show ?thesis by blast
qed

lemma runs_to_end:
  assumes "reset_runs lower sha A s0 s" and "rt_stage (txns s i) = Hashed uid h"
    and "\<And>j. j \<noteq> i \<Longrightarrow> locks (rt_stage (txns s j)) \<noteq> Some uid"
    and "T = commit_tables uid h (rt_began (txns s i)) (outstanding uid (tables (shared s))) (tables (shared s))"
    and "user_by_id T uid = Some u"
  shows "\<exists>s'. reset_runs lower sha A s0 s' \<and> shared s' = (shared s)\<lparr>tables := T\<rparr> \<and>
    txns s' = (txns s)(i := (txns s i)\<lparr>rt_stage := Ended (Inr u)\<rparr>)"
proof -
  let ?ids = "outstanding uid (tables (shared s))"
  let ?s2 = "put i (Retired uid h ?ids) (put i (Written uid h) s)"
  let ?s3 = "put i (Ended (Inr u)) (?s2\<lparr>shared := (shared ?s2)\<lparr>tables := T\<rparr>\<rparr>)"
  have "reset_runs lower sha A s0 (put i (Written uid h) s)"
    using assms(1) by (rule runs_own) (rule txn_step.Writes; use assms in simp)
  then have "reset_runs lower sha A s0 ?s2"
  proof (rule runs_own)
    show "txn_step sha A i (put i (Written uid h) s) ?s2"
      using txn_step.Retires[of "put i (Written uid h) s" i uid h sha A] by simp
  qed
  then have "reset_runs lower sha A s0 ?s3"
  proof (rule runs_own)
    show "txn_step sha A i ?s2 ?s3"
      by (rule txn_step.Commits[of ?s2 i uid h ?ids T u "Inr u"]) (use assms(4,5) in simp_all)
  qed
  moreover have "txns ?s3 = (txns s)(i := (txns s i)\<lparr>rt_stage := Ended (Inr u)\<rparr>)"
    by (rule ext) simp
  moreover have "shared ?s3 = (shared s)\<lparr>tables := T\<rparr>" by simp
  ultimately show ?thesis by blast
qed

text \<open>Left alone, a transaction does what \<open>ResetPasswordTx\<close> does.\<close>

lemma reset_alone:
  assumes "store_inv lower (shared s)" and "reset_password lower sha A build token pw (shared s) = (Inr u, w')"
    and "rt_token (txns s i) = token" and "rt_password (txns s i) = pw" and "rt_stage (txns s i) = Waiting"
    and "\<And>j. j \<noteq> i \<Longrightarrow> locks (rt_stage (txns s j)) = None"
  shows "\<exists>s'. reset_runs lower sha A s s' \<and> rt_stage (txns s' i) = Ended (Inr u) \<and> tables (shared s') = tables w'"
proof -
  obtain t h salt where r: "validate_password pw = None" "live_token sha (shared s) token = Some t"
    "CreateHash A pw salt = Inr h" "tables w' = reset_tables (t_user_id t) h (db_now (shared s)) (tables (shared s))"
    "u \<in> set (users (tables w'))" "u_id u = t_user_id t"
    using reset_password_Inr[OF assms(1,2)] by blast
  have "store_inv lower w'"
    using keeps_run[OF keeps_reset_password assms(2)[unfolded reset_password_def] assms(1)] .
  with r have u: "user_by_id (tables w') (t_user_id t) = Some u" using user_by_id_mem by metis
  obtain s1 where s1: "reset_runs lower sha A s s1" "shared s1 = shared s"
    "txns s1 = (txns s)(i := (txns s i)\<lparr>rt_began := db_now (shared s), rt_stage := Hashed (t_user_id t) h\<rparr>)"
    using runs_to_hash[OF reset_runs.Start assms(5), where sha = sha and t = t and A = A and salt = salt and h = h and lower = lower] r assms(3,4)
    by (auto simp: live_row_def live_token_def)
  obtain s2 where "reset_runs lower sha A s s2" "shared s2 = (shared s)\<lparr>tables := tables w'\<rparr>"
    "txns s2 = (txns s1)(i := (txns s1 i)\<lparr>rt_stage := Ended (Inr u)\<rparr>)"
    using runs_to_end[OF s1(1), of i "t_user_id t" h "tables w'" u] s1(2,3) u assms(6) r(4)
    by (auto simp: commit_alone[OF assms(1)])
  then show ?thesis by (intro exI[of _ s2]) simp
qed

subsection \<open>Locks\<close>

lemma commit_user:
  assumes "uid \<in> u_id ` set (users T)"
  shows "\<exists>u. user_by_id (commit_tables uid h n ids T) uid = Some u \<and> u_id u = uid \<and> u_password_hash u = h"
    and "uid \<in> u_id ` set (users (commit_tables uid h n ids T))"
proof -
  show m: "uid \<in> u_id ` set (users (commit_tables uid h n ids T))"
    using assms by (simp add: commit_tables_def image_image)
  then have "user_by_id (commit_tables uid h n ids T) uid \<noteq> None"
    by (auto simp: user_by_id_def find_None_iff)
  then obtain u where u: "user_by_id (commit_tables uid h n ids T) uid = Some u" by blast
  then have "u \<in> set_password uid h n ` set (users T)" "u_id u = uid"
    using user_by_id_Some[OF u] by (simp_all add: commit_tables_def)
  then obtain v where v: "u = set_password uid h n v" by blast
  with \<open>u_id u = uid\<close> have "u_id v = uid" by (metis set_password_fields(1))
  then have "u_password_hash u = h" unfolding v by (simp add: set_password_def)
  with u \<open>u_id u = uid\<close> show "\<exists>u. user_by_id (commit_tables uid h n ids T) uid = Some u \<and> u_id u = uid \<and> u_password_hash u = h"
    by blast
qed

text \<open>An account is held by one transaction at a time.\<close>

definition exclusive :: "resets \<Rightarrow> bool" where
  "exclusive s \<longleftrightarrow> (\<forall>i j uid. locks (rt_stage (txns s i)) = Some uid \<longrightarrow> locks (rt_stage (txns s j)) = Some uid \<longrightarrow> i = j)"

lemma exclusive_txn: "txn_step sha A i s s' \<Longrightarrow> exclusive s \<Longrightarrow> exclusive s'"
  by (induction rule: txn_step.induct) (auto simp: exclusive_def split: if_splits)

lemma exclusive_runs: "reset_runs lower sha A s s' \<Longrightarrow> exclusive s \<Longrightarrow> exclusive s'"
proof (induction rule: reset_runs.induct)
  case (Step s s1 s2)
  then show ?case using exclusive_txn by (auto simp: exclusive_def elim!: reset_step.cases)
qed

text \<open>
  There is no deadlock: while a transaction is under way, one of them can go on without failing, provided
  passwords can be hashed.
\<close>

fun rank :: "stage \<Rightarrow> nat" where
  "rank Waiting = 0"
| "rank Opened = 1"
| "rank (Found t) = 2"
| "rank (Hashed uid h) = 3"
| "rank (Written uid h) = 4"
| "rank (Retired uid h ids) = 5"
| "rank (Ended r) = 6"

definition goes_on :: "(string \<Rightarrow> string) \<Rightarrow> argon2id \<Rightarrow> nat \<Rightarrow> resets \<Rightarrow> bool" where
  "goes_on sha A i s \<longleftrightarrow> (\<exists>s'. txn_step sha A i s s' \<and> rank (rt_stage (txns s i)) < rank (rt_stage (txns s' i)) \<and>
     (rt_stage (txns s i) = Opened \<or> (\<forall>e. rt_stage (txns s' i) \<noteq> Ended (Inl e))))"

lemma holder_goes_on:
  assumes "reset_inv lower sha A us s" and "locks (rt_stage (txns s i)) = Some uid"
  shows "goes_on sha A i s"
proof (cases "rt_stage (txns s i)")
  case (Written v h)
  from txn_step.Retires[OF this, of sha A] show ?thesis
    unfolding goes_on_def by (intro exI conjI) (auto simp: Written)
next
  case (Retired v h ids)
  let ?T = "commit_tables v h (rt_began (txns s i)) ids (tables (shared s))"
  have "stage_ok sha A (tables (shared s)) (rt_token (txns s i)) (rt_password (txns s i)) (Retired v h ids)"
    using assms(1) Retired unfolding reset_inv_def all_ok_def by metis
  then have "v \<in> u_id ` set (users (tables (shared s)))"
    using assms(1) by (auto simp: reset_inv_def store_inv_def tables_inv_def token_of_def)
  then obtain u where "user_by_id ?T v = Some u" using commit_user(1) by blast
  from txn_step.Commits[OF Retired refl this, of "Inr u" sha A] show ?thesis
    unfolding goes_on_def by (intro exI conjI) (auto simp: Retired)
qed (use assms(2) in simp_all)

lemma reset_no_deadlock:
  assumes "reset_inv lower sha A us s" and "\<And>pw. \<exists>salt h. CreateHash A pw salt = Inr h"
    and "rt_stage (txns s i) \<noteq> Waiting" and "\<And>r. rt_stage (txns s i) \<noteq> Ended r"
  shows "\<exists>j. goes_on sha A j s"
proof (cases "\<exists>j uid. locks (rt_stage (txns s j)) = Some uid")
  case True
  then show ?thesis using holder_goes_on[OF assms(1)] by blast
next
  case False
  have "goes_on sha A i s"
  proof (cases "rt_stage (txns s i)")
    case Opened
    then have "\<exists>s'. txn_step sha A i s s' \<and> 1 < rank (rt_stage (txns s' i))"
    proof (cases "validate_password (rt_password (txns s i))")
      case None
      show ?thesis
      proof (cases "live_row sha (rt_began (txns s i)) (rt_token (txns s i)) (tables (shared s))")
        case n: None
        from txn_step.Dead[OF Opened None n, of A] show ?thesis by fastforce
      next
        case (Some t)
        from txn_step.Finds[OF Opened None Some, of A] show ?thesis by fastforce
      qed
    next
      case (Some e)
      from txn_step.Policy[OF Opened Some, of sha A] show ?thesis by fastforce
    qed
    with Opened show ?thesis by (simp add: goes_on_def)
  next
    case (Found t)
    obtain salt h where "CreateHash A (rt_password (txns s i)) salt = Inr h" using assms(2) by blast
    from txn_step.Hashes[OF Found this, of sha] show ?thesis
      unfolding goes_on_def by (intro exI conjI) (auto simp: Found)
  next
    case (Hashed uid h)
    have "locks (rt_stage (txns s j)) \<noteq> Some uid" for j using False by blast
    from txn_step.Writes[OF Hashed this, of sha A] show ?thesis
      unfolding goes_on_def by (intro exI conjI) (auto simp: Hashed)
  next
    case (Written uid h)
    then show ?thesis using False by (metis locks.simps(1))
  next
    case (Retired uid h ids)
    then show ?thesis using False by (metis locks.simps(2))
  qed (use assms(3,4) in simp_all)
  then show ?thesis by blast
qed

subsection \<open>One token, two passwords\<close>

definition two_resets :: "world \<Rightarrow> string \<Rightarrow> string \<Rightarrow> string \<Rightarrow> resets" where
  "two_resets w token p q = \<lparr>shared = w, txns = (\<lambda>i.
     \<lparr>rt_token = token, rt_password = if i = 0 then p else q, rt_began = 0, rt_stage = Waiting\<rparr>)\<rparr>"

lemma two_resets_run:
  assumes "store_inv lower w" and "live_token sha w token = Some t"
    and "validate_password p = None" and "CreateHash A p salt1 = Inr hp"
    and "validate_password q = None" and "CreateHash A q salt2 = Inr hq"
  shows "\<exists>s u v. reset_runs lower sha A (two_resets w token p q) s \<and>
    rt_stage (txns s 0) = Ended (Inr u) \<and> rt_stage (txns s 1) = Ended (Inr v) \<and>
    rt_token (txns s 1) = token \<and>
    u_id u = t_user_id t \<and> u_id v = t_user_id t \<and> u_password_hash u = hp \<and> u_password_hash v = hq \<and>
    v \<in> set (users (tables (shared s)))"
proof -
  let ?uid = "t_user_id t" let ?s0 = "two_resets w token p q"
  have live: "live_row sha (db_now w) token (tables w) = Some t"
    using assms(2) by (simp add: live_row_def live_token_def)
  have s0: "shared ?s0 = w" "txns ?s0 i = \<lparr>rt_token = token, rt_password = if i = 0 then p else q,
      rt_began = 0, rt_stage = Waiting\<rparr>" for i by (simp_all add: two_resets_def)
  obtain s1 where s1: "reset_runs lower sha A ?s0 s1" "shared s1 = w"
    "txns s1 = (txns ?s0)(0 := (txns ?s0 0)\<lparr>rt_began := db_now w, rt_stage := Hashed ?uid hp\<rparr>)"
    using runs_to_hash[OF reset_runs.Start, where s = ?s0 and i = 0 and sha = sha and t = t and A = A and salt = salt1 and h = hp and lower = lower] assms(3,4) live by (auto simp: s0)
  obtain s2 where s2: "reset_runs lower sha A ?s0 s2" "shared s2 = w"
    "txns s2 = (txns s1)(1 := (txns s1 1)\<lparr>rt_began := db_now w, rt_stage := Hashed ?uid hq\<rparr>)"
    using runs_to_hash[OF s1(1), where i = 1 and t = t and salt = salt2 and h = hq] assms(5,6) live by (auto simp: s0 s1(2,3))
  have "?uid \<in> u_id ` set (users (tables w))"
    using assms(1) live_token_Some[OF assms(2)] by (auto simp: store_inv_def tables_inv_def)
  let ?T1 = "commit_tables ?uid hp (db_now w) (outstanding ?uid (tables w)) (tables w)"
  obtain u where u: "user_by_id ?T1 ?uid = Some u" "u_id u = ?uid" "u_password_hash u = hp"
    and T1: "?uid \<in> u_id ` set (users ?T1)" using commit_user[OF \<open>?uid \<in> _\<close>] by blast
  have free: "locks (rt_stage (txns s2 j)) \<noteq> Some ?uid" for j by (simp add: s2(3) s1(3) s0)
  obtain s3 where s3: "reset_runs lower sha A ?s0 s3" "shared s3 = w\<lparr>tables := ?T1\<rparr>"
    "txns s3 = (txns s2)(0 := (txns s2 0)\<lparr>rt_stage := Ended (Inr u)\<rparr>)"
    using runs_to_end[OF s2(1) _ free _ u(1), of 0 hp] by (auto simp: s2(2,3) s1(3) s0)
  let ?T2 = "commit_tables ?uid hq (db_now w) (outstanding ?uid ?T1) ?T1"
  obtain v where v: "user_by_id ?T2 ?uid = Some v" "u_id v = ?uid" "u_password_hash v = hq"
    using commit_user(1)[OF T1] by blast
  have free': "locks (rt_stage (txns s3 j)) \<noteq> Some ?uid" for j by (simp add: s3(3) s2(3) s1(3) s0)
  obtain s4 where s4: "reset_runs lower sha A ?s0 s4" "shared s4 = w\<lparr>tables := ?T2\<rparr>"
    "txns s4 = (txns s3)(1 := (txns s3 1)\<lparr>rt_stage := Ended (Inr v)\<rparr>)"
    using runs_to_end[OF s3(1) _ free' _ v(1), of 1 hq] by (auto simp: s3(2,3) s2(2,3) s1(3) s0)
  have "v \<in> set (users (tables (shared s4)))" using user_by_id_Some[OF v(1)] s4(2) by simp
  with u(2,3) v(2,3) s4(1) show ?thesis
    by (intro exI[of _ s4] exI[of _ u] exI[of _ v]) (simp add: s4(3) s3(3) s2(3) s1(3) s0)
qed

text \<open>
  C19: But a token is not single-use when two requests present it at once: both find it live, both set
  their password, one after the other, and both are told that they succeeded; the account has the
  second password.
\<close>

theorem reset_token_used_twice:
  assumes "store_inv lower w" and "live_token sha w token = Some t"
    and "validate_password p = None" and "CreateHash A p salt1 = Inr hp"
    and "validate_password q = None" and "CreateHash A q salt2 = Inr hq"
  shows "\<exists>s u v. reset_runs lower sha A (two_resets w token p q) s \<and>
    rt_stage (txns s 0) = Ended (Inr u) \<and> rt_stage (txns s 1) = Ended (Inr v) \<and>
    u_id u = t_user_id t \<and> u_id v = t_user_id t \<and> u_password_hash u = hp \<and> u_password_hash v = hq \<and>
    v \<in> set (users (tables (shared s)))"
  using two_resets_run[OF assms] by blast

lemma two_passwords: "validate_password ''first-password'' = None" "validate_password ''other-password'' = None"
  by (simp_all add: validate_password_def PasswordMinLength_def passwordMaxBytes_def rune_count_ascii ascii_def)

lemma two_hashes: "CreateHash demo_argon2id p [] = Inr (hex_encode p @ ''$'' @ hex_encode [])"
  by (simp add: demo_argon2id_def)

lemma two_hashes_differ: "hex_encode ''first-password'' \<noteq> hex_encode ''other-password''"
  by code_simp

theorem reset_token_used_twice_witness:
  "\<exists>s u v. reset_runs id id demo_argon2id (two_resets (link_world id) demo_token ''first-password'' ''other-password'') s \<and>
    rt_stage (txns s 0) = Ended (Inr u) \<and> rt_stage (txns s 1) = Ended (Inr v) \<and> u_id u = u_id v \<and>
    u_password_hash u \<noteq> u_password_hash v"
proof -
  from reset_token_used_twice[OF link_world_ok(1,3) two_passwords(1) two_hashes two_passwords(2) two_hashes]
  obtain s u v where
    s: "reset_runs id id demo_argon2id (two_resets (link_world id) demo_token ''first-password'' ''other-password'') s"
    "rt_stage (txns s 0) = Ended (Inr u)" "rt_stage (txns s 1) = Ended (Inr v)" "u_id u = u_id v"
    and h: "u_password_hash u = hex_encode ''first-password'' @ ''$'' @ hex_encode []"
    "u_password_hash v = hex_encode ''other-password'' @ ''$'' @ hex_encode []" by metis
  have "u_password_hash u \<noteq> u_password_hash v" unfolding h append_same_eq by (rule two_hashes_differ)
  with s show ?thesis by blast
qed

theorem reset_race_safe_witness:
  "\<exists>s v. reset_runs id id demo_argon2id (two_resets (link_world id) demo_token ''first-password'' ''other-password'') s \<and>
    rt_stage (txns s 1) = Ended (Inr v) \<and> token_of id demo_token (u_id v) spent (tables (shared s)) \<and>
    password_from id demo_argon2id [ada] s v"
proof -
  let ?s0 = "two_resets (link_world id) demo_token ''first-password'' ''other-password''"
  obtain s v where s: "reset_runs id id demo_argon2id ?s0 s" "rt_stage (txns s 1) = Ended (Inr v)"
    "rt_token (txns s 1) = demo_token" "v \<in> set (users (tables (shared s)))"
    using two_resets_run[OF link_world_ok(1,3) two_passwords(1) two_hashes two_passwords(2) two_hashes] by metis
  have s0: "store_inv id (shared ?s0)" "\<And>i. rt_stage (txns ?s0 i) = Waiting" "users (tables (shared ?s0)) = [ada]"
    using link_world_ok(1)[of id] by (simp_all add: two_resets_def link_world_ok(4))
  from reset_race_safe[OF s(1) s0(1,2)] s s0(3) show ?thesis by metis
qed

end
