(* ===== verification/Hash_Slots.thy ===== *)
theory Hash_Slots
  imports Users
begin

text \<open>
  The cap on concurrent password hashing (\<open>auth/users.go\<close>): \<open>hashSlots\<close> is a buffered channel.  A caller
  of \<open>hashPassword\<close> or \<open>comparePassword\<close> sends to it, unless its context is done first, computes, and
  receives again when it returns.  \<open>slot_step\<close> interleaves any number of callers; a send waits while
  the buffer is full, a receive while it is empty.
\<close>

record hash_params =
  Memory :: nat
  Iterations :: nat
  Parallelism :: nat
  SaltLength :: nat
  KeyLength :: nat

definition hashParams :: hash_params where
  "hashParams = \<lparr>Memory = 19 * 1024, Iterations = 2, Parallelism = 1, SaltLength = 16, KeyLength = 32\<rparr>"

text \<open>The decoy hash of package initialisation; \<open>None\<close> is the panic.\<close>

definition dummyHash :: "argon2id \<Rightarrow> string \<Rightarrow> string option" where
  "dummyHash A salt = (case CreateHash A ''decoy-for-timing-uniformity'' salt of Inl e \<Rightarrow> None | Inr h \<Rightarrow> Some h)"

definition slot_count :: "nat \<Rightarrow> nat" where
  "slot_count gomaxprocs = 2 * gomaxprocs"

datatype caller = Queued | Computing | Leaving | Returned | Gave_up

record slots =
  in_channel :: nat
  callers :: "caller list"

inductive slot_step :: "nat \<Rightarrow> slots \<Rightarrow> slots \<Rightarrow> bool" for cap where
  Calls: "slot_step cap s (s\<lparr>callers := callers s @ [Queued]\<rparr>)"
| Sends: "callers s = xs @ Queued # ys \<Longrightarrow> in_channel s < cap \<Longrightarrow>
    slot_step cap s (s\<lparr>in_channel := Suc (in_channel s), callers := xs @ Computing # ys\<rparr>)"
| Cancelled: "callers s = xs @ Queued # ys \<Longrightarrow> slot_step cap s (s\<lparr>callers := xs @ Gave_up # ys\<rparr>)"
| Computes: "callers s = xs @ Computing # ys \<Longrightarrow> slot_step cap s (s\<lparr>callers := xs @ Leaving # ys\<rparr>)"
| Receives: "callers s = xs @ Leaving # ys \<Longrightarrow> 0 < in_channel s \<Longrightarrow>
    slot_step cap s (s\<lparr>in_channel := in_channel s - 1, callers := xs @ Returned # ys\<rparr>)"

inductive slot_runs :: "nat \<Rightarrow> slots \<Rightarrow> bool" for cap where
  Made: "slot_runs cap \<lparr>in_channel = 0, callers = []\<rparr>"
| Goes_on: "slot_runs cap s \<Longrightarrow> slot_step cap s s' \<Longrightarrow> slot_runs cap s'"

definition holding :: "caller \<Rightarrow> bool" where
  "holding c \<longleftrightarrow> c = Computing \<or> c = Leaving"

definition holders :: "slots \<Rightarrow> nat" where
  "holders s = length (filter holding (callers s))"

definition slot_inv :: "nat \<Rightarrow> slots \<Rightarrow> bool" where
  "slot_inv cap s \<longleftrightarrow> in_channel s = holders s \<and> holders s \<le> cap"

lemma slot_inv_step: "slot_step cap s s' \<Longrightarrow> slot_inv cap s \<Longrightarrow> slot_inv cap s'"
  by (induction rule: slot_step.induct) (auto simp: slot_inv_def holders_def holding_def)

lemma slot_inv_runs: "slot_runs cap s \<Longrightarrow> slot_inv cap s"
proof (induction rule: slot_runs.induct)
  case Made
  show ?case by (simp add: slot_inv_def holders_def)
qed (rule slot_inv_step)

text \<open>
  C20: The memory of password hashing is bounded whatever arrives: at most two computations per processor
  run at a time, which hold less than 40 MiB per processor; the deferred receive never waits, so no
  slot is lost; and a caller waits only while every slot is held by another.
\<close>

theorem hash_slots_bounded:
  assumes "slot_runs (slot_count procs) s"
  shows "length (filter (\<lambda>c. c = Computing) (callers s)) * Memory hashParams \<le> procs * (40 * 1024) \<and>
    (Leaving \<in> set (callers s) \<longrightarrow> 0 < in_channel s) \<and>
    (Queued \<in> set (callers s) \<longrightarrow> (\<exists>s' xs ys. slot_step (slot_count procs) s s' \<and> callers s = xs @ Queued # ys \<and>
       callers s' = xs @ Computing # ys) \<or> holders s = slot_count procs)"
proof -
  have inv: "in_channel s = holders s" "holders s \<le> 2 * procs"
    using slot_inv_runs[OF assms] by (simp_all add: slot_inv_def slot_count_def)
  have "length (filter (\<lambda>c. c = Computing) cs) \<le> length (filter holding cs)" for cs
    by (induction cs) (auto simp: holding_def)
  then have "length (filter (\<lambda>c. c = Computing) (callers s)) \<le> holders s" unfolding holders_def .
  then have "length (filter (\<lambda>c. c = Computing) (callers s)) * Memory hashParams \<le> procs * (40 * 1024)"
    using inv(2) by (simp add: hashParams_def)
  moreover have "0 < in_channel s" if "Leaving \<in> set (callers s)"
    using that inv(1) by (auto simp: holders_def holding_def filter_empty_conv)
  moreover have "\<exists>s' xs ys. slot_step (slot_count procs) s s' \<and> callers s = xs @ Queued # ys \<and> callers s' = xs @ Computing # ys"
    if q: "Queued \<in> set (callers s)" and free: "holders s \<noteq> slot_count procs"
  proof -
    obtain xs ys where c: "callers s = xs @ Queued # ys" using q by (meson split_list)
    have "in_channel s < slot_count procs" using inv free by (simp add: slot_count_def)
    from slot_step.Sends[OF c this] c show ?thesis by fastforce
  qed
  ultimately show ?thesis by blast
qed

text \<open>Three callers on one processor: two compute, the third waits.\<close>

theorem hash_slots_bounded_witness:
  "\<exists>s. slot_runs (slot_count 1) s \<and> callers s = [Computing, Computing, Queued] \<and> holders s = slot_count 1 \<and>
     length (filter (\<lambda>c. c = Computing) (callers s)) * Memory hashParams \<le> 40 * 1024"
proof -
  let ?n = "slot_count 1"
  have "slot_runs ?n \<lparr>in_channel = 0, callers = [Queued]\<rparr>"
    using slot_runs.Goes_on[OF slot_runs.Made slot_step.Calls] by simp
  from slot_runs.Goes_on[OF this slot_step.Sends[where xs = "[]"]]
  have "slot_runs ?n \<lparr>in_channel = 1, callers = [Computing]\<rparr>" by (simp add: slot_count_def)
  from slot_runs.Goes_on[OF this slot_step.Calls]
  have "slot_runs ?n \<lparr>in_channel = 1, callers = [Computing, Queued]\<rparr>" by simp
  from slot_runs.Goes_on[OF this slot_step.Sends[where xs = "[Computing]" and ys = "[]"]]
  have "slot_runs ?n \<lparr>in_channel = 2, callers = [Computing, Computing]\<rparr>" by (simp add: slot_count_def numeral_2_eq_2)
  from slot_runs.Goes_on[OF this slot_step.Calls]
  have run: "slot_runs ?n \<lparr>in_channel = 2, callers = [Computing, Computing, Queued]\<rparr>" by simp
  from hash_slots_bounded[OF run] show ?thesis
    by (intro exI[of _ "\<lparr>in_channel = 2, callers = [Computing, Computing, Queued]\<rparr>"] conjI run)
      (simp_all add: holders_def holding_def slot_count_def)
qed

end
