(* ===== verification/Provisioning.thy ===== *)
theory Provisioning
  imports Commands Site
begin

text \<open>
  From \<open>cmd/createuser\<close> to the browser: the account that the command leaves in the database signs in
  through the whole request chain of the server.
\<close>

lemma db_configure_seq: "db_configure p = (r, p1) \<Longrightarrow> user_seq (pworld p1) = user_seq (pworld p)"
proof -
  assume run: "db_configure p = (r, p1)"
  let ?I = "\<lambda>q. user_seq (pworld q) = user_seq (pworld p)"
  have "keeps ?I (ext_call c)" for c
    by (simp add: keeps_def ext_call_run external_call_def next_call_eq split: outcome.split)
  moreover have "keeps ?I (modify (\<lambda>p. p\<lparr>Conn := x, local_pool := b\<rparr>))" "keeps ?I (modify (\<lambda>p. p\<lparr>local_pool := b\<rparr>))" for x b
    by (simp_all add: keeps_def)
  ultimately have "keeps ?I db_configure" unfolding db_configure_def by (intro keeps_intros)
  from keeps_run[OF this run] show ?thesis by simp
qed

lemma created_account:
  assumes "create_user publish lower A flags p = ((0, out), q)" and "\<And>ev w. tables (publish ev w) = tables w"
  obtains u salt where "u \<in> set (users (tables (pworld q)))" "u_email u = trim_space (arg_email flags)"
    "u_roles u = Some (case role_list (arg_roles flags) of None \<Rightarrow> [] | Some rs \<Rightarrow> rs)"
    "CreateHash A (arg_password flags) salt = Inr (u_password_hash u)" "u_id u = user_seq (pworld p)"
  using create_user_cases[OF assms]
proof (elim disjE exE conjE)
  fix p1 u w
  assume c: "db_configure p = (Inr (), p1)" "create lower A (create_args flags) (pworld p1) = (Inr u, w)"
    "tables (pworld q) = tables w"
  from create_new_user[OF c(2)] c(3) db_configure_seq[OF c(1)] show thesis
    by (auto simp: create_args_def new_user_def add_user_def intro!: that)
qed auto

text \<open>
  C23: The first admin gets in: after \<open>createuser\<close> has exited with 0, whoever posts the account's email, in any
  case, and its password to /signin from the application's own page is signed in as that account, with
  the roles of the command line - with calls that work, and under the limit of attempts.
\<close>

theorem provisioned_account_signs_in:
  assumes "create_user publish (lower_of P) (argon P) flags p = ((0, out), q)"
    and "\<And>ev w. tables (publish ev w) = tables w" and "0 < user_seq (pworld p)"
    and "argon2id_contract (argon P)" and "scs_contract (sessions P)"
    and "store_inv (lower_of P) (world_of c)" and "reliable (world_of c)" and "tables (world_of c) = tables (pworld q)"
    and "GetInt64 (sessions P) (session c) ''user_id'' = 0" and "same_origin_request P req"
    and "ContentLength req \<le> 2097152" and "Method req = ''POST''" and "Path req = ''/signin''" and "FormParse req = None"
    and "recent_attempts (world_of c) (signin_key P req (trim_space (FormValue req ''email''))) < 5"
    and "lower_of P (trim_space (FormValue req ''email'')) = lower_of P (trim_space (arg_email flags))"
    and "FormValue req ''password'' = arg_password flags"
  shows "\<exists>u. session_user P (tables (world_of (serve P req c))) (session (serve P req c)) = Some u \<and>
    u_email u = trim_space (arg_email flags) \<and>
    u_roles u = Some (case role_list (arg_roles flags) of None \<Rightarrow> [] | Some rs \<Rightarrow> rs)"
proof -
  obtain u salt where u: "u \<in> set (users (tables (world_of c)))" "u_email u = trim_space (arg_email flags)"
    "u_roles u = Some (case role_list (arg_roles flags) of None \<Rightarrow> [] | Some rs \<Rightarrow> rs)"
    "CreateHash (argon P) (arg_password flags) salt = Inr (u_password_hash u)" "u_id u = user_seq (pworld p)"
    using created_account[OF assms(1,2)] assms(8) by metis
  have known: "user_by_email (lower_of P) (tables (world_of c)) (trim_space (FormValue req ''email'')) = Some u"
    using user_by_email_mem[OF assms(6) u(1)] assms(16) u(2) by simp
  have cmp: "ComparePasswordAndHash (argon P) (FormValue req ''password'') (u_password_hash u) = Inr True"
    using assms(4,17) u(4) unfolding argon2id_contract_def by auto
  have s: "users (tables (world_of (serve P req c))) = users (tables (world_of c))"
    "login (sessions P) (session (serve P req c)) = (u_id u, password_epoch (sha_of P) u)"
    using serve_signs_in[OF assms(5-7,9-15) known cmp] by simp_all
  have "user_by_id (tables (world_of c)) (u_id u) = Some u" by (rule user_by_id_mem[OF assms(6) u(1)])
  with s u(5) assms(3) have "session_user P (tables (world_of (serve P req c))) (session (serve P req c)) = Some u"
    by (simp add: session_user_def login_def user_by_id_def)
  with u(2,3) show ?thesis by blast
qed

definition bob_signin :: request where
  "bob_signin = ada_signin\<lparr>FormValue := (\<lambda>k. if k = ''email'' then ''bob@example.com'' else ''battery-staple'')\<rparr>"

definition reopened :: "mem_session process \<Rightarrow> mem_session web" where
  "reopened q = demo_web\<lparr>world_of := demo_world\<lparr>tables := tables (pworld q), snapshot := tables (pworld q), user_seq := 3\<rparr>\<rparr>"

lemma bob_tables:
  assumes "create_user (\<lambda>ev w. w) id demo_argon2id bob_flags (demo_process demo_app demo_world) = ((0, out), q)"
  obtains u where "tables (pworld q) = empty_tables\<lparr>users := [ada, u]\<rparr>" "u_id u = 2" "u_email u = ''bob@example.com''"
  using create_user_cases[OF assms refl]
proof (elim disjE exE conjE)
  fix p1 u w
  assume c: "db_configure (demo_process demo_app demo_world) = (Inr (), p1)"
    "create id demo_argon2id (create_args bob_flags) (pworld p1) = (Inr u, w)" "tables (pworld q) = tables w"
  have p1: "tables (pworld p1) = empty_tables\<lparr>users := [ada]\<rparr>" "user_seq (pworld p1) = 2"
    using db_configure_world[OF c(1)] db_configure_seq[OF c(1)] by (simp_all add: demo_process_def)
  from create_new_user[OF c(2)] obtain h n where
    "u = new_user (create_args bob_flags) h 2 n" "w = add_user u (tick (salted (hashed (tick (pworld p1)))))"
    using p1(2) by auto
  with p1 c(3) show thesis
    by (intro that[of u]) (simp_all add: add_user_def new_user_def create_args_def bob_flags_def hashed_def salted_def)
qed auto

theorem provisioned_account_signs_in_witness:
  "\<exists>out q u. create_user (\<lambda>ev w. w) id demo_argon2id bob_flags (demo_process demo_app demo_world) = ((0, out), q) \<and>
     session_user demo_app (tables (world_of (serve demo_app bob_signin (reopened q))))
       (session (serve demo_app bob_signin (reopened q))) = Some u \<and>
     u_email u = ''bob@example.com'' \<and> u_roles u = Some [''admin'']"
proof -
  obtain out q where run: "create_user (\<lambda>ev w. w) id demo_argon2id bob_flags (demo_process demo_app demo_world) = ((0, out), q)"
    by (rule bob_provisioned)
  obtain v where v: "tables (pworld q) = empty_tables\<lparr>users := [ada, v]\<rparr>" "u_id v = 2" "u_email v = ''bob@example.com''"
    using bob_tables[OF run] by blast
  have w: "world_of (reopened q) = demo_world\<lparr>tables := tables (pworld q), snapshot := tables (pworld q), user_seq := 3\<rparr>"
    "session (reopened q) = (Map.empty, 0)" by (simp_all add: reopened_def demo_web_def)
  have inv: "store_inv id (world_of (reopened q))" "reliable (world_of (reopened q))"
    "recent_attempts (world_of (reopened q)) k = 0" for k
    using demo_world_inv(2) v
    by (auto simp: w store_inv_def tables_inv_def empty_tables_def ada_def reliable_def recent_attempts_def)
  have app: "lower_of demo_app = id" "argon demo_app = demo_argon2id" "sessions demo_app = mem_scs" by (simp_all add: demo_app_def)
  show ?thesis
    using provisioned_account_signs_in[of "\<lambda>ev w. w" demo_app bob_flags "demo_process demo_app demo_world" out q "reopened q" bob_signin]
      run inv demo_argon2id_contract demo_app_sessions
    by (auto simp: app w demo_process_def bob_signin_def ada_signin_def demo_request_def mem_scs_def same_origin_request_def
        bob_flags_def bob_roles)
qed

end
