(* ===== verification/Spec2Isabelle.thy ===== *)
theory Spec2Isabelle
  imports Prelude Go_Strings Utf8 Go_Errors Env_Config Logging Partition Appname Encoding Fixture
    Db_Layer Store Users Reset Throttle Web_Base Flash Secure Web_Auth Pages Jobs Handlers Router Serving Served_Pages Forgotten Site Recovery Recovery_Run
    Conngen Modelgen Boot Discretion Server Views Analyzers Welcome Commands Db_Conn Logging_Trace Webtest
    Throttle_Race Reset_Race Hash_Slots Provisioning
begin

text \<open>
  A model of the Go web application bootstrap: a server-rendered application with accounts, sessions,
  password recovery by mail, background jobs, and the tools around it.  Every theory below names the
  files of \<open>src/\<close> it models; definitions keep the names of the Go functions (in snake case where the
  Go name is taken in HOL), and the text before each theorem says what it shows.

  \<^bold>\<open>How the parts interact.\<close>  \<open>server.go\<close> configures the process (environment, logging, telemetry,
  database, sessions, mailer, jobs, flows), then listens.  A request runs through the chain of
  \<open>web/router.go\<close>: request id, secure headers, body limit, span, request log with the error handler,
  session, the same-origin gate, the signed-in user, and then a handler.  Handlers call the domain functions of
  \<open>auth\<close> and the throttle of \<open>web\<close>, which send SQL through the package \<open>db\<close>; a password reset is
  queued as a job, whose worker issues the token and mails the link.  \<open>cmd/conngen\<close> and \<open>cmd/modelgen\<close>
  write the parts of \<open>auth\<close>, \<open>db\<close> and \<open>web\<close> that are called over the pool; \<open>cmd/lint\<close> keeps
  hand-written code within transactions.

  \<^bold>\<open>State.\<close>  An operation is an \<open>act\<close>: state to (error or value) and state (\<open>Prelude\<close>), so every early
  return keeps the effects made before it.  The state is \<open>world\<close> for the domain (\<open>Store\<close>: the tables,
  the transaction's snapshot, sequences, two clocks, the queue, the outbox, and the answers of the world
  outside), \<open>web\<close> for a request (\<open>Web_Base\<close>: world, session, response, context), \<open>process\<close> for the
  start of the program (\<open>Boot\<close>), \<open>server\<close> for its end (\<open>Server\<close>).  The outcome of the n-th call that
  leaves the process is \<open>fate n\<close>: it works, is refused, fails with its effect lost, or takes effect and
  only the reply is lost.  Theorems without a hypothesis on \<open>fate\<close> hold for every placement of such
  failures; \<open>reliable\<close> is the hypothesis that every call works.

  \<^bold>\<open>The theories.\<close>

  \<^item> Foundations: \<open>Prelude\<close> (acts, the invariant calculus \<open>keeps\<close>/\<open>leads\<close> and its rules), \<open>Go_Strings\<close>
    and \<open>Utf8\<close> (Go's strings as bytes, runes with Go's decoder), \<open>Encoding\<close> (hex, base64url),
    \<open>Go_Errors\<close> (errors as values, \<open>errors.Is\<close>).
  \<^item> Small packages: \<open>Env_Config\<close> (env), \<open>Logging\<close> and \<open>Logging_Trace\<close> (logging), \<open>Partition\<close>,
    \<open>Appname\<close>, \<open>Fixture\<close>.
  \<^item> Data: \<open>Db_Layer\<close> and \<open>Db_Conn\<close> (db: typed queries, row maps, transactions, the variants over the
    pool), \<open>Store\<close> (the tables of the migrations with their constraints, and the statements the code
    sends).  The locale \<open>transactional\<close> is what transactions ask of a connection; it is interpreted on
    the store.
  \<^item> Accounts: \<open>Users\<close> (auth/users.go), \<open>Reset\<close> (auth/reset.go), \<open>Throttle\<close> (web/throttle.go, with the
    locale \<open>rate_limiter\<close>).  \<open>Throttle_Race\<close> interleaves the sign-ins
    for one key between check, comparison and record; \<open>Reset_Race\<close> takes the transactions of the reset
    apart into their statements and interleaves them, with Postgres' row locks; \<open>Hash_Slots\<close> is the cap
    on concurrent password hashing.
  \<^item> Web: \<open>Web_Base\<close>, \<open>Flash\<close>, \<open>Secure\<close>, \<open>Web_Auth\<close>, \<open>Pages\<close>, \<open>Handlers\<close>, \<open>Router\<close>, \<open>Views\<close> (the
    generated templates).  \<open>Serving\<close> holds what is true of every request through the whole chain,
    \<open>Served_Pages\<close> what is true of every page it sends, \<open>Forgotten\<close> what asking for a reset tells.
  \<^item> Background: \<open>Jobs\<close> (jobs, mailer; locale \<open>mail_sender\<close>), \<open>Welcome\<close> (flows: a durable function as a
    step relation over its recorded steps).
  \<^item> The running application: \<open>Site\<close> (runs of requests, jobs, operators and clocks), \<open>Recovery\<close> and
    \<open>Recovery_Run\<close> (an abstract machine of account recovery, refined by the application), \<open>Provisioning\<close> (from createuser
    to a signed-in browser), \<open>Boot\<close>
    (start-up), \<open>Discretion\<close> (what failures of a started program show) and \<open>Server\<close> (shutdown, as interleaved goroutines).
  \<^item> Tools: \<open>Conngen\<close>, \<open>Modelgen\<close>, \<open>Analyzers\<close>, \<open>Commands\<close> (createuser, migrate, the user factory),
    \<open>Webtest\<close> (the integration harness).

  \<^bold>\<open>What the lemmas show.\<close>  Each component has its invariant or contract with the preservation lemmas
  (\<open>store_inv\<close> for the store, \<open>site_inv\<close> for the application, \<open>manager_inv\<close> for the loggers, \<open>boot_inv\<close>, \<open>server_inv\<close>),
  its operations on every branch, and then the properties: nobody is signed in without the password
  and only the owner's mailbox can change it, in every run of the application; the recovery machine
  refined; no enumeration of accounts; atomic transactions; the throttle's limit; every request
  answered with its headers, and no internal detail of a failure in the answer; cross-site posts inert; pages that no data can turn into markup, with
  the nonce that their response's policy admits;
  generated code that calls what its name promises; orderly start and shutdown.  Three limits
  are proved where concurrency or failure weakens a promise: a reset token that two requests use at once,
  guesses beyond the throttle's limit by as many as are in flight, jobs abandoned when the listener fails.

  \<^bold>\<open>Bounds and termination.\<close>  Loops are structural recursions, except the rune decoder, the splitting of
  trimmed text, decimal printing and the clone loop of the test harness, which have measures.  The
  random codes of \<open>Fixture\<close> are drawn at most \<open>maxAttempts\<close> times, as in the code.  Database times are
  integers of microseconds, identifiers are unbounded integers (a bigint column would
  overflow after 2^63 rows); no arithmetic of the program comes near a machine bound.

  \<^bold>\<open>Parameters.\<close>  Code outside the repository is an argument with its documented behaviour as a
  hypothesis: argon2id and SHA-256, \<open>lower()\<close> of Postgres and Unicode's case tables, the session
  manager \<open>scs\<close> (\<open>scs_contract\<close>), templ and gesso/ui (\<open>ui_contract\<close>), \<open>url.Parse\<close>, \<open>imports.Process\<close>,
  the catalog query of modelgen, goose, River, SES, Inngest, the OpenTelemetry and Sentry SDKs (as calls
  that may fail).  Each theorem with such a hypothesis has a witness on a concrete instance.

  \<^bold>\<open>Not modelled.\<close>  Requests are served one at a time in \<open>Site\<close> (interleaving is the subject of
  \<open>Server\<close>, \<open>Throttle_Race\<close> and \<open>Reset_Race\<close>); the mutex of the logging manager; the log
  lines outside the package web (a failed rollback, the mailer's and the jobs' notes), except where a
  component models them; panics of third-party code within a request, which echo's \<open>Recover\<close> would turn
  into errors, and failures of \<open>scs\<close> itself to load or commit a session; contexts other than cancelled before a call; NUL bytes
  and invalid UTF-8 in SQL text, which Postgres refuses; the bytes of compressed or streamed bodies;
  \<open>.templ\<close> sources (their generated Go is modelled), style sheets, scripts and test code.
\<close>

end
